(* ===== verification/Prelude.thy ===== *)
theory Prelude
  imports Complex_Main "HOL-Library.Word" "HOL-Library.Multiset" "HOL-Library.List_Lexorder"
    "HOL-Library.Char_ord" "HOL-Library.Product_Lexorder"
begin

text \<open>
  Shared vocabulary of the development: the types that stand for Go's machine types, the
  collections of rewrite rules that the component theories extend, and generic facts on
  association lists, sorting and counting that more than one component needs.

  A Go \<open>uint64\<close> is a \<^typ>\<open>64 word\<close> (addition and subtraction wrap). A Go \<open>int\<close>, \<open>int64\<close>
  or \<open>time.Duration\<close> that the code only copies, compares or adds far from its bounds is an
  \<^typ>\<open>int\<close>. A \<open>time.Time\<close> is an \<^typ>\<open>int\<close> count of nanoseconds whose zero value is \<open>0\<close>;
  the clock of a running program is positive. A \<open>float64\<close> is a \<^typ>\<open>real\<close>: rounding, infinities
  and NaN are not modelled.
\<close>

type_synonym u64 = "64 word"
type_synonym time = int
type_synonym duration = int
type_synonym float64 = real

definition nanosecond :: duration where "nanosecond = 1"
definition second :: duration where "second = 1000000000"
definition minute :: duration where "minute = 60 * second"

definition seconds_of :: "duration \<Rightarrow> float64" where
  "seconds_of d = real_of_int d / 1000000000"

named_theorems frame_simps \<open>fields an operation leaves alone\<close>
named_theorems eval_simps \<open>definitions unfolded to evaluate a concrete run\<close>

declare nanosecond_def [eval_simps] second_def [eval_simps] minute_def [eval_simps]

section \<open>Association lists\<close>

text \<open>
  A Go map whose keys are ranged over is an association list with distinct keys: the list
  order is the order one iteration sees.
\<close>

definition del_key :: "'k \<Rightarrow> ('k \<times> 'v) list \<Rightarrow> ('k \<times> 'v) list" where
  "del_key k xs = filter (\<lambda>(i, v). i \<noteq> k) xs"

lemma del_key_Nil [simp]: "del_key k [] = []"
  by (simp add: del_key_def)

lemma del_key_Cons [simp]: "del_key k ((i, v) # xs) = (if i = k then del_key k xs else (i, v) # del_key k xs)"
  by (simp add: del_key_def)

lemma map_of_del_key: "map_of (del_key k xs) i = (if i = k then None else map_of xs i)"
  by (induction xs) (auto split: if_splits)

lemma set_del_key: "set (del_key k xs) = {(i, v) \<in> set xs. i \<noteq> k}"
  by (auto simp: del_key_def)

lemma fst_del_key: "fst ` set (del_key k xs) = fst ` set xs - {k}"
  by (force simp: set_del_key)

lemma in_del_keyD: "x \<in> set (del_key k xs) \<Longrightarrow> x \<in> set xs"
  by (simp add: del_key_def)

lemma length_del_key: "length (del_key k xs) \<le> length xs"
  by (simp add: del_key_def)

lemma del_key_id: "k \<notin> fst ` set xs \<Longrightarrow> del_key k xs = xs"
  by (induction xs) auto

lemma distinct_fst_del_key: "distinct (map fst xs) \<Longrightarrow> distinct (map fst (del_key k xs))"
  by (simp add: del_key_def distinct_map_filter)

lemma distinct_snd_del_key: "distinct (map snd xs) \<Longrightarrow> distinct (map snd (del_key k xs))"
  by (simp add: del_key_def distinct_map_filter)

lemma length_filter_del_key: "length (filter P (del_key k xs)) \<le> length (filter P xs)"
  by (induction xs) auto

lemma map_of_distinct: "distinct (map fst xs) \<Longrightarrow> (map_of xs i = Some v) = ((i, v) \<in> set xs)"
  by (auto dest: map_of_SomeD)

text \<open>A map entry written with \<open>m[k] = v\<close>: in place when present, else new.\<close>

fun put_key :: "'k \<Rightarrow> 'v \<Rightarrow> ('k \<times> 'v) list \<Rightarrow> ('k \<times> 'v) list" where
  "put_key k v [] = [(k, v)]"
| "put_key k v ((i, w) # xs) = (if i = k then (i, v) # xs else (i, w) # put_key k v xs)"

lemma map_of_put_key [simp]: "map_of (put_key k v xs) = (map_of xs)(k \<mapsto> v)"
  by (induction k v xs rule: put_key.induct) auto

lemma fst_put_key: "fst ` set (put_key k v xs) = insert k (fst ` set xs)"
  by (induction k v xs rule: put_key.induct) auto

lemma distinct_put_key: "distinct (map fst xs) \<Longrightarrow> distinct (map fst (put_key k v xs))"
proof (induction k v xs rule: put_key.induct)
  case (2 k v i w xs)
  then show ?case using fst_put_key [of k v xs] by (auto simp: image_iff)
qed simp

lemma length_put_key: "length (put_key k v xs) = (if k \<in> fst ` set xs then length xs else Suc (length xs))"
  by (induction k v xs rule: put_key.induct) auto

section \<open>Counting and sorting\<close>

lemma filter_cong_except:
  assumes "y \<notin> set xs" and "\<And>x. x \<noteq> y \<Longrightarrow> Q x = P x"
  shows "filter Q xs = filter P xs"
proof (rule filter_cong [OF refl])
  fix x assume "x \<in> set xs"
  with assms(1) have "x \<noteq> y" by auto
  then show "Q x = P x" by (rule assms(2))
qed

lemma length_filter_one_change:
  assumes "distinct xs" and "\<And>x. x \<noteq> y \<Longrightarrow> Q x = P x"
  shows "length (filter Q xs) + (if y \<in> set xs \<and> P y then 1 else 0) =
    length (filter P xs) + (if y \<in> set xs \<and> Q y then 1 else 0)"
  using assms(1)
proof (induction xs)
  case (Cons x xs)
  show ?case
  proof (cases "x = y")
    case True
    with Cons.prems have "filter Q xs = filter P xs"
      by (intro filter_cong_except [where y = y] assms(2)) auto
    with True Cons.prems show ?thesis by auto
  next
    case False
    then have "Q x = P x" by (rule assms(2))
    with False Cons show ?thesis by auto
  qed
qed simp

lemma length_filter_distinct_perm:
  assumes "distinct xs" "distinct ys" "set xs = set ys"
  shows "length (filter P xs) = length (filter P ys)"
proof -
  have "length (filter P xs) = card (set (filter P xs))"
    by (rule distinct_card [symmetric]) (simp add: assms(1))
  also have "set (filter P xs) = set (filter P ys)" using assms(3) by simp
  also have "card (set (filter P ys)) = length (filter P ys)"
    by (rule distinct_card) (simp add: assms(2))
  finally show ?thesis .
qed

lemma sort_key_distinct_perm:
  fixes f :: "'a \<Rightarrow> 'b::linorder"
  assumes "distinct xs" "distinct ys" "set xs = set ys" "inj_on f (set xs)"
  shows "sort_key f xs = sort_key f ys"
proof -
  have "map f (sort_key f xs) = map f (sort_key f ys)"
  proof (rule sorted_distinct_set_unique)
    show "distinct (map f (sort_key f xs))" "distinct (map f (sort_key f ys))"
      using assms by (simp_all add: distinct_map)
  qed (use assms(3) in simp_all)
  moreover have "inj_on f (set (sort_key f xs) \<union> set (sort_key f ys))"
    using assms(3,4) by simp
  ultimately show ?thesis by (simp add: inj_on_map_eq_map)
qed

end
