(* ===== verification/Go_Strings.thy ===== *)
theory Go_Strings
  imports Prelude
begin

text \<open>
  The functions of Go's \<open>strings\<close>, \<open>strconv\<close>, \<open>fmt\<close> and \<open>path/filepath\<close> (Unix) packages that
  the daemon uses, on byte strings. \<open>TrimSpace\<close> and \<open>Fields\<close> know the ASCII white space only.
\<close>

section \<open>Prefixes, suffixes, searching\<close>

definition has_prefix :: "string \<Rightarrow> string \<Rightarrow> bool" where
  "has_prefix s p \<longleftrightarrow> take (length p) s = p"

definition trim_prefix :: "string \<Rightarrow> string \<Rightarrow> string" where
  "trim_prefix s p = (if has_prefix s p then drop (length p) s else s)"

definition has_suffix :: "string \<Rightarrow> string \<Rightarrow> bool" where
  "has_suffix s p \<longleftrightarrow> length p \<le> length s \<and> drop (length s - length p) s = p"

definition trim_suffix :: "string \<Rightarrow> string \<Rightarrow> string" where
  "trim_suffix s p = (if has_suffix s p then take (length s - length p) s else s)"

fun index_byte :: "string \<Rightarrow> char \<Rightarrow> nat option" where
  "index_byte [] c = None"
| "index_byte (x # xs) c = (if x = c then Some 0 else map_option Suc (index_byte xs c))"

fun last_index_byte :: "string \<Rightarrow> char \<Rightarrow> nat option" where
  "last_index_byte [] c = None"
| "last_index_byte (x # xs) c =
     (case last_index_byte xs c of
        Some i \<Rightarrow> Some (Suc i)
      | None \<Rightarrow> if x = c then Some 0 else None)"

text \<open>\<open>strings.Cut\<close> at a one-byte separator: \<open>None\<close> is \<open>found = false\<close>.\<close>

definition cut_byte :: "string \<Rightarrow> char \<Rightarrow> (string \<times> string) option" where
  "cut_byte s c = (case index_byte s c of None \<Rightarrow> None | Some i \<Rightarrow> Some (take i s, drop (Suc i) s))"

definition is_space :: "char \<Rightarrow> bool" where
  "is_space c \<longleftrightarrow> c \<in> set [CHR '' '', CHR 0x09, CHR 0x0A, CHR 0x0B, CHR 0x0C, CHR 0x0D]"

definition trim_space :: "string \<Rightarrow> string" where
  "trim_space s = rev (dropWhile is_space (rev (dropWhile is_space s)))"

definition is_digit :: "char \<Rightarrow> bool" where
  "is_digit c \<longleftrightarrow> CHR ''0'' \<le> c \<and> c \<le> CHR ''9''"

definition is_lower :: "char \<Rightarrow> bool" where
  "is_lower c \<longleftrightarrow> CHR ''a'' \<le> c \<and> c \<le> CHR ''z''"

definition is_upper :: "char \<Rightarrow> bool" where
  "is_upper c \<longleftrightarrow> CHR ''A'' \<le> c \<and> c \<le> CHR ''Z''"

definition digit_val :: "char \<Rightarrow> nat" where
  "digit_val c = of_char c - 48"

definition digit_char :: "nat \<Rightarrow> char" where
  "digit_char d = char_of (48 + d)"

section \<open>Splitting and joining\<close>

text \<open>\<open>strings.Split\<close> at a one-byte separator; \<open>strings.Fields\<close>; \<open>strings.Join\<close>.\<close>

fun split_byte :: "char \<Rightarrow> string \<Rightarrow> string list" where
  "split_byte c [] = [[]]"
| "split_byte c (x # xs) =
     (if x = c then [] # split_byte c xs
      else (case split_byte c xs of [] \<Rightarrow> [[x]] | w # ws \<Rightarrow> (x # w) # ws))"

fun fields_aux :: "string \<Rightarrow> string \<Rightarrow> string list" where
  "fields_aux w [] = (if w = [] then [] else [rev w])"
| "fields_aux w (x # xs) =
     (if is_space x then (if w = [] then fields_aux [] xs else rev w # fields_aux [] xs)
      else fields_aux (x # w) xs)"

definition fields :: "string \<Rightarrow> string list" where
  "fields s = fields_aux [] s"

fun join :: "string list \<Rightarrow> string \<Rightarrow> string" where
  "join [] sep = []"
| "join [w] sep = w"
| "join (w # v # ws) sep = w @ sep @ join (v # ws) sep"

section \<open>Scanning lines\<close>

text \<open>\<open>bufio.Scanner\<close> with \<open>ScanLines\<close> and a buffer of at most \<open>m\<close> bytes: the lines it yields, without
  their end, until the text ends or a line does not fit the buffer; and whether it ended well.\<close>

definition newline :: char where "newline = CHR 0x0A"

definition drop_cr :: "string \<Rightarrow> string" where
  "drop_cr w = (if w \<noteq> [] \<and> last w = CHR 0x0D then butlast w else w)"

fun scan_tokens :: "nat \<Rightarrow> string list \<Rightarrow> string list \<times> bool" where
  "scan_tokens m [] = ([], True)"
| "scan_tokens m (w # ws) =
     (if length w \<ge> m then ([], False)
      else if w = [] \<and> ws = [] then ([], True)
      else let (ls, ok) = scan_tokens m ws in (drop_cr w # ls, ok))"

definition scan_lines :: "nat \<Rightarrow> string \<Rightarrow> string list \<times> bool" where
  "scan_lines m s = scan_tokens m (split_byte newline s)"

text \<open>A text of whole lines.\<close>

definition unlines :: "string list \<Rightarrow> string" where
  "unlines ls = concat (map (\<lambda>l. l @ [newline]) ls)"

section \<open>Numbers\<close>

fun digits_of :: "nat \<Rightarrow> string" where
  "digits_of n = (if n < 10 then [digit_char n] else digits_of (n div 10) @ [digit_char (n mod 10)])"

declare digits_of.simps [simp del]

text \<open>\<open>fmt.Sprintf("%04d", n)\<close> for a natural number.\<close>

definition fmt_04d :: "nat \<Rightarrow> string" where
  "fmt_04d n = (let s = digits_of n in replicate (4 - length s) (CHR ''0'') @ s)"

definition decimal_value :: "string \<Rightarrow> nat" where
  "decimal_value s = fold (\<lambda>c n. n * 10 + digit_val c) s 0"

text \<open>\<open>strconv.ParseUint(s, 10, 64)\<close>: \<open>None\<close> on an empty, non-decimal or out-of-range string.\<close>

definition parse_uint64 :: "string \<Rightarrow> nat option" where
  "parse_uint64 s =
     (if s \<noteq> [] \<and> list_all is_digit s \<and> decimal_value s < 2 ^ 64 then Some (decimal_value s) else None)"

text \<open>\<open>strconv.ParseInt(s, 10, 64)\<close>: an optional sign, then decimal digits within \<open>int64\<close>.\<close>

definition parse_int64 :: "string \<Rightarrow> int option" where
  "parse_int64 s =
     (let neg = has_prefix s ''-'';
          body = (if neg \<or> has_prefix s ''+'' then tl s else s)
      in if body \<noteq> [] \<and> list_all is_digit body then
           (let n = int (decimal_value body)
            in if neg then (if n \<le> 2 ^ 63 then Some (- n) else None)
               else (if n < 2 ^ 63 then Some n else None))
         else None)"

section \<open>Slash-separated paths\<close>

definition is_abs :: "string \<Rightarrow> bool" where
  "is_abs p \<longleftrightarrow> has_prefix p ''/''"

text \<open>\<open>filepath.Clean\<close>: the stack of components the lexical scan keeps, innermost last.\<close>

fun clean_push :: "bool \<Rightarrow> string list \<Rightarrow> string \<Rightarrow> string list" where
  "clean_push rooted st c =
     (if c = [] \<or> c = ''.'' then st
      else if c = ''..'' then
        (if st \<noteq> [] \<and> last st \<noteq> ''..'' then butlast st
         else if rooted then st
         else st @ [''..''])
      else st @ [c])"

definition clean_components :: "bool \<Rightarrow> string list \<Rightarrow> string list" where
  "clean_components rooted cs = foldl (clean_push rooted) [] cs"

definition clean_path :: "string \<Rightarrow> string" where
  "clean_path p =
     (if p = [] then ''.''
      else let rooted = is_abs p; out = join (clean_components rooted (split_byte (CHR ''/'') p)) ''/''
           in if rooted then ''/'' @ out else if out = [] then ''.'' else out)"

text \<open>\<open>filepath.Join\<close>: empty elements are ignored, the rest joined and cleaned.\<close>

definition join_path :: "string list \<Rightarrow> string" where
  "join_path ps = (let qs = filter (\<lambda>p. p \<noteq> []) ps in if qs = [] then [] else clean_path (join qs ''/''))"

section \<open>Facts\<close>

lemma has_prefix_append [simp]: "has_prefix (p @ s) p"
  by (simp add: has_prefix_def)

lemma has_prefix_iff: "has_prefix s p \<longleftrightarrow> (\<exists>t. s = p @ t)"
  by (metis append_take_drop_id has_prefix_append has_prefix_def)

lemma trim_prefix_append [simp]: "trim_prefix (p @ s) p = s"
  by (simp add: trim_prefix_def)

lemma has_suffix_append [simp]: "has_suffix (s @ p) p"
  by (simp add: has_suffix_def)

lemma has_suffix_iff: "has_suffix s p \<longleftrightarrow> (\<exists>t. s = t @ p)"
  by (metis append_take_drop_id has_suffix_append has_suffix_def)

lemma trim_suffix_append [simp]: "trim_suffix (s @ p) p = s"
  by (simp add: trim_suffix_def)

lemma dropWhile_id: "s = [] \<or> \<not> P (hd s) \<Longrightarrow> dropWhile P s = s"
  by (cases s) auto

lemma trim_space_id: "s = [] \<or> (\<not> is_space (hd s) \<and> \<not> is_space (last s)) \<Longrightarrow> trim_space s = s"
  by (cases "s = []") (simp_all add: trim_space_def dropWhile_id hd_rev)

lemma index_byte_None: "index_byte s c = None \<longleftrightarrow> c \<notin> set s"
  by (induction s) auto

lemma index_byte_append: "c \<notin> set s \<Longrightarrow> index_byte (s @ c # t) c = Some (length s)"
  by (induction s) auto

lemma index_byte_Some: "index_byte s c = Some i \<Longrightarrow> s = take i s @ c # drop (Suc i) s \<and> c \<notin> set (take i s)"
  by (induction s arbitrary: i) (auto split: if_splits)

lemma last_index_byte_None: "last_index_byte s c = None \<longleftrightarrow> c \<notin> set s"
  by (induction s) (auto split: option.splits)

lemma last_index_byte_append: "c \<notin> set t \<Longrightarrow> last_index_byte (s @ c # t) c = Some (length s)"
  by (induction s) (auto simp: last_index_byte_None split: option.splits)

lemma split_byte_ne [simp]: "split_byte c s \<noteq> []"
  by (induction s) (auto split: list.splits)

lemma split_byte_no_sep: "w \<in> set (split_byte c s) \<Longrightarrow> c \<notin> set w"
  by (induction s arbitrary: w) (auto split: if_splits list.splits)

lemma split_byte_id: "c \<notin> set s \<Longrightarrow> split_byte c s = [s]"
  by (induction s) auto

lemma split_byte_append: "c \<notin> set w \<Longrightarrow> split_byte c (w @ c # s) = w # split_byte c s"
  by (induction w) auto

lemma join_split_byte: "join (split_byte c s) [c] = s"
proof (induction s)
  case (Cons x xs)
  then show ?case
    by (cases "split_byte c xs" rule: list.exhaust; cases "tl (split_byte c xs)") (auto split: list.splits)
qed simp

lemma split_byte_join:
  "ws \<noteq> [] \<Longrightarrow> \<forall>w \<in> set ws. c \<notin> set w \<Longrightarrow> split_byte c (join ws [c]) = ws"
  by (induction ws "[c]" rule: join.induct) (auto simp: split_byte_id split_byte_append)

lemma unlines_Nil [simp]: "unlines [] = []"
  by (simp add: unlines_def)

lemma unlines_Cons [simp]: "unlines (l # ls) = l @ newline # unlines ls"
  by (simp add: unlines_def)

lemma unlines_append [simp]: "unlines (ls @ ks) = unlines ls @ unlines ks"
  by (simp add: unlines_def)

lemma unlines_snoc: "unlines ls @ l @ [newline] = unlines (ls @ [l])"
  by simp

text \<open>A line that the scanner hands out as it is.\<close>

definition line_ok :: "nat \<Rightarrow> string \<Rightarrow> bool" where
  "line_ok m l \<longleftrightarrow> newline \<notin> set l \<and> length l < m \<and> drop_cr l = l"

lemma split_byte_unlines:
  "\<forall>l \<in> set ls. newline \<notin> set l \<Longrightarrow> split_byte newline (unlines ls @ s) = ls @ split_byte newline s"
  by (induction ls) (auto simp: split_byte_append)

lemma scan_tokens_append:
  "\<forall>l \<in> set ls. line_ok m l \<Longrightarrow> ws \<noteq> [] \<Longrightarrow>
   scan_tokens m (ls @ ws) = (ls @ fst (scan_tokens m ws), snd (scan_tokens m ws))"
  by (induction ls) (auto simp: line_ok_def Let_def split: prod.split)

lemma scan_unlines_append:
  "\<forall>l \<in> set ls. line_ok m l \<Longrightarrow>
   scan_lines m (unlines ls @ s) = (ls @ fst (scan_lines m s), snd (scan_lines m s))"
  unfolding scan_lines_def by (subst split_byte_unlines) (auto simp: line_ok_def scan_tokens_append)

lemma scan_lines_Nil [simp]: "0 < m \<Longrightarrow> scan_lines m [] = ([], True)"
  by (simp add: scan_lines_def)

lemma scan_unlines:
  "0 < m \<Longrightarrow> \<forall>l \<in> set ls. line_ok m l \<Longrightarrow> scan_lines m (unlines ls) = (ls, True)"
  using scan_unlines_append [of ls m "[]"] by simp

lemma scan_line:
  "newline \<notin> set l \<Longrightarrow> l \<noteq> [] \<Longrightarrow> length l < m \<Longrightarrow> scan_lines m l = ([drop_cr l], True)"
  by (simp add: scan_lines_def split_byte_id)

lemma scan_long_line:
  "newline \<notin> set l \<Longrightarrow> m \<le> length l \<Longrightarrow> \<not> snd (scan_lines m (l @ newline # s))"
  by (simp add: scan_lines_def split_byte_append)

lemma is_digit_digit_char: "d < 10 \<Longrightarrow> is_digit (digit_char d)"
  by (auto simp: is_digit_def digit_char_def less_eq_char_def)

lemma digit_val_digit_char: "d < 10 \<Longrightarrow> digit_val (digit_char d) = d"
  by (auto simp: digit_val_def digit_char_def)

lemma digits_of_ne [simp]: "digits_of n \<noteq> []"
  by (subst digits_of.simps) simp

lemma digits_of_digits: "c \<in> set (digits_of n) \<Longrightarrow> is_digit c"
proof (induction n rule: digits_of.induct)
  case (1 n)
  then show ?case
    by (cases "n < 10") (auto simp: digits_of.simps [of n] is_digit_digit_char)
qed

lemma decimal_value_snoc: "decimal_value (s @ [c]) = decimal_value s * 10 + digit_val c"
  by (simp add: decimal_value_def)

lemma decimal_value_digits_of [simp]: "decimal_value (digits_of n) = n"
proof (induction n rule: digits_of.induct)
  case (1 n)
  show ?case
  proof (cases "n < 10")
    case True
    then show ?thesis by (simp add: digits_of.simps [of n] decimal_value_def digit_val_digit_char)
  next
    case False
    with 1 show ?thesis
      by (simp add: digits_of.simps [of n] decimal_value_snoc digit_val_digit_char)
  qed
qed

lemma decimal_value_zeros: "decimal_value (replicate k (CHR ''0'') @ s) = decimal_value s"
  by (induction k) (auto simp: decimal_value_def digit_val_def)

lemma decimal_value_fmt_04d [simp]: "decimal_value (fmt_04d n) = n"
  by (simp add: fmt_04d_def Let_def decimal_value_zeros)

lemma fmt_04d_inj: "fmt_04d m = fmt_04d n \<Longrightarrow> m = n"
  by (metis decimal_value_fmt_04d)

lemma fmt_04d_digits: "c \<in> set (fmt_04d n) \<Longrightarrow> is_digit c"
  by (auto simp: fmt_04d_def Let_def digits_of_digits is_digit_def [of "CHR ''0''"] split: if_splits)

lemma length_digits_of: "0 < k \<Longrightarrow> n < 10 ^ k \<Longrightarrow> length (digits_of n) \<le> k"
proof (induction n arbitrary: k rule: digits_of.induct)
  case (1 n)
  show ?case
  proof (cases "n < 10")
    case True
    with "1.prems" show ?thesis by (simp add: digits_of.simps [of n])
  next
    case False
    with "1.prems" obtain j where k: "k = Suc j" and "0 < j" by (cases k; cases "k - 1") auto
    with "1.prems" False "1.IH" [of j] show ?thesis
      by (simp add: digits_of.simps [of n] less_mult_imp_div_less mult.commute)
  qed
qed

lemma length_fmt_04d: "n < 10000 \<Longrightarrow> length (fmt_04d n) = 4"
  using length_digits_of [of 4 n] by (simp add: fmt_04d_def Let_def)

end
