(* ===== verification/Slot_Types.thy ===== *)
theory Slot_Types
  imports Go_Strings
begin

text \<open>
  Package \<open>slot\<close>: identifiers, lifecycle states, events and records (\<open>slot.go\<close>), and the names
  that tie a slot to a backend unit (\<open>unitName\<close>, \<open>idFromUnit\<close>, \<open>validID\<close> in \<open>manager.go\<close>).
  A Go struct that embeds another (\<open>slotRec\<close> embeds \<open>Slot\<close>) is a record extension, so a field
  of the embedded struct is read directly and the embedded value is \<open>slot.truncate\<close>.
\<close>

type_synonym slot_id = string

datatype slot_state =
  StateEmpty | StateStarting | StateIdle | StateBusy | StateStopping | StateFailed

fun state_name :: "slot_state \<Rightarrow> string" where
  "state_name StateEmpty = ''empty''"
| "state_name StateStarting = ''starting''"
| "state_name StateIdle = ''idle''"
| "state_name StateBusy = ''busy''"
| "state_name StateStopping = ''stopping''"
| "state_name StateFailed = ''failed''"

definition live :: "slot_state \<Rightarrow> bool" where
  "live s \<longleftrightarrow> s = StateStarting \<or> s = StateIdle \<or> s = StateBusy"

lemma live_simps [simp]:
  "live StateStarting" "live StateIdle" "live StateBusy"
  "\<not> live StateEmpty" "\<not> live StateStopping" "\<not> live StateFailed"
  by (simp_all add: live_def)

datatype event =
  EventStarted | EventExited | EventStopped | EventAcquireFailure | EventAdmissionHold

record usage =
  u_cpu_seconds :: float64
  u_peak_mem :: u64
  u_current_mem :: u64

definition zero_usage :: usage where
  "zero_usage = \<lparr>u_cpu_seconds = 0, u_peak_mem = 0, u_current_mem = 0\<rparr>"

record claim_job =
  cj_runner_name :: string
  cj_workflow_ref :: string
  cj_run_id :: int
  cj_queue_wait :: float64

record completion =
  co_id :: slot_id
  co_runner_name :: string
  co_workflow_ref :: string
  co_run_id :: int
  co_result :: string
  co_cpu_seconds :: float64
  co_peak_mem :: u64
  co_wall_seconds :: float64
  co_queue_wait :: float64
  co_sampled :: bool

record slot =
  s_pool :: string
  s_id :: slot_id
  s_dir :: string
  s_unit :: string
  s_runner_name :: string
  s_workflow_ref :: string
  s_run_id :: int
  s_state :: slot_state
  s_started_at :: time
  s_jit_path :: string
  s_current_mem :: u64
  s_reserved_cores :: float64
  s_reserved_mem :: u64

definition zero_slot :: slot where
  "zero_slot = \<lparr>s_pool = [], s_id = [], s_dir = [], s_unit = [], s_runner_name = [],
     s_workflow_ref = [], s_run_id = 0, s_state = StateEmpty, s_started_at = 0, s_jit_path = [],
     s_current_mem = 0, s_reserved_cores = 0, s_reserved_mem = 0\<rparr>"

text \<open>The \<open>cleanDone\<close> channel: nil, open, or closed.\<close>

datatype chan = NilChan | OpenChan | ClosedChan

record slot_rec = slot +
  r_busy_since :: time
  r_prov_start :: time
  r_claimed :: bool
  r_result :: string
  r_queue_wait :: float64
  r_claim_at :: time
  r_usage_at_claim :: usage
  r_last_usage :: usage
  r_sampled_ok :: bool
  r_cleaning :: bool
  r_cleanup_pending :: bool
  r_exit_event :: "event option"
  r_completion_sent :: bool
  r_clean_done :: chan

text \<open>\<open>&slotRec{Slot: s, provStart: t}\<close>: every other field has its zero value.\<close>

definition new_slot_rec :: "slot \<Rightarrow> time \<Rightarrow> slot_rec" where
  "new_slot_rec s prov = slot.extend s
     \<lparr>r_busy_since = 0, r_prov_start = prov, r_claimed = False, r_result = [], r_queue_wait = 0,
      r_claim_at = 0, r_usage_at_claim = zero_usage, r_last_usage = zero_usage,
      r_sampled_ok = False, r_cleaning = False, r_cleanup_pending = False, r_exit_event = None,
      r_completion_sent = False, r_clean_done = NilChan\<rparr>"

declare zero_usage_def [eval_simps] zero_slot_def [eval_simps] new_slot_rec_def [eval_simps]
  slot.defs [eval_simps]

lemma new_slot_rec_sel [simp]:
  "s_pool (new_slot_rec s p) = s_pool s" "s_id (new_slot_rec s p) = s_id s"
  "s_dir (new_slot_rec s p) = s_dir s" "s_unit (new_slot_rec s p) = s_unit s"
  "s_runner_name (new_slot_rec s p) = s_runner_name s"
  "s_workflow_ref (new_slot_rec s p) = s_workflow_ref s" "s_run_id (new_slot_rec s p) = s_run_id s"
  "s_state (new_slot_rec s p) = s_state s" "s_started_at (new_slot_rec s p) = s_started_at s"
  "r_busy_since (new_slot_rec s p) = 0" "r_prov_start (new_slot_rec s p) = p"
  "\<not> r_claimed (new_slot_rec s p)" "r_exit_event (new_slot_rec s p) = None"
  "\<not> r_cleaning (new_slot_rec s p)" "\<not> r_cleanup_pending (new_slot_rec s p)"
  "\<not> r_completion_sent (new_slot_rec s p)"
  by (simp_all add: new_slot_rec_def slot.defs)

section \<open>Slot identifiers and unit names\<close>

definition max_slot_id :: nat where "max_slot_id = 9999"

definition valid_id :: "slot_id \<Rightarrow> bool" where
  "valid_id s \<longleftrightarrow>
     length s = 4 \<and> list_all is_digit s \<and> 1 \<le> decimal_value s \<and> decimal_value s \<le> max_slot_id"

definition unit_name :: "string \<Rightarrow> slot_id \<Rightarrow> string" where
  "unit_name namespace sid = ''tentacle-'' @ namespace @ ''-'' @ sid @ ''.service''"

definition id_from_unit :: "string \<Rightarrow> string \<Rightarrow> slot_id option" where
  "id_from_unit namespace unit =
     (let prefix = ''tentacle-'' @ namespace @ ''-''; suffix = ''.service''
      in if \<not> has_prefix unit prefix \<or> \<not> has_suffix unit suffix then None
         else let sid = trim_suffix (trim_prefix unit prefix) suffix
              in if valid_id sid then Some sid else None)"

lemma valid_id_fmt_04d: "valid_id (fmt_04d n) \<longleftrightarrow> 1 \<le> n \<and> n \<le> max_slot_id"
  by (auto simp: valid_id_def length_fmt_04d max_slot_id_def list_all_iff fmt_04d_digits)

lemma unit_name_inj: "unit_name ns i = unit_name ns j \<longleftrightarrow> i = j"
  by (simp add: unit_name_def)

lemma id_from_unit_name: "id_from_unit ns (unit_name ns i) = (if valid_id i then Some i else None)"
proof -
  have u: "unit_name ns i = (''tentacle-'' @ ns @ ''-'') @ i @ ''.service''"
    by (simp add: unit_name_def)
  have "has_suffix (unit_name ns i) ''.service''"
    unfolding has_suffix_iff by (rule exI [of _ "''tentacle-'' @ ns @ ''-'' @ i"]) (simp add: unit_name_def)
  then show ?thesis unfolding id_from_unit_def u by (simp only: Let_def has_prefix_append trim_prefix_append) simp
qed

lemma id_from_unit_Some: "id_from_unit ns u = Some i \<Longrightarrow> valid_id i \<and> u = unit_name ns i"
proof -
  assume a: "id_from_unit ns u = Some i"
  let ?p = "''tentacle-'' @ ns @ ''-''"
  from a have hp: "has_prefix u ?p" and hs: "has_suffix u ''.service''"
    and v: "valid_id i" and i: "i = trim_suffix (trim_prefix u ?p) ''.service''"
    by (auto simp: id_from_unit_def Let_def split: if_splits)
  from hp obtain t where u: "u = ?p @ t" by (auto simp: has_prefix_iff)
  have i': "i = trim_suffix t ''.service''" unfolding i u trim_prefix_append ..
  show "valid_id i \<and> u = unit_name ns i"
  proof (cases "has_suffix t ''.service''")
    case True
    then obtain w where "t = w @ ''.service''" by (auto simp: has_suffix_iff)
    with i' v u show ?thesis by (simp only: trim_suffix_append) (simp add: unit_name_def)
  next
    case False
    with i' have "i = t" by (simp add: trim_suffix_def)
    with v have "length t = 4" and d: "list_all is_digit t" by (auto simp: valid_id_def)
    then have "t \<noteq> []" and "last u = last t" using u by auto
    moreover from hs have "last u = CHR ''e''" by (auto simp: has_suffix_iff)
    ultimately have "CHR ''e'' \<in> set t" by (metis last_in_set)
    with d have False by (auto simp: list_all_iff is_digit_def less_eq_char_def)
    then show ?thesis ..
  qed
qed

end
