(* ===== verification/Slot_Table.thy ===== *)
theory Slot_Table
  imports Slot_Types
begin

text \<open>
  The state of \<open>slot.Table\<close> (\<open>manager.go\<close>) and its critical sections, each the code between one
  \<open>mu.Lock\<close> and the matching \<open>Unlock\<close>. A \<open>*slotRec\<close> is an address into an explicit heap, so a
  goroutine's pointer stays valid after its record has left the table and the comparisons
  \<open>t.slots[id] == rec\<close> mean what they do in Go. The table carries, beside the struct's fields,
  what the goroutines and the host keep for it: the clock, the watch goroutines, the running
  cleanup workers with their snapshots, the slot directories on disk, and the calls made to the
  outside, oldest first.
\<close>

type_synonym ptr = nat

record table_options =
  o_namespace :: string
  o_acquire_grace :: duration
  o_idle_grace :: duration
  o_stop_timeout :: duration
  o_cleanup_timeout :: duration
  o_start_timeout :: duration
  o_sample_interval :: duration
  o_env_file :: string
  o_user :: string
  o_group :: string
  o_cpu_quota :: string
  o_memory_max :: string
  o_work_dir :: string
  o_event_hook :: bool
  o_completion_hook :: bool
  o_start_observer :: bool
  o_diag_hook :: bool
  o_diag_context :: bool

text \<open>\<open>runner.Spec\<close>, the argument of \<open>Backend.Start\<close>.\<close>

record runner_spec =
  sp_slot_dir :: string
  sp_jit_path :: string
  sp_env_file :: string
  sp_user :: string
  sp_group :: string
  sp_cpu_quota :: string
  sp_memory_max :: string
  sp_unit_name :: string

text \<open>How a launch ends: a unit runs, \<open>runner.ErrNotStarted\<close>, or any other error, which leaves it open.\<close>

datatype start_result = StartOk | StartNotStarted | StartUncertain

text \<open>Calls that leave the table: hooks, backend calls and file removals.\<close>

datatype effect =
  EmitEvent event slot
| CompletionHook ptr completion
| StartObserved duration
| BackendStart ptr runner_spec
| BackendStop "ptr option" string
| DiagHook slot
| UnlinkCredentials string
| RemoveJit string
| RemoveAll string

record table =
  t_root :: string
  t_jit_dir :: string
  t_opts :: table_options
  t_slots :: "(slot_id \<times> ptr) list"
  t_heap :: "ptr \<Rightarrow> slot_rec"
  t_next :: ptr
  t_desired :: int
  t_closed :: bool
  t_now :: time
  t_watch :: "ptr list"
  t_workers :: "(ptr \<times> slot) list"
  t_dirs :: "string list"
  t_out :: "effect list"

section \<open>Options and construction\<close>

definition default_options :: table_options where
  "default_options = \<lparr>o_namespace = ''default'', o_acquire_grace = 3 * minute,
     o_idle_grace = 30 * second, o_stop_timeout = 30 * second, o_cleanup_timeout = 60 * second,
     o_start_timeout = 90 * second, o_sample_interval = 30 * second, o_env_file = [],
     o_user = [], o_group = [], o_cpu_quota = [], o_memory_max = [], o_work_dir = ''_work'',
     o_event_hook = False, o_completion_hook = False, o_start_observer = False,
     o_diag_hook = False, o_diag_context = False\<rparr>"

text \<open>The \<open>TableOption\<close> values \<open>With...\<close> return, as data; \<open>set_option\<close> applies one. A hook is
  represented by whether it is set: what it answers is an argument of the operation that calls it.
  For the same reason the options that only supply such answers (start gate, reservation,
  materializer, usage sampler, pause check) are fields of \<open>start_env\<close> and the sampler step, not
  constructors here.\<close>

datatype table_option =
  WithNamespace string
| WithAcquireGrace duration
| WithIdleGrace duration
| WithStopTimeout duration
| WithCleanupTimeout duration
| WithStartTimeout duration
| WithStartObserver bool
| WithDiagHook bool
| WithDiagContext bool
| WithEventHook bool
| WithEnvFile string
| WithRunUser string string
| WithLimits string string
| WithWorkDir string
| WithSampleInterval duration
| WithCompletionHook bool

fun set_option :: "table_option \<Rightarrow> table_options \<Rightarrow> table_options" where
  "set_option (WithNamespace n) opt = opt\<lparr>o_namespace := n\<rparr>"
| "set_option (WithAcquireGrace d) opt = opt\<lparr>o_acquire_grace := d\<rparr>"
| "set_option (WithIdleGrace d) opt = opt\<lparr>o_idle_grace := d\<rparr>"
| "set_option (WithStopTimeout d) opt = opt\<lparr>o_stop_timeout := d\<rparr>"
| "set_option (WithCleanupTimeout d) opt = opt\<lparr>o_cleanup_timeout := d\<rparr>"
| "set_option (WithStartTimeout d) opt = opt\<lparr>o_start_timeout := d\<rparr>"
| "set_option (WithStartObserver f) opt = opt\<lparr>o_start_observer := f\<rparr>"
| "set_option (WithDiagHook f) opt = opt\<lparr>o_diag_hook := f\<rparr>"
| "set_option (WithDiagContext f) opt = opt\<lparr>o_diag_context := f\<rparr>"
| "set_option (WithEventHook f) opt = opt\<lparr>o_event_hook := f\<rparr>"
| "set_option (WithEnvFile f) opt = opt\<lparr>o_env_file := f\<rparr>"
| "set_option (WithRunUser u g) opt = opt\<lparr>o_user := u, o_group := g\<rparr>"
| "set_option (WithLimits c m) opt = opt\<lparr>o_cpu_quota := c, o_memory_max := m\<rparr>"
| "set_option (WithWorkDir d) opt = opt\<lparr>o_work_dir := d\<rparr>"
| "set_option (WithSampleInterval d) opt = opt\<lparr>o_sample_interval := d\<rparr>"
| "set_option (WithCompletionHook f) opt = opt\<lparr>o_completion_hook := f\<rparr>"

text \<open>\<open>NewTable\<close>: the options are applied in order over the defaults, the last one wins; a nil
  option is skipped; a non-positive sample interval falls back to the default.\<close>

definition apply_options :: "table_option option list \<Rightarrow> table_options" where
  "apply_options opts =
     (let opt = foldl (\<lambda>o1 f. case f of None \<Rightarrow> o1 | Some g \<Rightarrow> set_option g o1) default_options opts
      in if o_sample_interval opt \<le> 0 then opt\<lparr>o_sample_interval := 30 * second\<rparr> else opt)"

definition new_table ::
  "string \<Rightarrow> string \<Rightarrow> table_option option list \<Rightarrow> time \<Rightarrow> string list \<Rightarrow> table" where
  "new_table rootdir jit_dir opts start dirs =
     \<lparr>t_root = rootdir, t_jit_dir = jit_dir, t_opts = apply_options opts, t_slots = [],
      t_heap = (\<lambda>_. new_slot_rec zero_slot 0), t_next = 0, t_desired = 0, t_closed = False,
      t_now = start, t_watch = [], t_workers = [], t_dirs = dirs, t_out = []\<rparr>"

declare default_options_def [eval_simps] apply_options_def [eval_simps] new_table_def [eval_simps]

section \<open>Records, effects and views\<close>

definition upd_rec :: "ptr \<Rightarrow> (slot_rec \<Rightarrow> slot_rec) \<Rightarrow> table \<Rightarrow> table" where
  "upd_rec p f t = t\<lparr>t_heap := (t_heap t)(p := f (t_heap t p))\<rparr>"

definition perform :: "effect list \<Rightarrow> table \<Rightarrow> table" where
  "perform es t = t\<lparr>t_out := t_out t @ es\<rparr>"

text \<open>\<open>emit\<close>: the event hook is called when one is set.\<close>

definition emit :: "event \<Rightarrow> slot \<Rightarrow> table \<Rightarrow> table" where
  "emit ev s t = (if o_event_hook (t_opts t) then perform [EmitEvent ev s] t else t)"

definition state_of :: "table \<Rightarrow> ptr \<Rightarrow> slot_state" where
  "state_of t p = s_state (t_heap t p)"

definition count_live :: "table \<Rightarrow> nat" where
  "count_live t = length (filter (\<lambda>(i, p). live (state_of t p)) (t_slots t))"

text \<open>\<open>snapshotLocked\<close>: copies of the kept records, ordered by slot ID.\<close>

definition snapshot_locked :: "(slot_state \<Rightarrow> bool) \<Rightarrow> table \<Rightarrow> slot list" where
  "snapshot_locked keep t =
     sort_key s_id (map (\<lambda>(i, p). slot.truncate (t_heap t p))
       (filter (\<lambda>(i, p). keep (state_of t p)) (t_slots t)))"

definition active :: "table \<Rightarrow> slot list" where
  "active t = snapshot_locked live t"

definition snapshot :: "table \<Rightarrow> slot list" where
  "snapshot t = snapshot_locked (\<lambda>_. True) t"

definition work_dir :: "table \<Rightarrow> slot_id \<Rightarrow> string" where
  "work_dir t i = join_path [t_root t, i, o_work_dir (t_opts t)]"

definition slot_dir :: "table \<Rightarrow> slot_id \<Rightarrow> string" where
  "slot_dir t i = join_path [t_root t, i]"

definition jit_path :: "table \<Rightarrow> slot_id \<Rightarrow> string" where
  "jit_path t i = join_path [t_jit_dir t, i @ ''.jit'']"

definition set_desired :: "int \<Rightarrow> table \<Rightarrow> table" where
  "set_desired n t = t\<lparr>t_desired := n\<rparr>"

definition close_table :: "table \<Rightarrow> table" where
  "close_table t = (if t_closed t then t else t\<lparr>t_closed := True\<rparr>)"

text \<open>\<open>nextIDLocked\<close>: the lowest unused identifier.\<close>

function next_id_from :: "nat \<Rightarrow> (slot_id \<times> ptr) list \<Rightarrow> slot_id option" where
  "next_id_from n slots =
     (if n > max_slot_id then None
      else if map_of slots (fmt_04d n) = None then Some (fmt_04d n)
      else next_id_from (Suc n) slots)"
  by pat_completeness auto
termination
  by (relation "measure (\<lambda>(n, _). Suc max_slot_id - n)") auto

declare next_id_from.simps [simp del]

definition next_id :: "table \<Rightarrow> slot_id option" where
  "next_id t = next_id_from 1 (t_slots t)"

declare upd_rec_def [eval_simps] perform_def [eval_simps] emit_def [eval_simps]
  state_of_def [eval_simps] count_live_def [eval_simps] snapshot_locked_def [eval_simps]
  active_def [eval_simps] snapshot_def [eval_simps] set_desired_def [eval_simps]
  close_table_def [eval_simps] next_id_def [eval_simps]

section \<open>Job messages\<close>

definition mark_busy :: "slot_id \<Rightarrow> table \<Rightarrow> table" where
  "mark_busy i t =
     (case map_of (t_slots t) i of
        None \<Rightarrow> t
      | Some p \<Rightarrow>
          if state_of t p = StateStarting \<or> state_of t p = StateIdle
          then upd_rec p (\<lambda>r. r\<lparr>s_state := StateBusy, r_busy_since := t_now t\<rparr>) t
          else t)"

text \<open>\<open>Claim\<close>: the first record the range meets with this runner name decides.\<close>

definition claim_rec :: "claim_job \<Rightarrow> time \<Rightarrow> slot_rec \<Rightarrow> slot_rec" where
  "claim_rec job now r = r
     \<lparr>s_state := StateBusy, r_busy_since := now, s_workflow_ref := cj_workflow_ref job,
      s_run_id := cj_run_id job, r_claimed := True, r_claim_at := now,
      r_queue_wait := cj_queue_wait job, r_usage_at_claim := r_last_usage r\<rparr>"

definition claim :: "claim_job \<Rightarrow> table \<Rightarrow> bool \<times> table" where
  "claim job t =
     (case find (\<lambda>(i, p). s_runner_name (t_heap t p) = cj_runner_name job) (t_slots t) of
        None \<Rightarrow> (False, t)
      | Some (i, p) \<Rightarrow>
          (True,
           if state_of t p = StateStarting \<or> state_of t p = StateIdle \<or>
              (state_of t p = StateBusy \<and> \<not> r_claimed (t_heap t p))
           then upd_rec p (claim_rec job (t_now t)) t
           else t))"

definition mark_result :: "string \<Rightarrow> string \<Rightarrow> table \<Rightarrow> table" where
  "mark_result runner result t =
     (if result = [] then t
      else case find (\<lambda>(i, p). s_runner_name (t_heap t p) = runner \<and> live (state_of t p)) (t_slots t) of
        None \<Rightarrow> t
      | Some (i, p) \<Rightarrow> upd_rec p (\<lambda>r. r\<lparr>r_result := result\<rparr>) t)"

text \<open>One tick of \<open>sampleLoop\<close>: the busy and idle records whose usage is then read, and the store
  of one successful reading.\<close>

definition sample_targets :: "table \<Rightarrow> ptr list" where
  "sample_targets t =
     map snd (filter (\<lambda>(i, p). state_of t p = StateBusy \<or> state_of t p = StateIdle) (t_slots t))"

definition store_sample :: "ptr \<Rightarrow> usage \<Rightarrow> table \<Rightarrow> table" where
  "store_sample p u t =
     (if map_of (t_slots t) (s_id (t_heap t p)) = Some p \<and>
         \<not> r_cleaning (t_heap t p) \<and> \<not> r_cleanup_pending (t_heap t p)
      then upd_rec p (\<lambda>r. r\<lparr>r_last_usage := u, r_sampled_ok := True, s_current_mem := u_current_mem u\<rparr>) t
      else t)"

section \<open>Exit observation\<close>

definition quick_never_busy_exit :: "table \<Rightarrow> slot_rec \<Rightarrow> slot_state \<Rightarrow> bool" where
  "quick_never_busy_exit t r prev =
     (if o_acquire_grace (t_opts t) \<le> 0 then False
      else if prev = StateBusy \<or> r_busy_since r \<noteq> 0 then False
      else let start = (if s_started_at r = 0 then r_prov_start r else s_started_at r)
           in t_now t - start < o_acquire_grace (t_opts t))"

definition completion_of :: "table \<Rightarrow> slot_id \<Rightarrow> slot_rec \<Rightarrow> completion" where
  "completion_of t i r =
     \<lparr>co_id = i, co_runner_name = s_runner_name r, co_workflow_ref = s_workflow_ref r,
      co_run_id = s_run_id r, co_result = r_result r,
      co_cpu_seconds = max 0 (u_cpu_seconds (r_last_usage r) - u_cpu_seconds (r_usage_at_claim r)),
      co_peak_mem = u_peak_mem (r_last_usage r),
      co_wall_seconds = (if r_claim_at r = 0 then 0 else seconds_of (t_now t - r_claim_at r)),
      co_queue_wait = r_queue_wait r, co_sampled = r_sampled_ok r\<rparr>"

text \<open>The record as the critical section of \<open>observeExitContext\<close> leaves it before the
  acquire-failure report and the completion are taken off it.\<close>

definition exit_rec :: "table \<Rightarrow> slot_rec \<Rightarrow> slot_rec" where
  "exit_rec t r =
     (let prev = s_state r;
          r1 = r\<lparr>s_state := StateStopping, r_cleanup_pending := True, r_clean_done := OpenChan\<rparr>
      in if prev \<noteq> StateStopping
         then r1\<lparr>r_exit_event := Some (if quick_never_busy_exit t r1 prev
                                        then EventAcquireFailure else EventExited)\<rparr>
         else r1)"

text \<open>\<open>observeExitContext\<close> up to its call of \<open>clean\<close>; the record to clean is returned.\<close>

definition observe_exit ::
  "slot_id \<Rightarrow> ptr option \<Rightarrow> table \<Rightarrow> ptr option \<times> table" where
  "observe_exit i expected t =
     (case map_of (t_slots t) i of
        None \<Rightarrow> (None, t)
      | Some p \<Rightarrow>
          let r = t_heap t p in
          if (expected \<noteq> None \<and> expected \<noteq> Some p) \<or> r_cleaning r \<or> r_cleanup_pending r then (None, t)
          else if s_state r = StateEmpty \<or> s_state r = StateFailed then (None, t)
          else
            let r1 = exit_rec t r;
                failed = (r_exit_event r1 = Some EventAcquireFailure);
                snap = slot.truncate r1;
                r2 = (if failed then r1\<lparr>r_exit_event := None\<rparr> else r1);
                complete = r_claimed r2 \<and> \<not> r_completion_sent r2 \<and> o_completion_hook (t_opts t);
                r3 = (if complete then r2\<lparr>r_completion_sent := True\<rparr> else r2);
                t1 = upd_rec p (\<lambda>_. r3) t;
                t2 = (if failed then emit EventAcquireFailure snap t1 else t1);
                t3 = (if complete then perform [CompletionHook p (completion_of t i r2)] t2 else t2)
            in (Some p, t3))"

section \<open>Cleanup\<close>

text \<open>\<open>clean\<close>, its critical section: the record is claimed by a worker that gets a snapshot.\<close>

definition clean_begin :: "ptr \<Rightarrow> table \<Rightarrow> table" where
  "clean_begin p t =
     (let r = t_heap t p in
      if map_of (t_slots t) (s_id r) \<noteq> Some p \<or> r_cleaning r then t
      else
        let r1 = r\<lparr>r_cleaning := True,
                   r_clean_done := OpenChan,
                   r_cleanup_pending := True\<rparr>
        in (upd_rec p (\<lambda>_. r1) t)\<lparr>t_workers := t_workers t @ [(p, slot.truncate r1)]\<rparr>)"

text \<open>What one run of \<open>wipe\<close> meets: whether its context has ended at each of its three checks,
  and which of its calls fail.\<close>

record wipe_env =
  we_ctx1 :: bool
  we_ctx2 :: bool
  we_ctx3 :: bool
  we_jit_err :: bool
  we_remove_err :: bool

text \<open>\<open>wipe\<close>: the calls it makes in order and whether it succeeds. A diagnostic or credential
  error is only logged; a missing JIT file is no error.\<close>

definition wipe :: "wipe_env \<Rightarrow> table \<Rightarrow> slot \<Rightarrow> effect list \<times> bool" where
  "wipe we t snap =
     (if we_ctx1 we then ([], False)
      else
        let diag = (if o_diag_context (t_opts t) \<or> o_diag_hook (t_opts t) then [DiagHook snap] else []) in
        if we_ctx2 we then (diag, False)
        else
          let cred = diag @ [UnlinkCredentials (s_dir snap)];
              jit = (if t_jit_dir t \<noteq> [] then cred @ [RemoveJit (jit_path t (s_id snap))] else cred)
          in if t_jit_dir t \<noteq> [] \<and> we_jit_err we then (jit, False)
             else if we_ctx3 we then (jit, False)
             else (jit @ [RemoveAll (s_dir snap)], \<not> we_remove_err we))"

text \<open>The end of the worker: the ID is freed only after a successful wipe, then the pending exit
  event is reported. A failed record stays in the table, cleanup pending.\<close>

definition clean_end :: "ptr \<Rightarrow> wipe_env \<Rightarrow> table \<Rightarrow> table" where
  "clean_end p we t =
     (case map_of (t_workers t) p of
        None \<Rightarrow> t
      | Some snap \<Rightarrow>
          let (es, ok) = wipe we t snap;
              r = t_heap t p;
              t1 = perform es t;
              t2 = (if ok then t1\<lparr>t_dirs := removeAll (s_dir snap) (t_dirs t1)\<rparr> else t1);
              t3 = (if ok \<and> map_of (t_slots t) (s_id r) = Some p
                    then t2\<lparr>t_slots := del_key (s_id r) (t_slots t2)\<rparr> else t2);
              t4 = (upd_rec p (\<lambda>r. r\<lparr>r_cleaning := False, r_clean_done := ClosedChan\<rparr>) t3)
                     \<lparr>t_workers := del_key p (t_workers t3)\<rparr>
          in (case r_exit_event r of
                Some ev \<Rightarrow> if ok then emit ev snap t4 else t4
              | None \<Rightarrow> t4))"

declare mark_busy_def [eval_simps] claim_rec_def [eval_simps] claim_def [eval_simps]
  mark_result_def [eval_simps] store_sample_def [eval_simps] quick_never_busy_exit_def [eval_simps]
  completion_of_def [eval_simps] exit_rec_def [eval_simps] observe_exit_def [eval_simps]
  clean_begin_def [eval_simps] wipe_def [eval_simps] clean_end_def [eval_simps]
  slot_dir_def [eval_simps] jit_path_def [eval_simps] seconds_of_def [eval_simps]

section \<open>Asynchronous steps\<close>

text \<open>
  What other goroutines may do to the table whenever the mutex is free: listener messages, the
  usage sampler, a watch goroutine that confirms an exit, the exported \<open>ObserveExit\<close>, the call of
  \<open>clean\<close> that follows an exit, the end of a cleanup worker, closing, the passing of time, and a
  new iteration order for the next range over the map.

  \<open>ObserveExit\<close> takes no semaphore and may meet any slot. As its comment says, it records the exit
  of a runner process, so the step below is taken for a slot whose launch has ended, which is when
  a watch of the record is pending. What the code does when it is called for a slot whose launch is
  still in flight is proved apart, after the invariant, since the invariant does not survive it.
  \<open>Adopt\<close> takes no semaphore either; the daemon calls it once per table, before anything else runs.
\<close>

datatype async =
  ASetDesired int
| AMarkBusy slot_id
| AClaim claim_job
| AMarkResult string string
| ASample ptr usage
| AExit ptr
| AObserveExit slot_id
| ACleanBegin ptr
| ACleanEnd ptr wipe_env
| AClose
| ATick duration
| AReorder "(slot_id \<times> ptr) list"

definition watch_exit :: "ptr \<Rightarrow> table \<Rightarrow> table" where
  "watch_exit p t =
     (if t_closed t \<or> p \<notin> set (t_watch t) then t
      else let t1 = t\<lparr>t_watch := removeAll p (t_watch t)\<rparr>
           in snd (observe_exit (s_id (t_heap t p)) (Some p) t1))"

definition observe_launched :: "slot_id \<Rightarrow> table \<Rightarrow> table" where
  "observe_launched i t =
     (case map_of (t_slots t) i of
        None \<Rightarrow> t
      | Some p \<Rightarrow> if p \<in> set (t_watch t) then snd (observe_exit i None t) else t)"

text \<open>For a slot of the table it makes no difference whether the caller names the record.\<close>

lemma observe_exit_named:
  "map_of (t_slots t) i = Some p \<Longrightarrow> observe_exit i None t = observe_exit i (Some p) t"
  by (simp add: observe_exit_def)

fun act :: "async \<Rightarrow> table \<Rightarrow> table" where
  "act (ASetDesired n) t = set_desired n t"
| "act (AMarkBusy i) t = mark_busy i t"
| "act (AClaim job) t = snd (claim job t)"
| "act (AMarkResult runner result) t = mark_result runner result t"
| "act (ASample p u) t = store_sample p u t"
| "act (AExit p) t = watch_exit p t"
| "act (AObserveExit i) t = observe_launched i t"
| "act (ACleanBegin p) t = (if r_cleanup_pending (t_heap t p) then clean_begin p t else t)"
| "act (ACleanEnd p we) t = clean_end p we t"
| "act AClose t = close_table t"
| "act (ATick d) t = (if 0 \<le> d then t\<lparr>t_now := t_now t + d\<rparr> else t)"
| "act (AReorder xs) t =
     (if distinct xs \<and> set xs = set (t_slots t) then t\<lparr>t_slots := xs\<rparr> else t)"

definition run :: "async list \<Rightarrow> table \<Rightarrow> table" where
  "run as t = foldl (\<lambda>t a. act a t) t as"

lemma run_Nil [simp]: "run [] t = t"
  by (simp add: run_def)

lemma run_Cons [simp]: "run (a # as) t = run as (act a t)"
  by (simp add: run_def)

declare watch_exit_def [eval_simps] observe_launched_def [eval_simps]

end
