(* ===== verification/Slot_Handlers.thy ===== *)
theory Slot_Handlers
  imports Slot_Table
begin

text \<open>
  The handlers of \<open>slot.Table\<close> that release the mutex while they work: \<open>startOne\<close>, \<open>Ensure\<close>,
  \<open>Shutdown\<close>, \<open>stopSurplusContext\<close>, \<open>retryCleanup\<close>, \<open>ObserveExit\<close>, \<open>watch\<close> and \<open>Adopt\<close>. Each takes an
  environment that says how every outside call it makes ends (file system, JIT minting, backend,
  contexts) and what the other goroutines do, as a list of asynchronous steps, at each point where
  the mutex is free. The semaphore \<open>ops\<close> lets one \<open>Ensure\<close> or \<open>Shutdown\<close> run at a time, so these two
  follow one another and never overlap. \<open>Adopt\<close> and \<open>ObserveExit\<close> take no semaphore. The daemon calls
  \<open>Adopt\<close> once per table, at boot, before anything else runs; here it is a handler that follows or
  precedes the others. \<open>ObserveExit\<close> is a handler and also an asynchronous step (\<open>observe_launched\<close>)
  that may fall into any other handler, for slots whose launch has ended.
\<close>

section \<open>Cleaning from a handler\<close>

text \<open>\<open>clean\<close>: claim the record, then wait for the worker or for the cleanup deadline. The worker's
  end is one of the steps that happen meanwhile; when it is not among them, the deadline passed
  first and the worker still owns the record.\<close>

definition clean :: "ptr \<Rightarrow> async list \<Rightarrow> table \<Rightarrow> table" where
  "clean p during t = run during (clean_begin p t)"

text \<open>\<open>waitCleanup\<close>: nothing but waiting.\<close>

definition wait_cleanup :: "ptr \<Rightarrow> async list \<Rightarrow> table \<Rightarrow> table" where
  "wait_cleanup p during t = (if r_clean_done (t_heap t p) = NilChan then t else run during t)"

text \<open>\<open>observeExitContext\<close> complete, and the exported \<open>ObserveExit\<close>.\<close>

definition observe_exit_context ::
  "slot_id \<Rightarrow> ptr option \<Rightarrow> async list \<Rightarrow> async list \<Rightarrow> table \<Rightarrow> table" where
  "observe_exit_context i expected between during t =
     (case observe_exit i expected t of
        (None, t1) \<Rightarrow> t1
      | (Some p, t1) \<Rightarrow> clean p during (run between t1))"

definition observe_exit_api :: "slot_id \<Rightarrow> async list \<Rightarrow> async list \<Rightarrow> table \<Rightarrow> table" where
  "observe_exit_api i between during t = observe_exit_context i None between during t"

text \<open>\<open>retryCleanup\<close>: one entry of the list per record cleaned before the context ends.\<close>

fun retry_loop :: "ptr list \<Rightarrow> async list list \<Rightarrow> table \<Rightarrow> table" where
  "retry_loop (p # ps) (during # rest) t = retry_loop ps rest (clean p during t)"
| "retry_loop _ _ t = t"

definition pending_cleanups :: "table \<Rightarrow> ptr list" where
  "pending_cleanups t =
     map snd (filter (\<lambda>(i, p). r_cleanup_pending (t_heap t p) \<and> \<not> r_cleaning (t_heap t p)) (t_slots t))"

definition retry_cleanup :: "async list list \<Rightarrow> table \<Rightarrow> table" where
  "retry_cleanup ticks t = retry_loop (pending_cleanups t) ticks t"

section \<open>Starting a slot\<close>

record start_env =
  se_allowed :: bool
  se_gate :: "slot list \<Rightarrow> bool"
  se_reservation :: "(float64 \<times> u64) option"
  se_mkdir_err :: bool
  se_materialize_err :: bool
  se_jit :: "string option"
  se_write_err :: bool
  se_start :: start_result
  se_gated :: "async list"
  se_reserved :: "async list"
  se_provision :: "async list"
  se_launch :: "async list"
  se_cleaning :: "async list"

definition candidate_slot :: "start_env \<Rightarrow> table \<Rightarrow> slot_id \<Rightarrow> slot" where
  "candidate_slot se t i = zero_slot
     \<lparr>s_pool := o_namespace (t_opts t), s_id := i, s_dir := slot_dir t i,
      s_unit := unit_name (o_namespace (t_opts t)) i, s_state := StateStarting,
      s_reserved_cores := (case se_reservation se of None \<Rightarrow> 0 | Some (c, m) \<Rightarrow> c),
      s_reserved_mem := (case se_reservation se of None \<Rightarrow> 0 | Some (c, m) \<Rightarrow> m)\<rparr>"

text \<open>\<open>t.slots[id] = rec\<close> with a fresh record.\<close>

definition add_rec :: "slot_rec \<Rightarrow> table \<Rightarrow> table" where
  "add_rec r t =
     t\<lparr>t_heap := (t_heap t)(t_next t := r), t_next := Suc (t_next t),
       t_slots := put_key (s_id r) (t_next t) (t_slots t)\<rparr>"

definition start_fail :: "ptr \<Rightarrow> start_env \<Rightarrow> table \<Rightarrow> table" where
  "start_fail p se t =
     (let t1 = upd_rec p (\<lambda>r. r\<lparr>s_state := StateStopping\<rparr>) t;
          t2 = emit EventAcquireFailure (slot.truncate (t_heap t1 p)) t1
      in clean p (se_cleaning se) t2)"

definition spec_of :: "table \<Rightarrow> ptr \<Rightarrow> runner_spec" where
  "spec_of t p =
     \<lparr>sp_slot_dir = s_dir (t_heap t p), sp_jit_path = s_jit_path (t_heap t p),
      sp_env_file = o_env_file (t_opts t), sp_user = o_user (t_opts t),
      sp_group = o_group (t_opts t), sp_cpu_quota = o_cpu_quota (t_opts t),
      sp_memory_max = o_memory_max (t_opts t), sp_unit_name = s_unit (t_heap t p)\<rparr>"

text \<open>The launch: from the minted runner name to the outcome of \<open>Backend.Start\<close>.\<close>

definition launch :: "ptr \<Rightarrow> time \<Rightarrow> string \<Rightarrow> start_env \<Rightarrow> table \<Rightarrow> slot_id option \<times> table" where
  "launch p t0 name se t =
     (let t1 = upd_rec p (\<lambda>r. r\<lparr>s_runner_name := name, s_jit_path := jit_path t (s_id r)\<rparr>) t;
          spec = spec_of t1 p;
          t2 = run (se_launch se) t1
      in if se_write_err se then (None, start_fail p se t2)
         else
           let t3 = perform [BackendStart p spec] t2 in
           case se_start se of
             StartNotStarted \<Rightarrow> (None, start_fail p se t3)
           | StartUncertain \<Rightarrow>
               let t4 = upd_rec p (\<lambda>r. r\<lparr>s_state := StateBusy\<rparr>) t3;
                   t5 = emit EventAcquireFailure (slot.truncate (t_heap t4 p)) t4
               in (None, t5\<lparr>t_watch := p # t_watch t5\<rparr>)
           | StartOk \<Rightarrow>
               let t4 = upd_rec p (\<lambda>r. r\<lparr>s_started_at := t_now t3,
                          s_state := (if s_state r = StateStarting then StateIdle else s_state r)\<rparr>) t3;
                   t5 = emit EventStarted (slot.truncate (t_heap t4 p)) t4;
                   t6 = (if o_start_observer (t_opts t5)
                         then perform [StartObserved (t_now t5 - t0)] t5 else t5)
               in (Some (s_id (t_heap t6 p)), t6\<lparr>t_watch := p # t_watch t6\<rparr>))"

text \<open>\<open>startOne\<close>: \<open>None\<close> is the empty ID, no slot was started.\<close>

definition start_one :: "start_env \<Rightarrow> table \<Rightarrow> slot_id option \<times> table" where
  "start_one se t =
     (if \<not> se_allowed se then (None, t)
      else if \<not> se_gate se (active t)
        then (None, emit EventAdmissionHold (zero_slot\<lparr>s_state := StateStarting\<rparr>) t)
      else
        let t1 = run (se_gated se) t in
        if t_closed t1 then (None, t1)
        else case next_id t1 of
          None \<Rightarrow> (None, t1)
        | Some i \<Rightarrow>
            let p = t_next t1;
                t0 = t_now t1;
                t2 = add_rec (new_slot_rec (candidate_slot se t1 i) t0) t1;
                t3 = run (se_reserved se) t2;
                dir = s_dir (t_heap t3 p)
            in if se_mkdir_err se \<or> dir \<in> set (t_dirs t3) then
                 (let t4 = t3\<lparr>t_slots := del_key i (t_slots t3)\<rparr>
                  in (None, emit EventAcquireFailure (slot.truncate (t_heap t4 p)) t4))
               else
                 let t4 = run (se_provision se) (t3\<lparr>t_dirs := dir # t_dirs t3\<rparr>) in
                 if se_materialize_err se then (None, start_fail p se t4)
                 else case se_jit se of
                   None \<Rightarrow> (None, start_fail p se t4)
                 | Some name \<Rightarrow> launch p t0 name se t4)"

section \<open>Stopping surplus slots\<close>

text \<open>A slot may be stopped as surplus when it is idle past the idle grace (or the grace is
  bypassed), or still starting past the acquire grace.\<close>

definition eligible :: "bool \<Rightarrow> table \<Rightarrow> ptr \<Rightarrow> bool" where
  "eligible ignore_grace t p =
     (let r = t_heap t p in
      case s_state r of
        StateIdle \<Rightarrow>
          \<not> (\<not> ignore_grace \<and> o_idle_grace (t_opts t) > 0 \<and> s_started_at r \<noteq> 0 \<and>
             t_now t - s_started_at r \<le> o_idle_grace (t_opts t))
      | StateStarting \<Rightarrow>
          \<not> (o_acquire_grace (t_opts t) > 0 \<and> t_now t - r_prov_start r \<le> o_acquire_grace (t_opts t))
      | _ \<Rightarrow> False)"

text \<open>Oldest first, ties broken by ID, at most \<open>excess\<close> of them.\<close>

definition candidates :: "int \<Rightarrow> bool \<Rightarrow> table \<Rightarrow> ptr list" where
  "candidates desired ignore_grace t =
     (let excess = int (count_live t) - desired in
      if excess > 0 then
        take (nat excess)
          (sort_key (\<lambda>p. (s_started_at (t_heap t p), s_id (t_heap t p)))
             (filter (eligible ignore_grace t) (map snd (t_slots t))))
      else [])"

record stop_env =
  st_err :: bool
  st_stopping :: "async list"
  st_between :: "async list"
  st_cleaning :: "async list"
  st_waiting :: "async list"

text \<open>The outcome of \<open>Backend.Stop\<close> once the context has ended.\<close>

definition stop_cancelled :: stop_env where
  "stop_cancelled = \<lparr>st_err = True, st_stopping = [], st_between = [], st_cleaning = [], st_waiting = []\<rparr>"

definition stop_one :: "stop_env \<Rightarrow> ptr \<Rightarrow> slot \<Rightarrow> table \<Rightarrow> table" where
  "stop_one se p snap t =
     (let t1 = run (st_stopping se) (perform [BackendStop (Some p) (s_unit (t_heap t p))] t);
          r = t_heap t1 p
      in if st_err se then
           (if map_of (t_slots t1) (s_id r) = Some p \<and> s_state r = StateStopping \<and>
               \<not> r_cleanup_pending r \<and> \<not> r_cleaning r
            then upd_rec p (\<lambda>r. r\<lparr>s_state := s_state snap\<rparr>) t1
            else t1)
         else
           let t2 = emit EventStopped snap t1;
               t3 = observe_exit_context (s_id r) (Some p) (st_between se) (st_cleaning se) t2
           in wait_cleanup p (st_waiting se) t3)"

fun stop_loop :: "(ptr \<times> slot) list \<Rightarrow> stop_env list \<Rightarrow> table \<Rightarrow> table" where
  "stop_loop [] ses t = t"
| "stop_loop ((p, snap) # cs) [] t = stop_loop cs [] (stop_one stop_cancelled p snap t)"
| "stop_loop ((p, snap) # cs) (se # ses) t = stop_loop cs ses (stop_one se p snap t)"

definition mark_stopping :: "ptr list \<Rightarrow> table \<Rightarrow> table" where
  "mark_stopping ps t =
     t\<lparr>t_heap := (\<lambda>p. if p \<in> set ps then (t_heap t p)\<lparr>s_state := StateStopping\<rparr> else t_heap t p)\<rparr>"

definition stop_surplus :: "int \<Rightarrow> bool \<Rightarrow> stop_env list \<Rightarrow> table \<Rightarrow> table" where
  "stop_surplus desired ignore_grace ses t =
     (let ps = candidates desired ignore_grace t;
          cs = map (\<lambda>p. (p, slot.truncate (t_heap t p))) ps
      in stop_loop cs ses (mark_stopping ps t))"

section \<open>Ensure and Shutdown\<close>

text \<open>The start loop of \<open>Ensure\<close>: one entry of the list per iteration that begins before the
  context ends; \<open>True\<close> is a return of the context's error. Each entry also says what the other
  goroutines do before the iteration looks at the live count.\<close>

fun ensure_loop :: "int \<Rightarrow> (async list \<times> start_env) list \<Rightarrow> table \<Rightarrow> bool \<times> table" where
  "ensure_loop desired [] t =
     (if t_closed t \<or> int (count_live t) \<ge> desired then (False, t) else (True, t))"
| "ensure_loop desired ((as, se) # ses) t =
     (let t1 = run as t in
      if t_closed t1 \<or> int (count_live t1) \<ge> desired then (False, t1)
      else case start_one se t1 of
        (None, t2) \<Rightarrow> (False, t2)
      | (Some _, t2) \<Rightarrow> ensure_loop desired ses t2)"

record ensure_env =
  ee_acquired :: bool
  ee_cleanups :: "async list list"
  ee_starts :: "(async list \<times> start_env) list"
  ee_before_stop :: "async list"
  ee_stops :: "stop_env list"
  ee_ctx_err :: bool

text \<open>\<open>True\<close> is a returned context error.\<close>

definition ensure :: "int \<Rightarrow> ensure_env \<Rightarrow> table \<Rightarrow> bool \<times> table" where
  "ensure desired ee t =
     (if \<not> ee_acquired ee then (True, t)
      else
        let t1 = retry_cleanup (ee_cleanups ee) t;
            (err, t2) = ensure_loop desired (ee_starts ee) t1
        in if err then (True, t2)
           else (ee_ctx_err ee, stop_surplus desired False (ee_stops ee) (run (ee_before_stop ee) t2)))"

definition shutdown :: "ensure_env \<Rightarrow> table \<Rightarrow> bool \<times> table" where
  "shutdown ee t =
     (if \<not> ee_acquired ee then (True, t)
      else
        let t1 = retry_cleanup (ee_cleanups ee) t
        in (ee_ctx_err ee, stop_surplus 0 True (ee_stops ee) (run (ee_before_stop ee) t1)))"

declare clean_def [eval_simps] wait_cleanup_def [eval_simps] observe_exit_context_def [eval_simps]
  pending_cleanups_def [eval_simps] retry_cleanup_def [eval_simps] candidate_slot_def [eval_simps]
  add_rec_def [eval_simps] start_fail_def [eval_simps] spec_of_def [eval_simps]
  launch_def [eval_simps] start_one_def [eval_simps] eligible_def [eval_simps]
  candidates_def [eval_simps] stop_cancelled_def [eval_simps] stop_one_def [eval_simps]
  mark_stopping_def [eval_simps] stop_surplus_def [eval_simps] ensure_def [eval_simps]
  shutdown_def [eval_simps]

section \<open>Watching a unit\<close>

text \<open>\<open>watch\<close>: the results of successive \<open>Backend.Wait\<close> calls (\<open>True\<close> is a confirmed exit) until
  the table closes; the delays it sleeps between failed observations, and whether it hands the
  slot over at the end.\<close>

fun watch_delays :: "duration \<Rightarrow> bool list \<Rightarrow> duration list \<times> bool" where
  "watch_delays delay [] = ([], False)"
| "watch_delays delay (True # _) = ([], True)"
| "watch_delays delay (False # ws) =
     (let (ds, ok) = watch_delays (if delay < 5 * second then min (delay * 2) (5 * second) else delay) ws
      in (delay # ds, ok))"

definition watch :: "bool list \<Rightarrow> duration list \<times> bool" where
  "watch ws = watch_delays (100000000 * nanosecond) ws"

section \<open>Boot adoption\<close>

datatype lstat_result = LstatDir | LstatNotDir | LstatNotExist | LstatErr

text \<open>What \<open>Adopt\<close> meets: the sorted directory listing (name, is a directory; \<open>None\<close> a read error
  other than a missing root), the runner name each directory records, the \<open>Lstat\<close> and \<open>Stop\<close>
  results, the other goroutines' steps per entry, and how many of its context checks succeed.\<close>

record adopt_env =
  ae_entries :: "(string \<times> bool) list option"
  ae_runner_name :: "string \<Rightarrow> string"
  ae_lstat :: "string \<Rightarrow> lstat_result"
  ae_stop_err :: "string \<Rightarrow> bool"
  ae_during :: "slot_id \<Rightarrow> async list"

datatype adopt_error = AdoptCtx | AdoptReadDir | AdoptNotDir | AdoptBadUnitDir | AdoptLstat | AdoptStop

definition adopted_slot :: "adopt_env \<Rightarrow> table \<Rightarrow> slot_id \<Rightarrow> bool \<Rightarrow> slot" where
  "adopted_slot ae t i is_running = zero_slot
     \<lparr>s_pool := o_namespace (t_opts t), s_id := i, s_dir := slot_dir t i,
      s_unit := unit_name (o_namespace (t_opts t)) i,
      s_runner_name := ae_runner_name ae (slot_dir t i),
      s_state := (if is_running then StateBusy else StateStopping),
      s_started_at := (if is_running then t_now t else 0)\<rparr>"

definition adopt_running :: "adopt_env \<Rightarrow> slot_id \<Rightarrow> table \<Rightarrow> table" where
  "adopt_running ae i t =
     (let p = t_next t; t1 = add_rec (new_slot_rec (adopted_slot ae t i True) 0) t
      in t1\<lparr>t_watch := p # t_watch t1\<rparr>)"

definition adopt_orphan :: "adopt_env \<Rightarrow> slot_id \<Rightarrow> table \<Rightarrow> table" where
  "adopt_orphan ae i t =
     clean (t_next t) (ae_during ae i) (add_rec (new_slot_rec (adopted_slot ae t i False) 0) t)"

text \<open>The two loops of \<open>Adopt\<close>. \<open>n\<close> counts the context checks that still succeed.\<close>

fun adopt_dirs :: "adopt_env \<Rightarrow> string list \<Rightarrow> nat \<Rightarrow> (string \<times> bool) list \<Rightarrow> table \<Rightarrow> (adopt_error + nat) \<times> table" where
  "adopt_dirs ae units n [] t = (Inr n, t)"
| "adopt_dirs ae units 0 (e # es) t = (Inl AdoptCtx, t)"
| "adopt_dirs ae units (Suc n) ((name, is_dir) # es) t =
     (if \<not> is_dir then
        (if valid_id name then (Inl AdoptNotDir, t) else adopt_dirs ae units n es t)
      else if \<not> valid_id name then adopt_dirs ae units n es t
      else if map_of (t_slots t) name \<noteq> None then adopt_dirs ae units n es t
      else if unit_name (o_namespace (t_opts t)) name \<in> set units
        then adopt_dirs ae units n es (adopt_running ae name t)
      else adopt_dirs ae units n es (adopt_orphan ae name t))"

fun adopt_units :: "adopt_env \<Rightarrow> nat \<Rightarrow> string list \<Rightarrow> table \<Rightarrow> (adopt_error + nat) \<times> table" where
  "adopt_units ae n [] t = (Inr n, t)"
| "adopt_units ae 0 (u # us) t = (Inl AdoptCtx, t)"
| "adopt_units ae (Suc n) (u # us) t =
     (case id_from_unit (o_namespace (t_opts t)) u of
        None \<Rightarrow> adopt_units ae n us t
      | Some i \<Rightarrow>
          if map_of (t_slots t) i \<noteq> None then adopt_units ae n us t
          else case ae_lstat ae (slot_dir t i) of
            LstatDir \<Rightarrow> adopt_units ae n us t
          | LstatNotDir \<Rightarrow> (Inl AdoptBadUnitDir, t)
          | LstatErr \<Rightarrow> (Inl AdoptLstat, t)
          | LstatNotExist \<Rightarrow>
              let t1 = perform [BackendStop None u] t in
              if ae_stop_err ae u then (Inl AdoptStop, t1)
              else adopt_units ae n us t1)"

definition adopt :: "adopt_env \<Rightarrow> string list \<Rightarrow> nat \<Rightarrow> table \<Rightarrow> adopt_error option \<times> table" where
  "adopt ae units n t =
     (if t_closed t then (None, t)
      else if n < length units then (Some AdoptCtx, t)
      else case ae_entries ae of
        None \<Rightarrow> (Some AdoptReadDir, t)
      | Some es \<Rightarrow>
          case adopt_dirs ae units (n - length units) es t of
            (Inl e, t1) \<Rightarrow> (Some e, t1)
          | (Inr m, t1) \<Rightarrow>
              case adopt_units ae m units t1 of
                (Inl e, t2) \<Rightarrow> (Some e, t2)
              | (Inr k, t2) \<Rightarrow> (if k = 0 then Some AdoptCtx else None, t2))"

declare adopted_slot_def [eval_simps] adopt_running_def [eval_simps] adopt_orphan_def [eval_simps]
  adopt_def [eval_simps]

end
