(* ===== verification/Slot_Invariant.thy ===== *)
theory Slot_Invariant
  imports Slot_Handlers
begin

text \<open>
  What the critical sections and asynchronous steps of the slot table keep: the table invariant
  \<open>table_inv\<close>, and the relation \<open>evolves\<close> every step makes hold between the table before it and
  the table after it.
\<close>

section \<open>Frame rules\<close>

lemma upd_rec_sel [simp]:
  "t_root (upd_rec p f t) = t_root t" "t_jit_dir (upd_rec p f t) = t_jit_dir t"
  "t_opts (upd_rec p f t) = t_opts t" "t_slots (upd_rec p f t) = t_slots t"
  "t_next (upd_rec p f t) = t_next t" "t_desired (upd_rec p f t) = t_desired t"
  "t_closed (upd_rec p f t) = t_closed t" "t_now (upd_rec p f t) = t_now t"
  "t_watch (upd_rec p f t) = t_watch t" "t_workers (upd_rec p f t) = t_workers t"
  "t_dirs (upd_rec p f t) = t_dirs t" "t_out (upd_rec p f t) = t_out t"
  "t_heap (upd_rec p f t) = (t_heap t)(p := f (t_heap t p))"
  by (simp_all add: upd_rec_def)

lemma perform_sel [simp]:
  "t_root (perform es t) = t_root t" "t_jit_dir (perform es t) = t_jit_dir t"
  "t_opts (perform es t) = t_opts t" "t_slots (perform es t) = t_slots t"
  "t_heap (perform es t) = t_heap t" "t_next (perform es t) = t_next t"
  "t_desired (perform es t) = t_desired t" "t_closed (perform es t) = t_closed t"
  "t_now (perform es t) = t_now t" "t_watch (perform es t) = t_watch t"
  "t_workers (perform es t) = t_workers t" "t_dirs (perform es t) = t_dirs t"
  "t_out (perform es t) = t_out t @ es"
  by (simp_all add: perform_def)

lemma emit_sel [simp]:
  "t_root (emit ev s t) = t_root t" "t_jit_dir (emit ev s t) = t_jit_dir t"
  "t_opts (emit ev s t) = t_opts t" "t_slots (emit ev s t) = t_slots t"
  "t_heap (emit ev s t) = t_heap t" "t_next (emit ev s t) = t_next t"
  "t_desired (emit ev s t) = t_desired t" "t_closed (emit ev s t) = t_closed t"
  "t_now (emit ev s t) = t_now t" "t_watch (emit ev s t) = t_watch t"
  "t_workers (emit ev s t) = t_workers t" "t_dirs (emit ev s t) = t_dirs t"
  "t_out (emit ev s t) = t_out t @ (if o_event_hook (t_opts t) then [EmitEvent ev s] else [])"
  by (simp_all add: emit_def)

lemma state_of_sel [simp]:
  "state_of (upd_rec p f t) q = (if q = p then s_state (f (t_heap t p)) else state_of t q)"
  "state_of (perform es t) q = state_of t q" "state_of (emit ev s t) q = state_of t q"
  by (simp_all add: state_of_def)

lemma count_live_frame [simp]:
  "count_live (perform es t) = count_live t" "count_live (emit ev s t) = count_live t"
  by (simp_all add: count_live_def)

section \<open>The invariant\<close>

text \<open>One record: a claimed record is busy or stopping, a record in cleanup is stopping, a cleanup
  in progress is pending, and a completion is reported for a claimed record that has exited.\<close>

definition rec_ok :: "slot_rec \<Rightarrow> bool" where
  "rec_ok r \<longleftrightarrow>
     s_state r \<noteq> StateEmpty \<and> s_state r \<noteq> StateFailed \<and>
     (r_claimed r \<longrightarrow> s_state r = StateBusy \<or> s_state r = StateStopping) \<and>
     (r_cleanup_pending r \<longrightarrow> s_state r = StateStopping) \<and>
     (r_cleaning r \<longrightarrow> r_cleanup_pending r) \<and>
     (r_completion_sent r \<longrightarrow> r_claimed r \<and> r_cleanup_pending r) \<and>
     (r_exit_event r = None \<or> r_exit_event r = Some EventExited \<and> r_cleanup_pending r)"

definition rec_names_ok :: "table \<Rightarrow> slot_rec \<Rightarrow> bool" where
  "rec_names_ok t r \<longleftrightarrow>
     valid_id (s_id r) \<and> s_pool r = o_namespace (t_opts t) \<and> s_dir r = slot_dir t (s_id r) \<and>
     s_unit r = unit_name (o_namespace (t_opts t)) (s_id r)"

definition slots_ok :: "table \<Rightarrow> bool" where
  "slots_ok t \<longleftrightarrow>
     distinct (map fst (t_slots t)) \<and> distinct (map snd (t_slots t)) \<and>
     (\<forall>(i, p) \<in> set (t_slots t). p < t_next t \<and> s_id (t_heap t p) = i)"

definition heap_ok :: "table \<Rightarrow> bool" where
  "heap_ok t \<longleftrightarrow> (\<forall>p < t_next t. rec_ok (t_heap t p) \<and> rec_names_ok t (t_heap t p))"

definition workers_ok :: "table \<Rightarrow> bool" where
  "workers_ok t \<longleftrightarrow>
     distinct (map fst (t_workers t)) \<and>
     (\<forall>p < t_next t. r_cleaning (t_heap t p) \<longrightarrow> p \<in> fst ` set (t_workers t)) \<and>
     (\<forall>(p, s) \<in> set (t_workers t). p < t_next t \<and> r_cleaning (t_heap t p) \<and>
        (s_id (t_heap t p), p) \<in> set (t_slots t) \<and>
        s_id s = s_id (t_heap t p) \<and> s_dir s = s_dir (t_heap t p))"

text \<open>The completions reported so far for one record.\<close>

definition completions_for :: "ptr \<Rightarrow> effect list \<Rightarrow> nat" where
  "completions_for p es = length (filter (\<lambda>e. case e of CompletionHook q c \<Rightarrow> q = p | _ \<Rightarrow> False) es)"

definition completions_ok :: "table \<Rightarrow> bool" where
  "completions_ok t \<longleftrightarrow>
     (\<forall>p. completions_for p (t_out t) = (if p < t_next t \<and> r_completion_sent (t_heap t p) then 1 else 0))"

definition watch_ok :: "table \<Rightarrow> bool" where
  "watch_ok t \<longleftrightarrow> (\<forall>p \<in> set (t_watch t). p < t_next t)"

definition table_inv :: "table \<Rightarrow> bool" where
  "table_inv t \<longleftrightarrow> slots_ok t \<and> heap_ok t \<and> workers_ok t \<and> completions_ok t \<and> watch_ok t"

lemma completions_for_append [simp]:
  "completions_for p (es @ fs) = completions_for p es + completions_for p fs"
  by (simp add: completions_for_def)

lemma completions_for_simps [simp]:
  "completions_for p [] = 0"
  "completions_for p (EmitEvent ev s # es) = completions_for p es"
  "completions_for p (StartObserved d # es) = completions_for p es"
  "completions_for p (BackendStart q sp # es) = completions_for p es"
  "completions_for p (BackendStop oq u # es) = completions_for p es"
  "completions_for p (DiagHook s # es) = completions_for p es"
  "completions_for p (UnlinkCredentials a # es) = completions_for p es"
  "completions_for p (RemoveJit a # es) = completions_for p es"
  "completions_for p (RemoveAll a # es) = completions_for p es"
  "completions_for p (CompletionHook q c # es) = (if q = p then 1 else 0) + completions_for p es"
  by (simp_all add: completions_for_def)

lemma completions_for_wipe [simp]: "completions_for p (fst (wipe we t s)) = 0"
  by (simp add: wipe_def Let_def)

section \<open>Looking a record up\<close>

lemma slots_ok_lookup:
  "slots_ok t \<Longrightarrow> (map_of (t_slots t) i = Some p) = ((i, p) \<in> set (t_slots t))"
  by (simp add: slots_ok_def map_of_distinct)

lemma slots_ok_ptr:
  "slots_ok t \<Longrightarrow> map_of (t_slots t) i = Some p \<Longrightarrow> p < t_next t \<and> s_id (t_heap t p) = i"
  by (auto simp: slots_ok_lookup) (auto simp: slots_ok_def)

lemma slots_ok_snd:
  "slots_ok t \<Longrightarrow> p \<in> snd ` set (t_slots t) \<Longrightarrow> (s_id (t_heap t p), p) \<in> set (t_slots t) \<and> p < t_next t"
  by (auto simp: slots_ok_def)

lemma find_SomeD: "find P xs = Some x \<Longrightarrow> x \<in> set xs \<and> P x"
  by (induction xs) (auto split: if_splits)

lemma length_filter_snd: "length (filter (\<lambda>(i, p). P p) xs) = length (filter P (map snd xs))"
  by (induction xs) auto

lemma count_live_alt: "count_live t = length (filter (\<lambda>p. live (state_of t p)) (map snd (t_slots t)))"
  by (simp add: count_live_def length_filter_snd)

lemma count_live_upd_rec:
  assumes "slots_ok t"
  shows "count_live (upd_rec p f t) + (if p \<in> snd ` set (t_slots t) \<and> live (state_of t p) then 1 else 0) =
    count_live t + (if p \<in> snd ` set (t_slots t) \<and> live (s_state (f (t_heap t p))) then 1 else 0)"
proof -
  have d: "distinct (map snd (t_slots t))" using assms by (simp add: slots_ok_def)
  show ?thesis
    using length_filter_one_change [OF d, of p "\<lambda>q. live (state_of (upd_rec p f t) q)"
        "\<lambda>q. live (state_of t q)"]
    by (simp add: count_live_alt)
qed

lemma count_live_upd_rec_le:
  "slots_ok t \<Longrightarrow> (live (s_state (f (t_heap t p))) \<Longrightarrow> live (state_of t p)) \<Longrightarrow>
   count_live (upd_rec p f t) \<le> count_live t"
  using count_live_upd_rec [of t p f] by (auto split: if_splits)

section \<open>Evolution of a record and of the table\<close>

definition rec_evolves :: "slot_rec \<Rightarrow> slot_rec \<Rightarrow> bool" where
  "rec_evolves r r' \<longleftrightarrow>
     s_id r' = s_id r \<and> s_unit r' = s_unit r \<and> s_dir r' = s_dir r \<and> s_pool r' = s_pool r \<and>
     r_prov_start r' = r_prov_start r \<and>
     (r_claimed r \<longrightarrow> r_claimed r') \<and> (r_completion_sent r \<longrightarrow> r_completion_sent r') \<and>
     (r_cleanup_pending r \<longrightarrow> r_cleanup_pending r' \<and> r_claimed r' = r_claimed r) \<and>
     (s_state r = StateBusy \<longrightarrow> s_state r' = StateBusy \<or> r_cleanup_pending r')"

text \<open>The records the table lists. One that left the table never comes back.\<close>

definition listed :: "table \<Rightarrow> ptr set" where
  "listed t = snd ` set (t_slots t)"

definition evolves :: "table \<Rightarrow> table \<Rightarrow> bool" where
  "evolves t t' \<longleftrightarrow>
     t_opts t' = t_opts t \<and> t_root t' = t_root t \<and> t_jit_dir t' = t_jit_dir t \<and>
     t_next t \<le> t_next t' \<and> t_now t \<le> t_now t' \<and> (t_closed t \<longrightarrow> t_closed t') \<and>
     (\<exists>es. t_out t' = t_out t @ es) \<and> (\<forall>p < t_next t. rec_evolves (t_heap t p) (t_heap t' p)) \<and>
     (\<forall>p < t_next t. p \<in> listed t' \<longrightarrow> p \<in> listed t)"

lemma listed_frame [simp]:
  "listed (upd_rec p f t) = listed t" "listed (perform es t) = listed t"
  "listed (emit ev s t) = listed t" "listed (t\<lparr>t_heap := h\<rparr>) = listed t"
  "listed (t\<lparr>t_next := n\<rparr>) = listed t" "listed (t\<lparr>t_watch := ws\<rparr>) = listed t"
  "listed (t\<lparr>t_workers := wk\<rparr>) = listed t" "listed (t\<lparr>t_dirs := ds\<rparr>) = listed t"
  "listed (t\<lparr>t_out := es'\<rparr>) = listed t" "listed (t\<lparr>t_desired := d\<rparr>) = listed t"
  "listed (t\<lparr>t_closed := b\<rparr>) = listed t" "listed (t\<lparr>t_now := m\<rparr>) = listed t"
  by (simp_all add: listed_def)

lemma rec_evolves_refl [simp]: "rec_evolves r r"
  by (simp add: rec_evolves_def)

lemma rec_evolves_trans: "rec_evolves r r' \<Longrightarrow> rec_evolves r' r'' \<Longrightarrow> rec_evolves r r''"
  by (auto simp: rec_evolves_def)

lemma evolves_refl [simp]: "evolves t t"
  by (simp add: evolves_def)

lemma evolves_trans: "evolves t t' \<Longrightarrow> evolves t' t'' \<Longrightarrow> evolves t t''"
  by (auto simp: evolves_def intro: rec_evolves_trans dest: less_le_trans)

lemma evolves_upd_rec:
  "(p < t_next t \<Longrightarrow> rec_evolves (t_heap t p) (f (t_heap t p))) \<Longrightarrow> evolves t (upd_rec p f t)"
  by (simp add: evolves_def)

lemma evolves_perform [simp]: "evolves t (perform es t)"
  by (simp add: evolves_def)

lemma evolves_emit [simp]: "evolves t (emit ev s t)"
  by (simp add: evolves_def)

text \<open>A change of the fields no record lives in.\<close>

lemma evolves_heap_same:
  "t_heap t' = t_heap t \<Longrightarrow> t_opts t' = t_opts t \<Longrightarrow> t_root t' = t_root t \<Longrightarrow>
   t_jit_dir t' = t_jit_dir t \<Longrightarrow> t_next t' = t_next t \<Longrightarrow> t_now t \<le> t_now t' \<Longrightarrow>
   (t_closed t \<longrightarrow> t_closed t') \<Longrightarrow> t_out t' = t_out t \<Longrightarrow> t_slots t' = t_slots t \<Longrightarrow> evolves t t'"
  by (simp add: evolves_def listed_def)

section \<open>Steps on one record\<close>

lemma rec_names_ok_frame [simp]:
  "rec_names_ok (upd_rec p f t) = rec_names_ok t" "rec_names_ok (perform es t) = rec_names_ok t"
  "rec_names_ok (emit ev s t) = rec_names_ok t"
  by (simp_all add: rec_names_ok_def slot_dir_def fun_eq_iff)

definition keeps_identity :: "slot_rec \<Rightarrow> slot_rec \<Rightarrow> bool" where
  "keeps_identity r r' \<longleftrightarrow>
     s_id r' = s_id r \<and> s_pool r' = s_pool r \<and> s_dir r' = s_dir r \<and> s_unit r' = s_unit r"

lemma slots_ok_upd_rec:
  "slots_ok t \<Longrightarrow> (p < t_next t \<Longrightarrow> s_id (f (t_heap t p)) = s_id (t_heap t p)) \<Longrightarrow>
   slots_ok (upd_rec p f t)"
  by (auto simp: slots_ok_def)

lemma heap_ok_upd_rec:
  "heap_ok t \<Longrightarrow>
   (p < t_next t \<Longrightarrow> rec_ok (t_heap t p) \<Longrightarrow>
      rec_ok (f (t_heap t p)) \<and> keeps_identity (t_heap t p) (f (t_heap t p))) \<Longrightarrow>
   heap_ok (upd_rec p f t)"
  by (auto simp: heap_ok_def rec_names_ok_def keeps_identity_def slot_dir_def)

lemma workers_ok_upd_rec:
  "workers_ok t \<Longrightarrow>
   (p < t_next t \<Longrightarrow> r_cleaning (f (t_heap t p)) = r_cleaning (t_heap t p) \<and>
      keeps_identity (t_heap t p) (f (t_heap t p))) \<Longrightarrow>
   workers_ok (upd_rec p f t)"
  by (auto simp: workers_ok_def keeps_identity_def)

lemma table_inv_upd_rec:
  assumes "table_inv t"
    and "p < t_next t \<Longrightarrow> rec_ok (t_heap t p) \<Longrightarrow>
      rec_ok (f (t_heap t p)) \<and> keeps_identity (t_heap t p) (f (t_heap t p)) \<and>
      r_cleaning (f (t_heap t p)) = r_cleaning (t_heap t p) \<and>
      r_completion_sent (f (t_heap t p)) = r_completion_sent (t_heap t p)"
  shows "table_inv (upd_rec p f t)"
proof -
  from assms(1) have "p < t_next t \<Longrightarrow> rec_ok (t_heap t p)"
    by (auto simp: table_inv_def heap_ok_def)
  note k = assms(2) [OF _ this]
  have "completions_ok (upd_rec p f t)"
    using assms(1) k by (auto simp: table_inv_def completions_ok_def)
  moreover have "slots_ok (upd_rec p f t)" "heap_ok (upd_rec p f t)" "workers_ok (upd_rec p f t)"
    using assms(1) k
    by (auto intro!: slots_ok_upd_rec heap_ok_upd_rec workers_ok_upd_rec simp: table_inv_def keeps_identity_def)
  ultimately show ?thesis using assms(1) by (simp add: table_inv_def watch_ok_def)
qed

lemma table_inv_perform:
  "table_inv t \<Longrightarrow> (\<And>p. completions_for p es = 0) \<Longrightarrow> table_inv (perform es t)"
  by (simp add: table_inv_def slots_ok_def heap_ok_def workers_ok_def completions_ok_def watch_ok_def)

lemma table_inv_emit [simp]: "table_inv t \<Longrightarrow> table_inv (emit ev s t)"
  by (simp add: emit_def table_inv_perform)

text \<open>Fields no component of the invariant reads.\<close>

lemma table_inv_simps [simp]:
  "table_inv (t\<lparr>t_desired := n\<rparr>) = table_inv t" "table_inv (t\<lparr>t_closed := b\<rparr>) = table_inv t"
  "table_inv (t\<lparr>t_now := m\<rparr>) = table_inv t" "table_inv (t\<lparr>t_dirs := ds\<rparr>) = table_inv t"
  by (simp_all add: table_inv_def slots_ok_def heap_ok_def workers_ok_def completions_ok_def
      watch_ok_def rec_names_ok_def slot_dir_def)

lemma count_live_simps [simp]:
  "count_live (t\<lparr>t_desired := n\<rparr>) = count_live t" "count_live (t\<lparr>t_closed := b\<rparr>) = count_live t"
  "count_live (t\<lparr>t_now := m\<rparr>) = count_live t" "count_live (t\<lparr>t_dirs := ds\<rparr>) = count_live t"
  "count_live (t\<lparr>t_watch := ws\<rparr>) = count_live t" "count_live (t\<lparr>t_workers := wk\<rparr>) = count_live t"
  by (simp_all add: count_live_def state_of_def)

lemma table_inv_recD: "table_inv t \<Longrightarrow> p < t_next t \<Longrightarrow> rec_ok (t_heap t p)"
  by (simp add: table_inv_def heap_ok_def)

lemma table_inv_slotsD: "table_inv t \<Longrightarrow> slots_ok t"
  by (simp add: table_inv_def)

section \<open>Job messages\<close>

text \<open>
  What a step must show: it keeps the invariant, evolves the table and never makes a slot live.
\<close>

definition good_step :: "table \<Rightarrow> table \<Rightarrow> bool" where
  "good_step t t' \<longleftrightarrow> table_inv t' \<and> evolves t t' \<and> count_live t' \<le> count_live t"

lemma good_step_refl [simp]: "table_inv t \<Longrightarrow> good_step t t"
  by (simp add: good_step_def)

lemma good_step_trans: "good_step t t' \<Longrightarrow> good_step t' t'' \<Longrightarrow> good_step t t''"
  by (auto simp: good_step_def intro: evolves_trans)

lemma good_step_upd_rec:
  assumes "table_inv t"
    and "p < t_next t \<Longrightarrow> rec_ok (t_heap t p) \<Longrightarrow>
      rec_ok (f (t_heap t p)) \<and> keeps_identity (t_heap t p) (f (t_heap t p)) \<and>
      r_cleaning (f (t_heap t p)) = r_cleaning (t_heap t p) \<and>
      r_completion_sent (f (t_heap t p)) = r_completion_sent (t_heap t p) \<and>
      rec_evolves (t_heap t p) (f (t_heap t p)) \<and>
      (live (s_state (f (t_heap t p))) \<longrightarrow> live (s_state (t_heap t p)))"
  shows "good_step t (upd_rec p f t)"
proof -
  have r: "p < t_next t \<Longrightarrow> rec_ok (t_heap t p)" using assms(1) by (rule table_inv_recD)
  note k = assms(2) [OF _ r]
  have s: "slots_ok t" using assms(1) by (rule table_inv_slotsD)
  have "count_live (upd_rec p f t) \<le> count_live t"
  proof (cases "p < t_next t")
    case True
    with k show ?thesis by (intro count_live_upd_rec_le s) (simp add: state_of_def)
  next
    case False
    with slots_ok_snd [OF s, of p] have "p \<notin> snd ` set (t_slots t)" by blast
    with count_live_upd_rec [OF s, of p f] show ?thesis by simp
  qed
  with k assms(1) show ?thesis
    by (auto simp: good_step_def intro!: table_inv_upd_rec evolves_upd_rec)
qed

lemma good_step_mark_busy: "table_inv t \<Longrightarrow> good_step t (mark_busy i t)"
  unfolding mark_busy_def
  by (auto split: option.split intro!: good_step_upd_rec
      simp: rec_ok_def keeps_identity_def rec_evolves_def state_of_def)

lemma good_step_claim: "table_inv t \<Longrightarrow> good_step t (snd (claim job t))"
  unfolding claim_def
  by (auto split: option.split intro!: good_step_upd_rec
      simp: rec_ok_def keeps_identity_def rec_evolves_def state_of_def claim_rec_def)

lemma good_step_mark_result: "table_inv t \<Longrightarrow> good_step t (mark_result runner result t)"
  unfolding mark_result_def
  by (auto split: option.split intro!: good_step_upd_rec
      simp: rec_ok_def keeps_identity_def rec_evolves_def)

lemma good_step_store_sample: "table_inv t \<Longrightarrow> good_step t (store_sample p u t)"
  unfolding store_sample_def
  by (auto intro!: good_step_upd_rec simp: rec_ok_def keeps_identity_def rec_evolves_def)

end
