(* ===== verification/Slot_Steps.thy ===== *)
theory Slot_Steps
  imports Slot_Invariant
begin

text \<open>
  Exit observation, cleanup and the asynchronous steps keep the table invariant, evolve the table
  and never make a slot live; so does any interleaving of them.
\<close>

section \<open>Exit observation\<close>

lemma perform_perform: "perform fs (perform es t) = perform (es @ fs) t"
  by (simp add: perform_def)

lemma emit_perform: "emit ev s t = perform (if o_event_hook (t_opts t) then [EmitEvent ev s] else []) t"
  by (simp add: emit_def perform_def)

lemma perform_Nil [simp]: "perform [] t = t"
  by (simp add: perform_def)

lemma table_inv_upd_perform:
  assumes "table_inv t" "p < t_next t" "rec_ok r'" "keeps_identity (t_heap t p) r'"
    and "r_cleaning r' = r_cleaning (t_heap t p)"
    and "r_completion_sent (t_heap t p) \<Longrightarrow> r_completion_sent r'"
    and "\<And>q. completions_for q es =
      (if q = p \<and> r_completion_sent r' \<and> \<not> r_completion_sent (t_heap t p) then 1 else 0)"
  shows "table_inv (perform es (upd_rec p (\<lambda>_. r') t))"
proof -
  have "completions_ok (perform es (upd_rec p (\<lambda>_. r') t))"
    using assms by (auto simp: table_inv_def completions_ok_def)
  moreover have "slots_ok (upd_rec p (\<lambda>_. r') t)" "heap_ok (upd_rec p (\<lambda>_. r') t)"
    "workers_ok (upd_rec p (\<lambda>_. r') t)"
    using assms by (auto intro!: slots_ok_upd_rec heap_ok_upd_rec workers_ok_upd_rec
        simp: table_inv_def keeps_identity_def)
  ultimately show ?thesis using assms(1)
    by (simp add: table_inv_def watch_ok_def slots_ok_def heap_ok_def workers_ok_def)
qed

text \<open>What \<open>observe_exit\<close> does to the table when it goes on to clean a record.\<close>

definition exit_step :: "table \<Rightarrow> ptr \<Rightarrow> slot_rec \<Rightarrow> effect list \<Rightarrow> bool" where
  "exit_step t p r' es \<longleftrightarrow>
     p < t_next t \<and> (s_id (t_heap t p), p) \<in> set (t_slots t) \<and> rec_ok r' \<and>
     keeps_identity (t_heap t p) r' \<and> rec_evolves (t_heap t p) r' \<and>
     \<not> r_cleaning (t_heap t p) \<and> \<not> r_cleaning r' \<and> \<not> r_cleanup_pending (t_heap t p) \<and>
     r_cleanup_pending r' \<and> s_state r' = StateStopping \<and> \<not> r_completion_sent (t_heap t p) \<and>
     (\<forall>q. completions_for q es = (if q = p \<and> r_completion_sent r' then 1 else 0))"

lemma observe_exit_shape:
  assumes "table_inv t"
  shows "observe_exit i e t = (None, t) \<or>
    (\<exists>p r' es. observe_exit i e t = (Some p, perform es (upd_rec p (\<lambda>_. r') t)) \<and>
       s_id (t_heap t p) = i \<and> exit_step t p r' es)"
proof (cases "map_of (t_slots t) i")
  case None
  then show ?thesis by (simp add: observe_exit_def)
next
  case (Some p)
  let ?r = "t_heap t p"
  have s: "slots_ok t" using assms by (rule table_inv_slotsD)
  from slots_ok_ptr [OF s Some] have p: "p < t_next t" and i: "s_id ?r = i" by auto
  have ok: "rec_ok ?r" using assms p by (rule table_inv_recD)
  have mem: "(s_id ?r, p) \<in> set (t_slots t)" using Some s i by (simp add: slots_ok_lookup)
  show ?thesis
  proof (cases "(e \<noteq> None \<and> e \<noteq> Some p) \<or> r_cleaning ?r \<or> r_cleanup_pending ?r")
    case True
    with Some show ?thesis by (simp add: observe_exit_def)
  next
    case False
    define r1 where "r1 = exit_rec t ?r"
    define failed where "failed = (r_exit_event r1 = Some EventAcquireFailure)"
    define r2 where "r2 = (if failed then r1\<lparr>r_exit_event := None\<rparr> else r1)"
    define complete where "complete = (r_claimed r2 \<and> \<not> r_completion_sent r2 \<and> o_completion_hook (t_opts t))"
    define r3 where "r3 = (if complete then r2\<lparr>r_completion_sent := True\<rparr> else r2)"
    define es where "es = (if failed \<and> o_event_hook (t_opts t)
                 then [EmitEvent EventAcquireFailure (slot.truncate r1)] else []) @
               (if complete then [CompletionHook p (completion_of t i r2)] else [])"
    note defs = failed_def r1_def r2_def complete_def r3_def
    have eq: "observe_exit i e t = (Some p, perform es (upd_rec p (\<lambda>_. r3) t))"
      using False Some ok
      by (simp add: observe_exit_def Let_def emit_perform perform_perform rec_ok_def es_def defs)
    have rs: "r_cleanup_pending r3" "s_state r3 = StateStopping" "\<not> r_cleaning r3"
      "keeps_identity ?r r3" "rec_evolves ?r r3" "rec_ok r3" "\<not> r_completion_sent ?r"
      using False ok
      by (auto simp: exit_rec_def Let_def keeps_identity_def rec_evolves_def rec_ok_def defs)
    have "\<not> r_completion_sent r2"
      using rs(7) by (simp add: exit_rec_def Let_def r1_def r2_def)
    then have "\<forall>q. completions_for q es = (if q = p \<and> r_completion_sent r3 then 1 else 0)"
      by (simp add: es_def r3_def)
    with False p mem rs have "exit_step t p r3 es" by (simp add: exit_step_def)
    with eq i show ?thesis by blast
  qed
qed

lemma exit_step_good:
  assumes "table_inv t" "exit_step t p r' es"
  shows "good_step t (perform es (upd_rec p (\<lambda>_. r') t))"
proof -
  have inv: "table_inv (perform es (upd_rec p (\<lambda>_. r') t))"
    using assms by (intro table_inv_upd_perform) (auto simp: exit_step_def)
  have "evolves t (perform es (upd_rec p (\<lambda>_. r') t))"
    using assms(2) by (intro evolves_trans [OF evolves_upd_rec evolves_perform]) (simp add: exit_step_def)
  moreover have "count_live (upd_rec p (\<lambda>_. r') t) \<le> count_live t"
    using assms by (intro count_live_upd_rec_le) (auto simp: exit_step_def table_inv_slotsD)
  ultimately show ?thesis using inv by (simp add: good_step_def)
qed

lemma good_step_observe_exit: "table_inv t \<Longrightarrow> good_step t (snd (observe_exit i e t))"
  using observe_exit_shape [of t i e] exit_step_good by fastforce

text \<open>A record handed over for cleaning is stopping.\<close>

lemma observe_exit_stopping:
  "table_inv t \<Longrightarrow> observe_exit i e t = (Some p, t') \<Longrightarrow>
   r_cleanup_pending (t_heap t' p) \<and> p < t_next t'"
  using observe_exit_shape [of t i e] by (auto simp: exit_step_def)

section \<open>Cleanup\<close>

lemma good_step_clean_begin:
  assumes inv: "table_inv t" and st: "s_state (t_heap t p) = StateStopping"
  shows "good_step t (clean_begin p t)"
proof (cases "map_of (t_slots t) (s_id (t_heap t p)) \<noteq> Some p \<or> r_cleaning (t_heap t p)")
  case True
  with inv show ?thesis by (auto simp: clean_begin_def Let_def)
next
  case False
  let ?r = "t_heap t p"
  let ?r1 = "?r\<lparr>r_cleaning := True, r_clean_done := OpenChan, r_cleanup_pending := True\<rparr>"
  let ?t = "(upd_rec p (\<lambda>_. ?r1) t)\<lparr>t_workers := t_workers t @ [(p, slot.truncate ?r1)]\<rparr>"
  have eq: "clean_begin p t = ?t" using False by (simp add: clean_begin_def Let_def)
  have s: "slots_ok t" using inv by (rule table_inv_slotsD)
  from False slots_ok_ptr [OF s] have p: "p < t_next t" by blast
  have mem: "(s_id ?r, p) \<in> set (t_slots t)" using False s by (simp add: slots_ok_lookup)
  have ok: "rec_ok ?r" using inv p by (rule table_inv_recD)
  have new: "p \<notin> fst ` set (t_workers t)" using inv False by (auto simp: table_inv_def workers_ok_def)
  have "slots_ok ?t" using s by (auto simp: slots_ok_def)
  moreover have "heap_ok ?t" using inv p ok st
    by (auto simp: table_inv_def heap_ok_def rec_ok_def rec_names_ok_def slot_dir_def)
  moreover have "workers_ok ?t" using inv p mem new
    by (force simp: table_inv_def workers_ok_def slot.defs)
  moreover have "completions_ok ?t" using inv by (simp add: table_inv_def completions_ok_def)
  moreover have "watch_ok ?t" using inv by (simp add: table_inv_def watch_ok_def)
  moreover have "evolves t ?t" by (simp add: evolves_def rec_evolves_def st)
  moreover have "count_live ?t \<le> count_live t"
    using count_live_upd_rec_le [OF s, of "\<lambda>_. ?r1" p] by (simp add: state_of_def)
  ultimately show ?thesis by (simp add: eq good_step_def table_inv_def)
qed

lemma count_live_del_key:
  "count_live (t\<lparr>t_slots := del_key i (t_slots t)\<rparr>) \<le> count_live t"
  by (simp add: count_live_def state_of_def length_filter_del_key)

text \<open>The state after a finished worker, as one update.\<close>

definition cleaned :: "ptr \<Rightarrow> table \<Rightarrow> table" where
  "cleaned p t = (upd_rec p (\<lambda>r. r\<lparr>r_cleaning := False, r_clean_done := ClosedChan\<rparr>) t)
     \<lparr>t_workers := del_key p (t_workers t)\<rparr>"

lemma good_step_cleaned:
  assumes inv: "table_inv t"
  shows "good_step t (cleaned p t)"
proof -
  let ?f = "\<lambda>r. r\<lparr>r_cleaning := False, r_clean_done := ClosedChan\<rparr>"
  have s: "slots_ok t" using inv by (rule table_inv_slotsD)
  have "slots_ok (cleaned p t)" using s by (auto simp: slots_ok_def cleaned_def)
  moreover have "heap_ok (cleaned p t)" using inv
    by (auto simp: table_inv_def heap_ok_def rec_ok_def rec_names_ok_def slot_dir_def cleaned_def)
  moreover have "workers_ok (cleaned p t)" using inv
    by (fastforce simp: table_inv_def workers_ok_def cleaned_def set_del_key distinct_fst_del_key)
  moreover have "completions_ok (cleaned p t)" "watch_ok (cleaned p t)"
    using inv by (simp_all add: table_inv_def completions_ok_def watch_ok_def cleaned_def)
  moreover have "evolves t (cleaned p t)" by (simp add: evolves_def rec_evolves_def cleaned_def)
  moreover have "count_live (cleaned p t) \<le> count_live t"
    using count_live_upd_rec_le [OF s, of ?f p] by (simp add: state_of_def cleaned_def)
  ultimately show ?thesis by (simp add: good_step_def table_inv_def)
qed

text \<open>Removing a record no worker owns.\<close>

lemma good_step_remove:
  assumes inv: "table_inv t" and "\<And>p. (i, p) \<in> set (t_slots t) \<Longrightarrow> p \<notin> fst ` set (t_workers t)"
  shows "good_step t (t\<lparr>t_slots := del_key i (t_slots t)\<rparr>)"
proof -
  let ?t = "t\<lparr>t_slots := del_key i (t_slots t)\<rparr>"
  have "slots_ok ?t" using inv
    by (auto simp: table_inv_def slots_ok_def set_del_key distinct_fst_del_key distinct_snd_del_key)
  moreover have "heap_ok ?t" using inv
    by (simp add: table_inv_def heap_ok_def rec_names_ok_def slot_dir_def)
  moreover have "workers_ok ?t" using inv assms(2)
    by (force simp: table_inv_def workers_ok_def set_del_key)
  moreover have "completions_ok ?t" "watch_ok ?t"
    using inv by (simp_all add: table_inv_def completions_ok_def watch_ok_def)
  moreover have "evolves t ?t" by (auto simp: evolves_def listed_def set_del_key)
  ultimately show ?thesis using count_live_del_key by (simp add: good_step_def table_inv_def)
qed

lemma good_step_emit: "table_inv t \<Longrightarrow> good_step t (emit ev s t)"
  by (simp add: good_step_def)

text \<open>The steps of \<open>clean_end\<close> in an order that is easier to follow: the worker lets the record go
  before the record is removed.\<close>

lemma clean_end_eq:
  "map_of (t_workers t) p = Some snap \<Longrightarrow>
   clean_end p we t =
     (let (es, ok) = wipe we t snap;
          t1 = cleaned p (perform es t);
          t2 = (if ok then t1\<lparr>t_dirs := removeAll (s_dir snap) (t_dirs t)\<rparr> else t1);
          t3 = (if ok \<and> map_of (t_slots t) (s_id (t_heap t p)) = Some p
                then t2\<lparr>t_slots := del_key (s_id (t_heap t p)) (t_slots t2)\<rparr> else t2)
      in (case r_exit_event (t_heap t p) of
            Some ev \<Rightarrow> if ok then emit ev snap t3 else t3
          | None \<Rightarrow> t3))"
  by (cases "wipe we t snap"; cases "r_exit_event (t_heap t p)")
    (simp_all add: clean_end_def cleaned_def Let_def upd_rec_def perform_def)

lemma good_step_clean_end:
  assumes inv: "table_inv t"
  shows "good_step t (clean_end p we t)"
proof (cases "map_of (t_workers t) p")
  case None
  then show ?thesis using inv by (simp add: clean_end_def)
next
  case (Some snap)
  obtain es ok where w: "wipe we t snap = (es, ok)" by fastforce
  then have "\<And>q. completions_for q es = 0" using completions_for_wipe [of _ we t snap] by simp
  then have i0: "table_inv (perform es t)" using inv by (simp add: table_inv_perform)
  let ?t1 = "cleaned p (perform es t)"
  let ?t2 = "if ok then ?t1\<lparr>t_dirs := removeAll (s_dir snap) (t_dirs t)\<rparr> else ?t1"
  let ?gone = "ok \<and> map_of (t_slots t) (s_id (t_heap t p)) = Some p"
  let ?t3 = "if ?gone then ?t2\<lparr>t_slots := del_key (s_id (t_heap t p)) (t_slots ?t2)\<rparr> else ?t2"
  have g0: "good_step t (perform es t)" using i0 by (simp add: good_step_def)
  have g1: "good_step (perform es t) ?t1" using i0 by (rule good_step_cleaned)
  then have i1: "table_inv ?t1" by (simp add: good_step_def)
  then have g2: "good_step ?t1 ?t2" by (simp add: good_step_def evolves_heap_same)
  then have i2: "table_inv ?t2" by (simp add: good_step_def)
  have g3: "good_step ?t2 ?t3"
  proof (cases ?gone)
    case True
    have s: "slots_ok t" using inv by (rule table_inv_slotsD)
    have "good_step ?t2 (?t2\<lparr>t_slots := del_key (s_id (t_heap t p)) (t_slots ?t2)\<rparr>)"
    proof (rule good_step_remove [OF i2])
      fix q assume "(s_id (t_heap t p), q) \<in> set (t_slots ?t2)"
      then have "map_of (t_slots t) (s_id (t_heap t p)) = Some q"
        using s by (simp add: slots_ok_lookup cleaned_def split: if_splits)
      with True have "q = p" by simp
      then show "q \<notin> fst ` set (t_workers ?t2)" by (auto simp: cleaned_def set_del_key)
    qed
    with True show ?thesis by simp
  next
    case False
    with i2 show ?thesis by auto
  qed
  then have i3: "table_inv ?t3" by (simp add: good_step_def)
  have g: "good_step t ?t3" using g0 g1 g2 g3 by (blast intro: good_step_trans)
  define t3 where "t3 = ?t3"
  have "clean_end p we t =
      (case r_exit_event (t_heap t p) of Some ev \<Rightarrow> if ok then emit ev snap t3 else t3 | None \<Rightarrow> t3)"
    unfolding clean_end_eq [OF Some] w Let_def prod.case t3_def ..
  moreover have "good_step t t3" "table_inv t3" using g i3 by (simp_all only: t3_def)
  ultimately show ?thesis by (auto split: option.split intro: good_step_trans [OF _ good_step_emit])
qed

section \<open>Asynchronous steps\<close>

lemma table_inv_watch: "table_inv t \<Longrightarrow> table_inv (t\<lparr>t_watch := removeAll p (t_watch t)\<rparr>)"
  by (simp add: table_inv_def slots_ok_def heap_ok_def workers_ok_def completions_ok_def
      watch_ok_def rec_names_ok_def slot_dir_def)

lemma good_step_watch_exit:
  assumes "table_inv t"
  shows "good_step t (watch_exit p t)"
proof (cases "t_closed t \<or> p \<notin> set (t_watch t)")
  case True
  with assms show ?thesis by (simp add: watch_exit_def)
next
  case False
  let ?t = "t\<lparr>t_watch := removeAll p (t_watch t)\<rparr>"
  have inv: "table_inv ?t" using assms by (rule table_inv_watch)
  then have "good_step t ?t" by (simp add: good_step_def evolves_heap_same)
  moreover have "good_step ?t (snd (observe_exit (s_id (t_heap t p)) (Some p) ?t))"
    using inv by (rule good_step_observe_exit)
  ultimately show ?thesis using False by (auto simp: watch_exit_def Let_def intro: good_step_trans)
qed

lemma good_step_observe_launched: "table_inv t \<Longrightarrow> good_step t (observe_launched i t)"
  by (simp add: observe_launched_def good_step_observe_exit split: option.split)

lemma good_step_reorder:
  assumes inv: "table_inv t" and d: "distinct xs" and same: "set xs = set (t_slots t)"
  shows "good_step t (t\<lparr>t_slots := xs\<rparr>)"
proof -
  let ?t = "t\<lparr>t_slots := xs\<rparr>"
  have s: "slots_ok t" using inv by (rule table_inv_slotsD)
  then have "distinct (t_slots t)" by (simp add: slots_ok_def distinct_map)
  with d same have m: "mset xs = mset (t_slots t)"
    using set_eq_iff_mset_eq_distinct by blast
  have "distinct (map fst xs)" "distinct (map snd xs)"
    using s mset_eq_imp_distinct_iff m mset_map unfolding slots_ok_def by metis+
  with s same have "slots_ok ?t" by (auto simp: slots_ok_def)
  moreover have "heap_ok ?t" "workers_ok ?t" "completions_ok ?t" "watch_ok ?t"
    using inv same by (simp_all add: table_inv_def heap_ok_def workers_ok_def completions_ok_def
        watch_ok_def rec_names_ok_def slot_dir_def)
  moreover have "evolves t ?t" using same by (simp add: evolves_def listed_def)
  moreover have "count_live ?t = count_live t"
    using d \<open>distinct (t_slots t)\<close> same
    by (auto simp: count_live_def state_of_def intro: length_filter_distinct_perm)
  ultimately show ?thesis by (simp add: good_step_def table_inv_def)
qed

lemma good_step_heap_same:
  "table_inv t \<Longrightarrow> good_step t (t\<lparr>t_desired := n\<rparr>)"
  "table_inv t \<Longrightarrow> good_step t (t\<lparr>t_closed := True\<rparr>)"
  "table_inv t \<Longrightarrow> 0 \<le> d \<Longrightarrow> good_step t (t\<lparr>t_now := t_now t + d\<rparr>)"
  by (simp_all add: good_step_def evolves_heap_same)

lemma good_step_act: "table_inv t \<Longrightarrow> good_step t (act a t)"
proof (cases a)
  case (ACleanBegin p)
  assume inv: "table_inv t"
  have "good_step t (clean_begin p t)" if "r_cleanup_pending (t_heap t p)"
  proof (cases "p < t_next t")
    case True
    with that table_inv_recD [OF inv] have "s_state (t_heap t p) = StateStopping"
      by (simp add: rec_ok_def)
    with inv show ?thesis by (rule good_step_clean_begin)
  next
    case False
    with slots_ok_ptr [OF table_inv_slotsD [OF inv]] inv show ?thesis
      by (auto simp: clean_begin_def Let_def)
  qed
  with inv show ?thesis by (simp add: ACleanBegin)
qed (simp_all add: good_step_mark_busy good_step_claim good_step_mark_result good_step_store_sample
    good_step_watch_exit good_step_observe_launched good_step_clean_end good_step_reorder good_step_heap_same
    set_desired_def close_table_def)

lemma good_step_run: "table_inv t \<Longrightarrow> good_step t (run as t)"
proof (induction as arbitrary: t)
  case (Cons a as)
  from Cons.prems have g: "good_step t (act a t)" by (rule good_step_act)
  then have "table_inv (act a t)" by (simp add: good_step_def)
  then have "good_step (act a t) (run as (act a t))" by (rule Cons.IH)
  with g show ?case by (auto intro: good_step_trans)
qed simp

lemma good_step_invD: "good_step t t' \<Longrightarrow> table_inv t'"
  by (simp add: good_step_def)

lemma good_step_evolvesD: "good_step t t' \<Longrightarrow> evolves t t'"
  by (simp add: good_step_def)

lemma good_step_countD: "good_step t t' \<Longrightarrow> count_live t' \<le> count_live t"
  by (simp add: good_step_def)

end
