(* ===== verification/Slot_Start.thy ===== *)
theory Slot_Start
  imports Slot_Convergence
begin

text \<open>
  Starting and adopting slots: a start keeps the table invariant on every branch and adds at most
  one live slot; the start loop of \<open>Ensure\<close> never passes the desired count; no start stops a unit.
\<close>

section \<open>Stop calls\<close>

definition stop_calls :: "effect list \<Rightarrow> (ptr option \<times> string) list" where
  "stop_calls es = concat (map (\<lambda>e. case e of BackendStop op u \<Rightarrow> [(op, u)] | _ \<Rightarrow> []) es)"

lemma stop_calls_simps [simp]:
  "stop_calls [] = []" "stop_calls (es @ fs) = stop_calls es @ stop_calls fs"
  "stop_calls (BackendStop op u # es) = (op, u) # stop_calls es"
  "stop_calls (EmitEvent ev s # es) = stop_calls es"
  "stop_calls (CompletionHook p c # es) = stop_calls es"
  "stop_calls (StartObserved d # es) = stop_calls es"
  "stop_calls (BackendStart p sp # es) = stop_calls es"
  "stop_calls (DiagHook s # es) = stop_calls es"
  "stop_calls (UnlinkCredentials a # es) = stop_calls es"
  "stop_calls (RemoveJit a # es) = stop_calls es"
  "stop_calls (RemoveAll a # es) = stop_calls es"
  by (simp_all add: stop_calls_def)

lemma stop_calls_wipe: "wipe we t s = (es, ok) \<Longrightarrow> stop_calls es = []"
  by (auto simp: wipe_def Let_def split: if_splits)

lemma stop_calls_observe_exit [simp]:
  "stop_calls (t_out (snd (observe_exit i e t))) = stop_calls (t_out t)"
  by (simp add: observe_exit_def Let_def split: option.split)

lemma stop_calls_clean_end [simp]: "stop_calls (t_out (clean_end p we t)) = stop_calls (t_out t)"
  by (auto simp: clean_end_def Let_def stop_calls_wipe split: option.split prod.split)

lemma stop_calls_act [simp]: "stop_calls (t_out (act a t)) = stop_calls (t_out t)"
  by (cases a) (simp_all add: set_desired_def mark_busy_def claim_def mark_result_def
      store_sample_def watch_exit_def observe_launched_def Let_def close_table_def split: option.split)

lemma stop_calls_run [simp]: "stop_calls (t_out (run as t)) = stop_calls (t_out t)"
  by (induction as arbitrary: t) simp_all

lemma stop_calls_clean [simp]: "stop_calls (t_out (clean p during t)) = stop_calls (t_out t)"
  by (simp add: clean_def)

lemma stop_calls_observe_exit_context [simp]:
  "stop_calls (t_out (observe_exit_context i e between during t)) = stop_calls (t_out t)"
proof (cases "observe_exit i e t")
  case (Pair r t1)
  then show ?thesis using stop_calls_observe_exit [of i e t]
    by (simp add: observe_exit_context_def split: option.split)
qed

lemma stop_calls_wait_cleanup [simp]:
  "stop_calls (t_out (wait_cleanup p during t)) = stop_calls (t_out t)"
  by (simp add: wait_cleanup_def)

lemma stop_calls_retry_cleanup [simp]:
  "stop_calls (t_out (retry_cleanup ticks t)) = stop_calls (t_out t)"
proof -
  have "stop_calls (t_out (retry_loop ps ticks t)) = stop_calls (t_out t)" for ps
    by (induction ps ticks t rule: retry_loop.induct) simp_all
  then show ?thesis by (simp add: retry_cleanup_def)
qed

section \<open>Fresh identifiers\<close>

lemma next_id_from_Some:
  "next_id_from n slots = Some i \<Longrightarrow>
   \<exists>k. n \<le> k \<and> k \<le> max_slot_id \<and> i = fmt_04d k \<and> map_of slots i = None \<and>
       (\<forall>m. n \<le> m \<and> m < k \<longrightarrow> map_of slots (fmt_04d m) \<noteq> None)"
proof (induction n slots rule: next_id_from.induct)
  case (1 n slots)
  show ?case
  proof (cases "n > max_slot_id")
    case True
    with "1.prems" show ?thesis by (simp add: next_id_from.simps [of n])
  next
    case in_range: False
    show ?thesis
    proof (cases "map_of slots (fmt_04d n) = None")
      case True
      with "1.prems" in_range show ?thesis
        by (intro exI [of _ n]) (auto simp: next_id_from.simps [of n])
    next
      case False
      with "1.prems" in_range have "next_id_from (Suc n) slots = Some i"
        by (simp add: next_id_from.simps [of n])
      with "1.IH" in_range False obtain k where k: "Suc n \<le> k" "k \<le> max_slot_id" "i = fmt_04d k"
        "map_of slots i = None" "\<forall>m. Suc n \<le> m \<and> m < k \<longrightarrow> map_of slots (fmt_04d m) \<noteq> None"
        by blast
      have "map_of slots (fmt_04d m) \<noteq> None" if "n \<le> m" "m < k" for m
        using that k(5) False by (cases "m = n") auto
      with k show ?thesis by (intro exI [of _ k]) simp
    qed
  qed
qed

lemma next_id_from_None:
  "next_id_from n slots = None \<Longrightarrow> n \<le> m \<Longrightarrow> m \<le> max_slot_id \<Longrightarrow> map_of slots (fmt_04d m) \<noteq> None"
proof (induction n slots rule: next_id_from.induct)
  case (1 n slots)
  from "1.prems" have "\<not> n > max_slot_id" by simp
  with "1.prems"(1) have taken: "map_of slots (fmt_04d n) \<noteq> None"
    and rest: "next_id_from (Suc n) slots = None"
    by (auto simp: next_id_from.simps [of n] split: if_splits)
  show ?case
  proof (cases "m = n")
    case True
    with taken show ?thesis by simp
  next
    case False
    with "1.IH" "1.prems" \<open>\<not> n > max_slot_id\<close> taken rest show ?thesis by simp
  qed
qed

lemma next_id_fresh: "next_id t = Some i \<Longrightarrow> map_of (t_slots t) i = None \<and> valid_id i"
  unfolding next_id_def by (drule next_id_from_Some) (auto simp: valid_id_fmt_04d)

lemma next_id_exists:
  assumes "length (t_slots t) < max_slot_id"
  shows "\<exists>i. next_id t = Some i"
proof (rule ccontr)
  assume "\<not> ?thesis"
  then have "next_id_from 1 (t_slots t) = None" by (auto simp: next_id_def)
  then have "fmt_04d ` {1..max_slot_id} \<subseteq> fst ` set (t_slots t)"
    using next_id_from_None [of 1 "t_slots t"] by (fastforce simp: map_of_eq_None_iff)
  then have "card (fmt_04d ` {1..max_slot_id}) \<le> card (fst ` set (t_slots t))"
    by (intro card_mono) auto
  moreover have "card (fmt_04d ` {1..max_slot_id}) = max_slot_id"
    by (subst card_image) (auto intro: inj_onI dest: fmt_04d_inj)
  moreover have "card (fst ` set (t_slots t)) \<le> length (t_slots t)"
    using card_image_le [of "set (t_slots t)" fst] card_length [of "t_slots t"] by simp
  ultimately show False using assms by simp
qed

section \<open>Adding a record\<close>

lemma put_key_new: "map_of xs k = None \<Longrightarrow> put_key k v xs = xs @ [(k, v)]"
  by (induction k v xs rule: put_key.induct) (auto split: if_splits)

definition fresh_rec :: "table \<Rightarrow> slot_rec \<Rightarrow> bool" where
  "fresh_rec t r \<longleftrightarrow>
     map_of (t_slots t) (s_id r) = None \<and> rec_ok r \<and> rec_names_ok t r \<and> \<not> r_cleaning r \<and>
     \<not> r_completion_sent r"

lemma add_rec_sel [simp]:
  "t_opts (add_rec r t) = t_opts t" "t_root (add_rec r t) = t_root t"
  "t_watch (add_rec r t) = t_watch t" "t_out (add_rec r t) = t_out t"
  "t_next (add_rec r t) = Suc (t_next t)" "t_heap (add_rec r t) = (t_heap t)(t_next t := r)"
  "t_dirs (add_rec r t) = t_dirs t" "t_closed (add_rec r t) = t_closed t"
  "t_now (add_rec r t) = t_now t" "t_jit_dir (add_rec r t) = t_jit_dir t"
  "t_workers (add_rec r t) = t_workers t" "t_desired (add_rec r t) = t_desired t"
  by (simp_all add: add_rec_def)

lemma add_rec_slots: "fresh_rec t r \<Longrightarrow> t_slots (add_rec r t) = t_slots t @ [(s_id r, t_next t)]"
  by (simp add: add_rec_def fresh_rec_def put_key_new)

lemma table_inv_add_rec:
  assumes inv: "table_inv t" and r: "fresh_rec t r"
  shows "table_inv (add_rec r t)"
proof -
  note sl = add_rec_slots [OF r]
  have s: "slots_ok t" using inv by (rule table_inv_slotsD)
  have nin: "s_id r \<notin> fst ` set (t_slots t)" using r by (simp add: fresh_rec_def map_of_eq_None_iff)
  have "slots_ok (add_rec r t)"
    using s nin by (fastforce simp: slots_ok_def sl)
  moreover have "heap_ok (add_rec r t)" using inv r
    by (auto simp: table_inv_def heap_ok_def fresh_rec_def rec_names_ok_def slot_dir_def less_Suc_eq)
  moreover have "workers_ok (add_rec r t)"
    using inv r unfolding table_inv_def workers_ok_def fresh_rec_def
    by (auto simp: sl less_Suc_eq split: prod.splits)
  moreover have "completions_ok (add_rec r t)" using inv r
    by (auto simp: table_inv_def completions_ok_def fresh_rec_def less_Suc_eq)
  moreover have "watch_ok (add_rec r t)" using inv by (auto simp: table_inv_def watch_ok_def)
  ultimately show ?thesis by (simp add: table_inv_def)
qed

lemma listed_add_rec: "listed (add_rec r t) \<subseteq> insert (t_next t) (listed t)"
proof -
  have "snd ` set (put_key k v xs) \<subseteq> insert v (snd ` set xs)" for k :: slot_id and v and xs :: "(slot_id \<times> ptr) list"
    by (induction k v xs rule: put_key.induct) (simp_all, blast)
  then show ?thesis by (simp add: listed_def add_rec_def)
qed

lemma evolves_add_rec [simp]: "evolves t (add_rec r t)"
  using listed_add_rec [of r t] by (auto simp: evolves_def)

lemma count_live_add_rec:
  assumes inv: "table_inv t" and r: "fresh_rec t r"
  shows "count_live (add_rec r t) = count_live t + (if live (s_state r) then 1 else 0)"
proof -
  have "\<forall>(i, p) \<in> set (t_slots t). p < t_next t" using inv by (auto simp: table_inv_def slots_ok_def)
  then have "filter (\<lambda>(i, p). live (state_of (add_rec r t) p)) (t_slots t) =
      filter (\<lambda>(i, p). live (state_of t p)) (t_slots t)"
    by (intro filter_cong) (auto simp: state_of_def)
  then show ?thesis by (simp add: count_live_def add_rec_slots [OF r] state_of_def)
qed

text \<open>A step that may add one live slot.\<close>

definition start_step :: "table \<Rightarrow> table \<Rightarrow> bool" where
  "start_step t t' \<longleftrightarrow> table_inv t' \<and> evolves t t' \<and> count_live t' \<le> Suc (count_live t)"

lemma start_step_invD: "start_step t t' \<Longrightarrow> table_inv t'"
  by (simp add: start_step_def)

lemma start_step_good: "good_step t t' \<Longrightarrow> start_step t t'"
  by (auto simp: start_step_def good_step_def)

lemma start_step_trans1: "good_step t t' \<Longrightarrow> start_step t' t'' \<Longrightarrow> start_step t t''"
  by (auto simp: start_step_def good_step_def intro: evolves_trans)

lemma start_step_trans2: "start_step t t' \<Longrightarrow> good_step t' t'' \<Longrightarrow> start_step t t''"
  by (auto simp: start_step_def good_step_def intro: evolves_trans)

lemma start_step_add_rec:
  "table_inv t \<Longrightarrow> fresh_rec t r \<Longrightarrow> start_step t (add_rec r t)"
  by (simp add: start_step_def table_inv_add_rec count_live_add_rec)

section \<open>Launching\<close>

lemma good_step_stopping:
  "table_inv t \<Longrightarrow> s_state (t_heap t p) \<noteq> StateBusy \<Longrightarrow>
   good_step t (upd_rec p (\<lambda>r. r\<lparr>s_state := StateStopping\<rparr>) t)"
  by (rule good_step_upd_rec) (auto simp: rec_ok_def keeps_identity_def rec_evolves_def)

text \<open>The record of a failed start is the candidate's own, whatever claimed it meanwhile.\<close>

definition inv_step :: "ptr \<Rightarrow> table \<Rightarrow> table \<Rightarrow> bool" where
  "inv_step p t t' \<longleftrightarrow>
     table_inv t' \<and> count_live t' \<le> count_live t \<and>
     t_opts t' = t_opts t \<and> t_root t' = t_root t \<and> t_jit_dir t' = t_jit_dir t \<and>
     t_next t \<le> t_next t' \<and> t_now t \<le> t_now t' \<and> (t_closed t \<longrightarrow> t_closed t') \<and>
     (\<exists>es. t_out t' = t_out t @ es) \<and>
     (\<forall>q < t_next t. q \<noteq> p \<longrightarrow> rec_evolves (t_heap t q) (t_heap t' q)) \<and>
     (\<forall>q < t_next t. q \<in> listed t' \<longrightarrow> q \<in> listed t)"

lemma inv_step_good: "good_step t t' \<Longrightarrow> inv_step p t t'"
  by (auto simp: inv_step_def good_step_def evolves_def)

lemma inv_step_trans: "inv_step p t t' \<Longrightarrow> inv_step p t' t'' \<Longrightarrow> inv_step p t t''"
  unfolding inv_step_def
  by (elim conjE exE, intro conjI allI impI) (auto intro: rec_evolves_trans dest: less_le_trans)

lemma inv_step_upd_rec:
  assumes "table_inv t"
    and "rec_ok (t_heap t p) \<Longrightarrow> p < t_next t \<Longrightarrow>
      rec_ok (f (t_heap t p)) \<and> keeps_identity (t_heap t p) (f (t_heap t p)) \<and>
      r_cleaning (f (t_heap t p)) = r_cleaning (t_heap t p) \<and>
      r_completion_sent (f (t_heap t p)) = r_completion_sent (t_heap t p)"
    and "live (s_state (f (t_heap t p))) \<Longrightarrow> live (s_state (t_heap t p))"
  shows "inv_step p t (upd_rec p f t)"
proof -
  have "count_live (upd_rec p f t) \<le> count_live t"
    using assms(3) by (intro count_live_upd_rec_le table_inv_slotsD assms(1)) (simp add: state_of_def)
  moreover have "table_inv (upd_rec p f t)" using assms(1,2) by (intro table_inv_upd_rec) auto
  ultimately show ?thesis by (auto simp: inv_step_def)
qed

lemma inv_step_start_fail:
  assumes "table_inv t"
  shows "inv_step p t (start_fail p se t)"
proof -
  let ?t1 = "upd_rec p (\<lambda>r. r\<lparr>s_state := StateStopping\<rparr>) t"
  let ?t2 = "emit EventAcquireFailure (slot.truncate (t_heap ?t1 p)) ?t1"
  have 1: "inv_step p t ?t1"
    using assms by (rule inv_step_upd_rec) (auto simp: rec_ok_def keeps_identity_def)
  then have "table_inv ?t1" by (simp add: inv_step_def)
  then have 2: "good_step ?t1 ?t2" by (rule good_step_emit)
  then have "good_step ?t2 (clean p (se_cleaning se) ?t2)"
    by (intro good_step_clean) (simp_all add: good_step_def)
  with 2 have "inv_step p ?t1 (clean p (se_cleaning se) ?t2)"
    by (blast intro: inv_step_good good_step_trans)
  with 1 show ?thesis unfolding start_fail_def Let_def by (rule inv_step_trans)
qed

lemma inv_step_watch:
  "table_inv t \<Longrightarrow> p < t_next t \<Longrightarrow> inv_step q t (t\<lparr>t_watch := p # t_watch t\<rparr>)"
  by (auto simp: inv_step_def table_inv_def slots_ok_def heap_ok_def workers_ok_def
      completions_ok_def watch_ok_def rec_names_ok_def slot_dir_def)

lemma start_step_inv_step:
  "start_step t t1 \<Longrightarrow> inv_step p t1 t' \<Longrightarrow> t_next t \<le> p \<Longrightarrow> start_step t t'"
  unfolding start_step_def inv_step_def evolves_def
  by (elim conjE exE, intro conjI allI impI) (auto intro: rec_evolves_trans dest: less_le_trans)

lemma provisioning_name:
  "provisioning p t \<Longrightarrow>
   provisioning p (upd_rec p (\<lambda>r. r\<lparr>s_runner_name := name, s_jit_path := path r\<rparr>) t)"
  by (simp add: provisioning_def)

lemma inv_step_launch:
  assumes inv: "table_inv t" and pr: "provisioning p t"
  shows "inv_step p t (snd (launch p t0 name se t))"
proof -
  define t1 where "t1 = upd_rec p (\<lambda>r. r\<lparr>s_runner_name := name, s_jit_path := jit_path t (s_id r)\<rparr>) t"
  define t2 where "t2 = run (se_launch se) t1"
  define t3 where "t3 = perform [BackendStart p (spec_of t1 p)] t2"
  have 1: "inv_step p t t1" unfolding t1_def
    using inv by (rule inv_step_upd_rec) (auto simp: rec_ok_def keeps_identity_def)
  then have i1: "table_inv t1" by (simp add: inv_step_def)
  have 2: "good_step t1 t2" unfolding t2_def using i1 by (rule good_step_run)
  then have i2: "table_inv t2" by (rule good_step_invD)
  have "provisioning p t1" using pr unfolding t1_def by (rule provisioning_name)
  then have pr2: "provisioning p t2" unfolding t2_def by (rule provisioning_run [OF i1])
  have t3f: "t_heap t3 = t_heap t2" "t_watch t3 = t_watch t2" "t_opts t3 = t_opts t2" "t_now t3 = t_now t2"
    by (simp_all add: t3_def)
  have i3: "table_inv t3" unfolding t3_def using i2 by (rule table_inv_perform) simp
  then have 3: "good_step t2 t3" by (simp add: good_step_def t3_def)
  have pr3: "provisioning p t3" using pr2 by (simp add: provisioning_def t3_def)
  have s2: "inv_step p t t2" and s3: "inv_step p t t3"
    using 1 2 3 by (blast intro: inv_step_trans inv_step_good)+
  show ?thesis
  proof (cases "se_write_err se")
    case True
    with s2 inv_step_start_fail [OF i2, of p se] show ?thesis
      by (auto simp: launch_def Let_def t1_def t2_def intro: inv_step_trans)
  next
    case False
    have step: "inv_step p t (t5\<lparr>t_watch := p # t_watch t5\<rparr>)"
      if "inv_step p t3 t4" "good_step t4 t5" for t4 t5
    proof -
      have "inv_step p t3 t5" using that by (blast intro: inv_step_trans inv_step_good)
      moreover from this pr3 have "table_inv t5" "p < t_next t5"
        by (auto simp: inv_step_def provisioning_def)
      ultimately show ?thesis using s3 by (blast intro: inv_step_trans inv_step_watch)
    qed
    have busy: "inv_step p t3 (upd_rec p (\<lambda>r. r\<lparr>s_state := StateBusy\<rparr>) t3)"
      using i3 by (rule inv_step_upd_rec) (use pr3 in \<open>auto simp: rec_ok_def keeps_identity_def provisioning_def\<close>)
    have idle: "inv_step p t3 (upd_rec p (\<lambda>r. r\<lparr>s_started_at := m,
        s_state := (if s_state r = StateStarting then StateIdle else s_state r)\<rparr>) t3)" for m
      using i3 by (rule inv_step_upd_rec) (use pr3 in \<open>auto simp: rec_ok_def keeps_identity_def provisioning_def\<close>)
    have em: "good_step t4 (emit ev s t4)" if "inv_step p t3 t4" for t4 ev s
      using that by (simp add: inv_step_def good_step_emit)
    have ob: "good_step t4 (perform [StartObserved d] (emit ev s t4))" if "inv_step p t3 t4" for t4 ev s d
      using em [OF that, of ev s] by (simp add: good_step_def table_inv_perform evolves_def)
    show ?thesis
    proof (cases "se_start se")
      case StartOk
      with False show ?thesis
        using step [OF idle em [OF idle]] step [OF idle ob [OF idle]]
        by (simp add: launch_def Let_def t1_def [symmetric] t2_def [symmetric] t3_def [symmetric])
    next
      case StartNotStarted
      with False s3 inv_step_start_fail [OF i3, of p se] show ?thesis
        by (auto simp: launch_def Let_def t1_def [symmetric] t2_def [symmetric] t3_def [symmetric]
            intro: inv_step_trans)
    next
      case StartUncertain
      with False show ?thesis
        using step [OF busy em [OF busy]]
        by (simp add: launch_def Let_def t1_def [symmetric] t2_def [symmetric] t3_def [symmetric] t3f)
    qed
  qed
qed

lemma fresh_rec_candidate:
  "next_id t = Some i \<Longrightarrow> fresh_rec t (new_slot_rec (candidate_slot se t i) prov)"
  using next_id_fresh [of t i]
  by (simp add: fresh_rec_def rec_ok_def rec_names_ok_def candidate_slot_def)

lemma candidate_state [simp]: "s_state (candidate_slot se t i) = StateStarting" "s_id (candidate_slot se t i) = i"
  by (simp_all add: candidate_slot_def)

text \<open>The whole of \<open>startOne\<close>, on every branch and under every interleaving.\<close>

lemma provisioning_add_rec:
  assumes "table_inv t" "next_id t = Some i"
    and r_def: "r = new_slot_rec (candidate_slot se t i) (t_now t)"
  shows "start_step t (add_rec r t)" "provisioning (t_next t) (add_rec r t)" "s_id r = i"
proof -
  have fr: "fresh_rec t r" unfolding r_def using assms(2) by (rule fresh_rec_candidate)
  show "start_step t (add_rec r t)" using assms(1) fr by (rule start_step_add_rec)
  show "provisioning (t_next t) (add_rec r t)"
    using fr assms(1) add_rec_slots [OF fr] by (auto simp: provisioning_def r_def table_inv_def watch_ok_def)
  show "s_id r = i" by (simp add: r_def)
qed

text \<open>A record being provisioned is owned by no worker, so the failed reservation may drop it.\<close>

lemma good_step_drop:
  assumes inv: "table_inv t" and pr: "provisioning p t" and i: "s_id (t_heap t p) = i"
  shows "good_step t (t\<lparr>t_slots := del_key i (t_slots t)\<rparr>)"
proof (rule good_step_remove [OF inv])
  fix q assume "(i, q) \<in> set (t_slots t)"
  with pr i slots_ok_unique [OF table_inv_slotsD [OF inv]] have "q = p" by (auto simp: provisioning_def)
  with pr inv table_inv_recD [OF inv, of p] show "q \<notin> fst ` set (t_workers t)"
    by (auto simp: provisioning_def table_inv_def workers_ok_def rec_ok_def)
qed

text \<open>Provisioning, from the creation of the slot directory on.\<close>

lemma provision_step:
  assumes inv: "table_inv t" and pr: "provisioning p t"
    and t4_def: "t4 = run as (t\<lparr>t_dirs := d # t_dirs t\<rparr>)"
  shows "good_step t t4" "provisioning p t4"
proof -
  have g: "good_step t (t\<lparr>t_dirs := d # t_dirs t\<rparr>)" using inv by (simp add: good_step_def evolves_heap_same)
  then have i: "table_inv (t\<lparr>t_dirs := d # t_dirs t\<rparr>)" by (rule good_step_invD)
  show "good_step t t4" unfolding t4_def by (rule good_step_trans [OF g good_step_run [OF i]])
  show "provisioning p t4" unfolding t4_def using i
    by (rule provisioning_run) (use pr in \<open>simp add: provisioning_def\<close>)
qed

lemma start_step_reserved:
  assumes s: "start_step t t3" and pr: "provisioning p t3" and le: "t_next t \<le> p" and i: "s_id (t_heap t3 p) = i"
  shows "start_step t (emit ev sl (t3\<lparr>t_slots := del_key i (t_slots t3)\<rparr>))"
    and "start_step t (start_fail p se (run as (t3\<lparr>t_dirs := d # t_dirs t3\<rparr>)))"
    and "start_step t (snd (launch p t0 name se (run as (t3\<lparr>t_dirs := d # t_dirs t3\<rparr>))))"
proof -
  have i3: "table_inv t3" using s by (rule start_step_invD)
  show "start_step t (emit ev sl (t3\<lparr>t_slots := del_key i (t_slots t3)\<rparr>))"
    using s good_step_drop [OF i3 pr i] by (blast intro: start_step_trans2 good_step_emit good_step_invD)
  let ?t4 = "run as (t3\<lparr>t_dirs := d # t_dirs t3\<rparr>)"
  note g4 = provision_step [OF i3 pr refl, of as d]
  have s4: "start_step t ?t4" using s g4(1) by (rule start_step_trans2)
  note i4 = good_step_invD [OF g4(1)]
  show "start_step t (start_fail p se ?t4)" by (rule start_step_inv_step [OF s4 inv_step_start_fail [OF i4] le])
  show "start_step t (snd (launch p t0 name se ?t4))"
    by (rule start_step_inv_step [OF s4 inv_step_launch [OF i4 g4(2)] le])
qed

lemma start_step_start_one:
  assumes inv: "table_inv t"
  shows "start_step t (snd (start_one se t))"
proof -
  define t1 where "t1 = run (se_gated se) t"
  have g1: "good_step t t1" unfolding t1_def using inv by (rule good_step_run)
  then have i1: "table_inv t1" by (rule good_step_invD)
  consider (early) "snd (start_one se t) = t"
      | (hold) ev s where "snd (start_one se t) = emit ev s t"
      | (closed) "snd (start_one se t) = t1"
      | (go) i where "se_allowed se" "se_gate se (active t)" "\<not> t_closed t1" "next_id t1 = Some i"
    by (fastforce simp: start_one_def Let_def t1_def)
  then show ?thesis
  proof cases
    case go
    define p where "p = t_next t1"
    define r where "r = new_slot_rec (candidate_slot se t1 i) (t_now t1)"
    define t2 where "t2 = add_rec r t1"
    define t3 where "t3 = run (se_reserved se) t2"
    note new = provisioning_add_rec [OF i1 go(4) r_def, folded t2_def p_def]
    have s2: "start_step t t2" using g1 new(1) by (rule start_step_trans1)
    then have i2: "table_inv t2" by (rule start_step_invD)
    then have g3: "good_step t2 t3" unfolding t3_def by (rule good_step_run)
    have le: "t_next t \<le> p" using g1 by (simp add: p_def good_step_def evolves_def)
    have "s_id (t_heap t3 p) = i"
      using evolves_recD [OF good_step_evolvesD [OF g3], of p] new(3) by (simp add: rec_evolves_def t2_def p_def)
    moreover have "provisioning p t3" unfolding t3_def using i2 new(2) by (rule provisioning_run)
    ultimately show ?thesis
      using start_step_reserved [OF start_step_trans2 [OF s2 g3] _ le, of i] go
      by (simp add: start_one_def Let_def t1_def [symmetric] p_def [symmetric] r_def [symmetric]
          t2_def [symmetric] t3_def [symmetric] split: option.split)
  qed (use inv g1 in \<open>simp_all add: start_step_good good_step_emit\<close>)
qed

section \<open>The start loop\<close>

lemma ensure_loop_bound:
  assumes "table_inv t"
  shows "table_inv (snd (ensure_loop d ses t)) \<and> evolves t (snd (ensure_loop d ses t)) \<and>
    int (count_live (snd (ensure_loop d ses t))) \<le> max (int (count_live t)) d"
  using assms
proof (induction d ses t rule: ensure_loop.induct)
  case (1 d t)
  then show ?case by simp
next
  case (2 d as se ses t)
  let ?t1 = "run as t"
  have g: "good_step t ?t1" using "2.prems" by (rule good_step_run)
  then have i1: "table_inv ?t1" by (rule good_step_invD)
  show ?case
  proof (cases "t_closed ?t1 \<or> int (count_live ?t1) \<ge> d")
    case True
    with g show ?thesis by (auto simp: Let_def good_step_def)
  next
    case False
    obtain r t2 where so: "start_one se ?t1 = (r, t2)" by fastforce
    have s: "start_step ?t1 t2" using start_step_start_one [OF i1, of se] so by simp
    from g s have "start_step t t2" by (rule start_step_trans1)
    then have e2: "evolves t t2" and i2: "table_inv t2" by (simp_all add: start_step_def)
    have c2: "int (count_live t2) \<le> d" using s False by (simp add: start_step_def)
    show ?thesis
    proof (cases r)
      case None
      with False so e2 i2 c2 show ?thesis by (simp add: Let_def)
    next
      case (Some i)
      with "2.IH" [OF refl _ so [symmetric] Some i2] False
      have IH: "table_inv (snd (ensure_loop d ses t2)) \<and> evolves t2 (snd (ensure_loop d ses t2)) \<and>
        int (count_live (snd (ensure_loop d ses t2))) \<le> max (int (count_live t2)) d" by simp
      with c2 e2 False so Some show ?thesis by (auto simp: Let_def intro: evolves_trans)
    qed
  qed
qed

lemma stop_calls_start_one [simp]: "stop_calls (t_out (snd (start_one se t))) = stop_calls (t_out t)"
  by (simp add: start_one_def launch_def start_fail_def Let_def
      split: option.split start_result.split)

lemma stop_calls_ensure_loop [simp]:
  "stop_calls (t_out (snd (ensure_loop d ses t))) = stop_calls (t_out t)"
proof (induction d ses t rule: ensure_loop.induct)
  case (2 d as se ses t)
  obtain r t2 where so: "start_one se (run as t) = (r, t2)" by fastforce
  then have "stop_calls (t_out t2) = stop_calls (t_out t)"
    by (metis snd_conv stop_calls_start_one stop_calls_run)
  with 2 so show ?case by (cases r) (auto simp: Let_def)
qed simp

end
