(* ===== verification/Slot_Stop.thy ===== *)
theory Slot_Stop
  imports Slot_Start
begin

text \<open>
  Stopping surplus slots, and the two converging handlers \<open>Ensure\<close> and \<open>Shutdown\<close>: the choice of
  candidates, one \<open>Backend.Stop\<close> per candidate and for nothing else, and the bound on the live
  count, whatever the other goroutines do while the mutex is free.
\<close>

section \<open>Candidates\<close>

lemma eligible_state:
  "eligible g t p \<Longrightarrow> s_state (t_heap t p) = StateIdle \<or> s_state (t_heap t p) = StateStarting"
  by (auto simp: eligible_def Let_def split: slot_state.splits)

lemma candidates_distinct: "slots_ok t \<Longrightarrow> distinct (candidates d g t)"
  by (simp add: candidates_def Let_def slots_ok_def)

lemma candidates_mem:
  "p \<in> set (candidates d g t) \<Longrightarrow> eligible g t p \<and> p \<in> snd ` set (t_slots t)"
  by (auto simp: candidates_def Let_def split: if_splits dest!: in_set_takeD)

lemma candidates_length:
  "length (candidates d g t) \<le> nat (int (count_live t) - d)"
  by (simp add: candidates_def Let_def)

lemma length_filter_mono: "(\<And>x. P x \<Longrightarrow> Q x) \<Longrightarrow> length (filter P xs) \<le> length (filter Q xs)"
  by (induction xs) auto

lemma candidates_length_live: "length (candidates d g t) \<le> count_live t"
proof -
  have "length (candidates d g t) \<le> length (filter (eligible g t) (map snd (t_slots t)))"
    by (simp add: candidates_def Let_def)
  also have "\<dots> \<le> count_live t"
    unfolding count_live_alt state_of_def
    by (rule length_filter_mono) (use eligible_state live_simps in metis)
  finally show ?thesis .
qed

lemma candidates_none: "int (count_live t) \<le> d \<Longrightarrow> candidates d g t = []"
  by (simp add: candidates_def Let_def)

section \<open>Marking\<close>

lemma mark_stopping_Nil [simp]: "mark_stopping [] t = t"
  by (simp add: mark_stopping_def)

lemma mark_stopping_Cons:
  "p \<notin> set ps \<Longrightarrow> mark_stopping (p # ps) t = mark_stopping ps (upd_rec p (\<lambda>r. r\<lparr>s_state := StateStopping\<rparr>) t)"
  by (auto simp: mark_stopping_def upd_rec_def fun_eq_iff)

lemma mark_stopping_sel [simp]:
  "t_slots (mark_stopping ps t) = t_slots t" "t_next (mark_stopping ps t) = t_next t"
  "t_out (mark_stopping ps t) = t_out t" "t_opts (mark_stopping ps t) = t_opts t"
  "t_closed (mark_stopping ps t) = t_closed t" "t_now (mark_stopping ps t) = t_now t"
  "s_unit (t_heap (mark_stopping ps t) p) = s_unit (t_heap t p)"
  "r_claimed (t_heap (mark_stopping ps t) p) = r_claimed (t_heap t p)"
  by (simp_all add: mark_stopping_def)

lemma mark_stopping_good:
  assumes "table_inv t" "distinct ps"
    and "\<forall>p \<in> set ps. p \<in> snd ` set (t_slots t) \<and>
      (s_state (t_heap t p) = StateIdle \<or> s_state (t_heap t p) = StateStarting)"
  shows "good_step t (mark_stopping ps t) \<and> count_live (mark_stopping ps t) + length ps = count_live t"
  using assms
proof (induction ps arbitrary: t)
  case (Cons p ps)
  let ?t = "upd_rec p (\<lambda>r. r\<lparr>s_state := StateStopping\<rparr>) t"
  have st: "s_state (t_heap t p) = StateIdle \<or> s_state (t_heap t p) = StateStarting"
    using Cons.prems(3) by simp
  have g: "good_step t ?t"
    using Cons.prems(1) st by (intro good_step_stopping) auto
  have c: "count_live ?t + 1 = count_live t"
    using count_live_upd_rec [OF table_inv_slotsD [OF Cons.prems(1)], of p "\<lambda>r. r\<lparr>s_state := StateStopping\<rparr>"]
      Cons.prems(3) st by (auto simp: state_of_def)
  have "good_step ?t (mark_stopping ps ?t) \<and> count_live (mark_stopping ps ?t) + length ps = count_live ?t"
    using Cons.prems by (intro Cons.IH good_step_invD [OF g]) auto
  with g c Cons.prems(2) show ?case
    by (auto simp: mark_stopping_Cons intro: good_step_trans)
qed simp

lemma mark_stopping_marked:
  assumes "table_inv t" "p \<in> set ps" "p \<in> snd ` set (t_slots t)"
    "s_state (t_heap t p) = StateIdle \<or> s_state (t_heap t p) = StateStarting"
  shows "marked p (mark_stopping ps t)"
proof -
  have "p < t_next t" using slots_ok_snd [OF table_inv_slotsD [OF assms(1)] assms(3)] by simp
  moreover from this have "rec_ok (t_heap t p)" using assms(1) by (rule table_inv_recD [rotated])
  ultimately show ?thesis using assms(2,4) by (auto simp: marked_def rec_ok_def mark_stopping_def)
qed

section \<open>Stopping one candidate\<close>

lemma marked_perform [simp]: "marked p (perform es t) = marked p t"
  by (simp add: marked_def)

lemma marked_emit [simp]: "marked p (emit ev s t) = marked p t"
  by (simp add: marked_def)

lemma marked_clean_begin [simp]: "marked q (clean_begin p t) = marked q t"
  by (simp add: marked_def)

lemma marked_clean:
  "table_inv t \<Longrightarrow> s_state (t_heap t p) = StateStopping \<Longrightarrow> marked q t \<Longrightarrow> marked q (clean p during t)"
  unfolding clean_def
  by (rule marked_run) (auto intro: good_step_invD [OF good_step_clean_begin])

lemma marked_observe_exit_context:
  assumes inv: "table_inv t" and m: "marked q t"
  shows "marked q (observe_exit_context i e between during t)"
proof (cases "observe_exit i e t")
  case (Pair r t1)
  have g: "good_step t t1" and m1: "marked q t1"
    using good_step_observe_exit [OF inv, of i e] marked_observe_exit [OF inv m, of i e] Pair by auto
  show ?thesis
  proof (cases r)
    case None
    with m1 Pair show ?thesis by (simp add: observe_exit_context_def)
  next
    case (Some p)
    have g2: "good_step t1 (run between t1)" using good_step_invD [OF g] by (rule good_step_run)
    have p: "r_cleanup_pending (t_heap t1 p)" "p < t_next t1"
      using observe_exit_stopping [OF inv] Pair Some by blast+
    then have "r_cleanup_pending (t_heap (run between t1) p)" "p < t_next (run between t1)"
      using g2 by (auto simp: good_step_def evolves_def rec_evolves_def)
    with Some Pair g2 show ?thesis
      by (simp add: observe_exit_context_def marked_clean table_inv_pending_stopping
          marked_run [OF good_step_invD [OF g] m1] good_step_invD)
  qed
qed

lemma marked_wait_cleanup: "table_inv t \<Longrightarrow> marked q t \<Longrightarrow> marked q (wait_cleanup p during t)"
  by (simp add: wait_cleanup_def marked_run)

lemma stop_one_step:
  assumes inv: "table_inv t" and m: "marked p t"
    and snap: "s_state snap = StateIdle \<or> s_state snap = StateStarting"
  shows "start_step t (stop_one se p snap t)"
    and "q \<noteq> p \<Longrightarrow> marked q t \<Longrightarrow> marked q (stop_one se p snap t)"
proof -
  define t0 where "t0 = perform [BackendStop (Some p) (s_unit (t_heap t p))] t"
  define t1 where "t1 = run (st_stopping se) t0"
  have i0: "table_inv t0" unfolding t0_def using inv by (rule table_inv_perform) simp
  then have "good_step t t0" by (simp add: good_step_def t0_def)
  moreover have "good_step t0 t1" unfolding t1_def using i0 by (rule good_step_run)
  ultimately have g: "good_step t t1" by (rule good_step_trans)
  then have i1: "table_inv t1" by (rule good_step_invD)
  have m1: "marked r t1" if "marked r t" for r
    unfolding t1_def using i0 that by (intro marked_run) (simp_all add: t0_def)
  let ?restored = "upd_rec p (\<lambda>r. r\<lparr>s_state := s_state snap\<rparr>) t1"
  have restore: "start_step t1 ?restored" if "\<not> r_cleanup_pending (t_heap t1 p)"
  proof -
    have mp: "p < t_next t1" "s_state (t_heap t1 p) = StateStopping" "\<not> r_claimed (t_heap t1 p)"
      using m1 [OF m] by (simp_all add: marked_def)
    have "table_inv ?restored"
      using i1 by (rule table_inv_upd_rec) (use that mp snap in \<open>auto simp: rec_ok_def keeps_identity_def\<close>)
    moreover have "evolves t1 ?restored"
      using that mp snap by (intro evolves_upd_rec) (auto simp: rec_evolves_def)
    moreover have "count_live ?restored \<le> Suc (count_live t1)"
      using count_live_upd_rec [OF table_inv_slotsD [OF i1], of p "\<lambda>r. r\<lparr>s_state := s_state snap\<rparr>"]
      by (auto split: if_splits)
    ultimately show ?thesis by (simp add: start_step_def)
  qed
  let ?t2 = "emit EventStopped snap t1"
  let ?t3 = "observe_exit_context (s_id (t_heap t1 p)) (Some p) (st_between se) (st_cleaning se) ?t2"
  have g2: "good_step t1 ?t2" using i1 by (rule good_step_emit)
  then have g3: "good_step ?t2 ?t3" by (intro good_step_observe_exit_context good_step_invD)
  then have i3: "table_inv ?t3" by (rule good_step_invD)
  have g4: "good_step t1 (wait_cleanup p (st_waiting se) ?t3)"
    using g2 g3 good_step_wait_cleanup [OF i3] by (blast intro: good_step_trans)
  show "start_step t (stop_one se p snap t)"
    using g restore g4
    by (auto simp: stop_one_def Let_def t0_def [symmetric] t1_def [symmetric]
        intro: start_step_trans1 start_step_good good_step_trans)
  show "marked q (stop_one se p snap t)" if "q \<noteq> p" "marked q t"
  proof -
    have "marked q ?restored" using m1 [OF that(2)] that(1) by (simp add: marked_def)
    moreover have "marked q (wait_cleanup p (st_waiting se) ?t3)"
      using i3 by (rule marked_wait_cleanup)
        (intro marked_observe_exit_context good_step_invD [OF g2], simp add: m1 [OF that(2)])
    ultimately show ?thesis using m1 [OF that(2)]
      by (simp add: stop_one_def Let_def t0_def [symmetric] t1_def [symmetric])
  qed
qed

lemma stop_calls_stop_one [simp]:
  "stop_calls (t_out (stop_one se p snap t)) = stop_calls (t_out t) @ [(Some p, s_unit (t_heap t p))]"
  by (simp add: stop_one_def Let_def)

section \<open>Stopping all candidates\<close>

lemma evolves_unit: "evolves t t' \<Longrightarrow> p < t_next t \<Longrightarrow> s_unit (t_heap t' p) = s_unit (t_heap t p)"
  by (simp add: evolves_def rec_evolves_def)

lemma stop_loop_step:
  assumes "table_inv t" "distinct (map fst cs)"
    "\<forall>(p, snap) \<in> set cs. marked p t \<and> (s_state snap = StateIdle \<or> s_state snap = StateStarting)"
  shows "table_inv (stop_loop cs ses t) \<and> evolves t (stop_loop cs ses t) \<and>
    count_live (stop_loop cs ses t) \<le> count_live t + length cs \<and>
    stop_calls (t_out (stop_loop cs ses t)) =
      stop_calls (t_out t) @ map (\<lambda>(p, snap). (Some p, s_unit (t_heap t p))) cs"
  using assms
proof (induction cs arbitrary: ses t)
  case (Cons c cs)
  obtain p snap where c: "c = (p, snap)" by fastforce
  define se where "se = (case ses of [] \<Rightarrow> stop_cancelled | s # _ \<Rightarrow> s)"
  define t1 where "t1 = stop_one se p snap t"
  have loop: "stop_loop (c # cs) ses t = stop_loop cs (tl ses) t1"
    by (cases ses) (simp_all add: c se_def t1_def)
  have m: "marked p t" "s_state snap = StateIdle \<or> s_state snap = StateStarting"
    using Cons.prems(3) c by auto
  note st = stop_one_step [OF Cons.prems(1) m, where se = se, folded t1_def]
  have rest: "\<forall>(q, s) \<in> set cs. marked q t1 \<and> (s_state s = StateIdle \<or> s_state s = StateStarting)"
    using Cons.prems(2,3) st(2) c by force
  have "q < t_next t" if "q \<in> fst ` set cs" for q
    using that Cons.prems(3) by (auto simp: marked_def)
  then have units: "map (\<lambda>(p, snap). (Some p, s_unit (t_heap t1 p))) cs =
      map (\<lambda>(p, snap). (Some p, s_unit (t_heap t p))) cs"
    using evolves_unit [of t t1] st(1) by (force simp: start_step_def)
  have "table_inv (stop_loop cs (tl ses) t1) \<and> evolves t1 (stop_loop cs (tl ses) t1) \<and>
    count_live (stop_loop cs (tl ses) t1) \<le> count_live t1 + length cs \<and>
    stop_calls (t_out (stop_loop cs (tl ses) t1)) =
      stop_calls (t_out t1) @ map (\<lambda>(p, snap). (Some p, s_unit (t_heap t1 p))) cs"
    using Cons.prems(2) c by (intro Cons.IH start_step_invD [OF st(1)] rest) auto
  with st(1) show ?case
    unfolding loop units by (auto simp: start_step_def t1_def c intro: evolves_trans)
qed simp

lemma stop_surplus_step:
  assumes inv: "table_inv t"
  shows "good_step t (stop_surplus d g ses t)"
    and "stop_calls (t_out (stop_surplus d g ses t)) =
      stop_calls (t_out t) @ map (\<lambda>p. (Some p, s_unit (t_heap t p))) (candidates d g t)"
proof -
  let ?ps = "candidates d g t"
  let ?cs = "map (\<lambda>p. (p, slot.truncate (t_heap t p))) ?ps"
  have el: "\<forall>p \<in> set ?ps. p \<in> snd ` set (t_slots t) \<and>
      (s_state (t_heap t p) = StateIdle \<or> s_state (t_heap t p) = StateStarting)"
    using candidates_mem eligible_state by blast
  have dist: "distinct ?ps" using table_inv_slotsD [OF inv] by (rule candidates_distinct)
  note mk = mark_stopping_good [OF inv dist el]
  have "\<forall>(p, snap) \<in> set ?cs. marked p (mark_stopping ?ps t) \<and>
      (s_state snap = StateIdle \<or> s_state snap = StateStarting)"
    using el mark_stopping_marked [OF inv] by (auto simp: slot.defs)
  then have lp: "table_inv (stop_loop ?cs ses (mark_stopping ?ps t)) \<and>
      evolves (mark_stopping ?ps t) (stop_loop ?cs ses (mark_stopping ?ps t)) \<and>
      count_live (stop_loop ?cs ses (mark_stopping ?ps t)) \<le> count_live (mark_stopping ?ps t) + length ?cs \<and>
      stop_calls (t_out (stop_loop ?cs ses (mark_stopping ?ps t))) =
        stop_calls (t_out (mark_stopping ?ps t)) @
        map (\<lambda>(p, snap). (Some p, s_unit (t_heap (mark_stopping ?ps t) p))) ?cs"
    using mk dist by (intro stop_loop_step good_step_invD) (auto simp: comp_def)
  then show "good_step t (stop_surplus d g ses t)"
    using mk by (auto simp: stop_surplus_def Let_def good_step_def intro: evolves_trans)
  show "stop_calls (t_out (stop_surplus d g ses t)) =
      stop_calls (t_out t) @ map (\<lambda>p. (Some p, s_unit (t_heap t p))) ?ps"
    using lp by (simp add: stop_surplus_def Let_def comp_def)
qed

end
