(* ===== verification/Slot_Release.thy ===== *)
theory Slot_Release
  imports Slot_Convergence
begin

text \<open>
  Slot directories are distinct paths. What becomes of one record while the other goroutines work: the table keeps it under its ID until
  a cleanup worker has removed its directory, and a watched busy record stays so until its exit is
  observed. These facts hold for every list of asynchronous steps.
\<close>

section \<open>Slot directories\<close>

lemma split_byte_snoc: "c \<notin> set w \<Longrightarrow> split_byte c (s @ c # w) = split_byte c s @ [w]"
proof (induction s)
  case Nil
  then show ?case by (simp add: split_byte_id)
next
  case (Cons x s)
  then show ?case by (cases "split_byte c s") auto
qed

lemma join_snoc: "ws \<noteq> [] \<Longrightarrow> join (ws @ [w]) sep = join ws sep @ sep @ w"
  by (induction ws sep rule: join.induct) auto

lemma valid_id_chars:
  "valid_id i \<Longrightarrow> i \<noteq> [] \<and> CHR ''/'' \<notin> set i \<and> CHR ''.'' \<notin> set i"
  by (auto simp: valid_id_def list_all_iff is_digit_def less_eq_char_def)

lemma clean_push_valid_id: "valid_id i \<Longrightarrow> clean_push b st i = st @ [i]"
  using valid_id_chars [of i] by auto

text \<open>The directory of a slot is a path that depends on the root alone, followed by the ID.\<close>

lemma join_path_valid_id: "\<exists>P. \<forall>i. valid_id i \<longrightarrow> join_path [r, i] = P @ i"
proof (cases "r = []")
  case True
  have "join_path [r, i] = i" if "valid_id i" for i
  proof -
    note c = valid_id_chars [OF that]
    have "\<not> is_abs i" using c by (cases i) (auto simp: is_abs_def has_prefix_def)
    then have "clean_path i = i"
      using c by (simp add: clean_path_def clean_components_def split_byte_id Let_def
          clean_push_valid_id [OF that] del: clean_push.simps split_byte.simps)
    then show ?thesis using True c by (simp add: join_path_def)
  qed
  then show ?thesis by (intro exI [of _ "[]"]) simp
next
  case False
  define st where "st = clean_components (is_abs r) (split_byte (CHR ''/'') r)"
  define P where "P = (if is_abs r then ''/'' else []) @ (if st = [] then [] else join st ''/'' @ ''/'')"
  have "join_path [r, i] = P @ i" if "valid_id i" for i
  proof -
    note c = valid_id_chars [OF that]
    let ?p = "r @ CHR ''/'' # i"
    have abs: "is_abs ?p = is_abs r" using False by (cases r) (simp_all add: is_abs_def has_prefix_def)
    have sp: "split_byte (CHR ''/'') ?p = split_byte (CHR ''/'') r @ [i]"
      using c by (simp add: split_byte_snoc)
    have cc: "clean_components (is_abs r) (split_byte (CHR ''/'') r @ [i]) = st @ [i]"
      by (simp add: clean_components_def st_def clean_push_valid_id [OF that] del: clean_push.simps)
    have "join (st @ [i]) ''/'' = (if st = [] then [] else join st ''/'' @ ''/'') @ i"
      using join_snoc [of st i "''/''"] by simp
    then have "clean_path ?p = P @ i"
      using c by (simp only: clean_path_def abs sp Let_def cc) (simp add: P_def)
    then show ?thesis using False c by (simp add: join_path_def)
  qed
  then show ?thesis by (intro exI [of _ P]) simp
qed

lemma slot_dir_inj: "valid_id i \<Longrightarrow> valid_id j \<Longrightarrow> slot_dir t i = slot_dir t j \<longleftrightarrow> i = j"
  using join_path_valid_id [of "t_root t"] by (auto simp: slot_dir_def)

lemma slot_dir_cong: "t_root t' = t_root t \<Longrightarrow> slot_dir t' i = slot_dir t i"
  by (simp add: slot_dir_def)

section \<open>The end of a cleanup worker\<close>

lemma clean_end_ok:
  "map_of (t_workers t) p = Some snap \<Longrightarrow> snd (wipe we t snap) \<Longrightarrow>
   map_of (t_slots t) (s_id (t_heap t p)) = Some p \<Longrightarrow>
   t_slots (clean_end p we t) = del_key (s_id (t_heap t p)) (t_slots t) \<and>
   t_out (clean_end p we t) = t_out t @ fst (wipe we t snap) @
     (case r_exit_event (t_heap t p) of
        Some ev \<Rightarrow> (if o_event_hook (t_opts t) then [EmitEvent ev snap] else []) | None \<Rightarrow> [])"
  by (cases "wipe we t snap"; cases "r_exit_event (t_heap t p)") (simp_all add: clean_end_def Let_def)

lemma clean_end_failed:
  "map_of (t_workers t) p = Some snap \<Longrightarrow> \<not> snd (wipe we t snap) \<Longrightarrow>
   t_slots (clean_end p we t) = t_slots t \<and> t_out (clean_end p we t) = t_out t @ fst (wipe we t snap) \<and>
   t_dirs (clean_end p we t) = t_dirs t"
  by (cases "wipe we t snap"; cases "r_exit_event (t_heap t p)") (simp_all add: clean_end_def Let_def)

lemma clean_end_rec:
  "map_of (t_workers t) p = Some snap \<Longrightarrow>
   t_heap (clean_end p we t) p = (t_heap t p)\<lparr>r_cleaning := False, r_clean_done := ClosedChan\<rparr> \<and>
   t_workers (clean_end p we t) = del_key p (t_workers t)"
  by (cases "wipe we t snap"; cases "r_exit_event (t_heap t p)") (simp_all add: clean_end_def Let_def)

lemma workerD:
  assumes "table_inv t" "map_of (t_workers t) p = Some snap"
  shows "p < t_next t" "r_cleaning (t_heap t p)" "r_cleanup_pending (t_heap t p)"
    "s_state (t_heap t p) = StateStopping" "map_of (t_slots t) (s_id (t_heap t p)) = Some p"
    "s_dir snap = s_dir (t_heap t p)" "s_id snap = s_id (t_heap t p)"
proof -
  have "(p, snap) \<in> set (t_workers t)" using assms(2) by (rule map_of_SomeD)
  with assms(1) have w: "p < t_next t \<and> r_cleaning (t_heap t p) \<and> (s_id (t_heap t p), p) \<in> set (t_slots t) \<and>
      s_id snap = s_id (t_heap t p) \<and> s_dir snap = s_dir (t_heap t p)"
    by (auto simp: table_inv_def workers_ok_def)
  with assms(1) have "rec_ok (t_heap t p)" by (simp add: table_inv_recD)
  with w slots_ok_lookup [OF table_inv_slotsD [OF assms(1)]]
  show "p < t_next t" "r_cleaning (t_heap t p)" "r_cleanup_pending (t_heap t p)"
    "s_state (t_heap t p) = StateStopping" "map_of (t_slots t) (s_id (t_heap t p)) = Some p"
    "s_dir snap = s_dir (t_heap t p)" "s_id snap = s_id (t_heap t p)"
    by (auto simp: rec_ok_def)
qed

section \<open>Kept or released\<close>

text \<open>The calls made since the first \<open>n\<close>.\<close>

abbreviation since :: "nat \<Rightarrow> table \<Rightarrow> effect list" where
  "since n t \<equiv> drop n (t_out t)"

definition kept :: "ptr \<Rightarrow> table \<Rightarrow> bool" where
  "kept p t \<longleftrightarrow> map_of (t_slots t) (s_id (t_heap t p)) = Some p"

definition released :: "nat \<Rightarrow> ptr \<Rightarrow> table \<Rightarrow> bool" where
  "released n p t \<longleftrightarrow>
     map_of (t_slots t) (s_id (t_heap t p)) = None \<and> s_dir (t_heap t p) \<notin> set (t_dirs t) \<and>
     RemoveAll (s_dir (t_heap t p)) \<in> set (since n t)"

lemma clean_end_dirs: "set (t_dirs (clean_end p we t)) \<subseteq> set (t_dirs t)"
  by (auto simp: clean_end_def Let_def split: option.split prod.split)

text \<open>No step gives an ID to a record or makes a directory.\<close>

lemma act_shrinks:
  assumes "table_inv t"
  shows "t_next (act a t) = t_next t" "set (t_slots (act a t)) \<subseteq> set (t_slots t)"
    "set (t_dirs (act a t)) \<subseteq> set (t_dirs t)"
proof -
  have d: "t_dirs (snd (observe_exit i e u)) = t_dirs u" for i e u
    by (simp add: observe_exit_def Let_def split: option.split)
  have w: "table_inv (t\<lparr>t_watch := removeAll q (t_watch t)\<rparr>)" for q
    using assms by (rule table_inv_watch)
  have e: "t_slots (watch_exit q t) = t_slots t" "t_next (watch_exit q t) = t_next t"
    "t_dirs (watch_exit q t) = t_dirs t" for q
    using observe_exit_frame [OF w] by (simp_all add: watch_exit_def Let_def d)
  have l: "t_slots (observe_launched i t) = t_slots t" "t_next (observe_launched i t) = t_next t"
    "t_dirs (observe_launched i t) = t_dirs t" for i
    using observe_exit_frame [OF assms] by (simp_all add: observe_launched_def d split: option.split)
  have "t_next (act a t) = t_next t \<and> set (t_slots (act a t)) \<subseteq> set (t_slots t) \<and>
    set (t_dirs (act a t)) \<subseteq> set (t_dirs t)"
  proof (cases a)
    case (AMarkBusy i)
    then show ?thesis by (simp add: mark_busy_def split: option.split)
  next
    case (AClaim job)
    then show ?thesis by (simp add: claim_def split: option.split)
  next
    case (AMarkResult runner result)
    then show ?thesis by (simp add: mark_result_def split: option.split)
  next
    case (ACleanEnd q we)
    then show ?thesis using clean_end_slots(1) [of q we t] clean_end_dirs by simp
  qed (simp_all add: e l set_desired_def store_sample_def close_table_def)
  then show "t_next (act a t) = t_next t" "set (t_slots (act a t)) \<subseteq> set (t_slots t)"
    "set (t_dirs (act a t)) \<subseteq> set (t_dirs t)" by auto
qed

lemma rec_evolves_act:
  "table_inv t \<Longrightarrow> p < t_next t \<Longrightarrow> rec_evolves (t_heap t p) (t_heap (act a t) p)"
  using evolves_recD [OF good_step_evolvesD [OF good_step_act]] .

lemma out_act: "table_inv t \<Longrightarrow> \<exists>es. t_out (act a t) = t_out t @ es"
  using good_step_evolvesD [OF good_step_act, of t a] by (simp add: evolves_def)

lemma identity_act:
  "table_inv t \<Longrightarrow> p < t_next t \<Longrightarrow>
   s_id (t_heap (act a t) p) = s_id (t_heap t p) \<and> s_dir (t_heap (act a t) p) = s_dir (t_heap t p) \<and>
   s_unit (t_heap (act a t) p) = s_unit (t_heap t p)"
  using rec_evolves_act [of t p a] by (simp add: rec_evolves_def)

lemma in_since_act:
  "table_inv t \<Longrightarrow> e \<in> set (since n t) \<Longrightarrow> e \<in> set (since n (act a t))"
  using out_act [of t a] by auto

lemma lookup_reorder:
  assumes "table_inv t"
  shows "map_of (t_slots (act (AReorder xs) t)) j = map_of (t_slots t) j"
proof -
  have "slots_ok (act (AReorder xs) t)" "slots_ok t"
    using assms by (blast intro: table_inv_slotsD good_step_invD [OF good_step_act])+
  note l = this [THEN slots_ok_lookup]
  have "set (t_slots (act (AReorder xs) t)) = set (t_slots t)" by simp
  with l show ?thesis by (cases "map_of (t_slots t) j") (metis not_Some_eq, metis)
qed

text \<open>Only a worker of its own frees the ID of a record, once it has removed the directory.\<close>

lemma kept_clean_end:
  assumes "table_inv t" "kept p t" "p < t_next t" "n \<le> length (t_out t)"
  shows "kept p (clean_end q we t) \<and> (s_dir (t_heap t p) \<in> set (t_dirs t) \<longrightarrow> s_dir (t_heap t p) \<in> set (t_dirs (clean_end q we t))) \<or>
    released n p (clean_end q we t)"
proof (cases "map_of (t_workers t) q")
  case None
  with assms(2) show ?thesis by (simp add: clean_end_def)
next
  case (Some snap)
  note w = workerD [OF assms(1) Some]
  have h: "s_id (t_heap (clean_end q we t) p) = s_id (t_heap t p)"
    "s_dir (t_heap (clean_end q we t) p) = s_dir (t_heap t p)"
    using identity_act [OF assms(1,3), of "ACleanEnd q we"] by simp_all
  show ?thesis
  proof (cases "snd (wipe we t snap)")
    case False
    with clean_end_failed [OF Some False] assms(2) h show ?thesis by (simp add: kept_def)
  next
    case True
    note c = clean_end_ok [OF Some True w(5)]
    have dirs: "t_dirs (clean_end q we t) = removeAll (s_dir (t_heap t q)) (t_dirs t)"
      using Some True w(6) by (cases "wipe we t snap") (simp add: clean_end_def Let_def split: option.split)
    have ra: "RemoveAll (s_dir (t_heap t q)) \<in> set (fst (wipe we t snap))"
      using True w(6) by (auto simp: wipe_def Let_def split: if_splits)
    show ?thesis
    proof (cases "q = p")
      case True
      with c dirs ra h assms(4) show ?thesis by (auto simp: released_def map_of_del_key)
    next
      case False
      have "s_id (t_heap t q) \<noteq> s_id (t_heap t p)" using w(5) assms(2) False by (auto simp: kept_def)
      moreover have "rec_names_ok t (t_heap t q)" "rec_names_ok t (t_heap t p)"
        using assms(1,3) w(1) by (simp_all add: table_inv_def heap_ok_def)
      ultimately have "s_dir (t_heap t q) \<noteq> s_dir (t_heap t p)"
        by (auto simp: rec_names_ok_def slot_dir_inj)
      with \<open>s_id (t_heap t q) \<noteq> s_id (t_heap t p)\<close> c dirs h assms(2) show ?thesis
        by (simp add: kept_def map_of_del_key)
    qed
  qed
qed

lemma kept_act:
  assumes inv: "table_inv t" and k: "kept p t" "p < t_next t" "n \<le> length (t_out t)"
  shows "kept p (act a t) \<and> (s_dir (t_heap t p) \<in> set (t_dirs t) \<longrightarrow> s_dir (t_heap t p) \<in> set (t_dirs (act a t))) \<or>
    released n p (act a t)"
proof -
  note i = identity_act [OF inv k(2), of a]
  have same: ?thesis if "t_slots (act a t) = t_slots t" "t_dirs (act a t) = t_dirs t"
    using that i k(1) by (simp add: kept_def)
  have d: "t_dirs (snd (observe_exit i e u)) = t_dirs u" for i e u
    by (simp add: observe_exit_def Let_def split: option.split)
  have w: "table_inv (t\<lparr>t_watch := removeAll q (t_watch t)\<rparr>)" for q
    using inv by (rule table_inv_watch)
  show ?thesis
  proof (cases a)
    case (AMarkBusy i)
    then show ?thesis by (intro same) (simp_all add: mark_busy_def split: option.split)
  next
    case (AClaim job)
    then show ?thesis by (intro same) (simp_all add: claim_def split: option.split)
  next
    case (AMarkResult runner result)
    then show ?thesis by (intro same) (simp_all add: mark_result_def split: option.split)
  next
    case (AExit q)
    then show ?thesis using observe_exit_frame [OF w]
      by (intro same) (simp_all add: watch_exit_def Let_def d)
  next
    case (AObserveExit i)
    then show ?thesis using observe_exit_frame [OF inv]
      by (intro same) (simp_all add: observe_launched_def d split: option.split)
  next
    case (ACleanEnd q we)
    with kept_clean_end [OF inv k, of q we] show ?thesis by simp
  next
    case (AReorder xs)
    with k(1) lookup_reorder [OF inv] show ?thesis by (simp add: kept_def)
  qed (rule same; simp add: set_desired_def store_sample_def close_table_def)+
qed

lemma released_act:
  assumes "table_inv t" "released n p t" "p < t_next t"
  shows "released n p (act a t)"
proof -
  have "s_id (t_heap t p) \<notin> fst ` set (t_slots t)"
    using assms(2) by (simp add: released_def map_of_eq_None_iff)
  with act_shrinks(2) [OF assms(1), of a] have "map_of (t_slots (act a t)) (s_id (t_heap t p)) = None"
    by (auto simp: map_of_eq_None_iff)
  with assms act_shrinks(3) [OF assms(1), of a] in_since_act [OF assms(1)] identity_act [OF assms(1,3), of a]
  show ?thesis by (auto simp: released_def)
qed

text \<open>A record the table keeps is kept, with its directory, or released, whatever happens.\<close>

definition settled :: "nat \<Rightarrow> ptr \<Rightarrow> table \<Rightarrow> bool" where
  "settled n p t \<longleftrightarrow> p < t_next t \<and> n \<le> length (t_out t) \<and> (kept p t \<or> released n p t)"

lemma settled_act: "table_inv t \<Longrightarrow> settled n p t \<Longrightarrow> settled n p (act a t)"
  using kept_act [of t p n a] released_act [of t n p a] out_act [of t a] act_shrinks(1) [of t a]
  by (auto simp: settled_def)

lemma settled_run: "table_inv t \<Longrightarrow> settled n p t \<Longrightarrow> settled n p (run as t)"
  by (induction as arbitrary: t) (simp_all add: settled_act good_step_invD [OF good_step_act])

lemma released_run: "table_inv t \<Longrightarrow> released n p t \<Longrightarrow> p < t_next t \<Longrightarrow> released n p (run as t)"
  by (induction as arbitrary: t) (simp_all add: released_act good_step_invD [OF good_step_act] act_shrinks(1))

lemma run_shrinks:
  "table_inv t \<Longrightarrow> t_next (run as t) = t_next t"
  "table_inv t \<Longrightarrow> set (t_slots (run as t)) \<subseteq> set (t_slots t)"
proof (induction as arbitrary: t)
  case (Cons a as)
  have inv: "table_inv (act a t)" if "table_inv t" for t using that by (rule good_step_invD [OF good_step_act])
  { case 1 then show ?case using Cons.IH(1) [OF inv] act_shrinks(1) by simp }
  { case 2 then show ?case using Cons.IH(2) [OF inv] act_shrinks(2) by (simp, blast) }
qed simp_all

lemma dir_kept_run:
  "table_inv t \<Longrightarrow> settled n p t \<Longrightarrow> s_dir (t_heap t p) \<in> set (t_dirs t) \<Longrightarrow>
   s_dir (t_heap (run as t) p) \<in> set (t_dirs (run as t)) \<or> released n p (run as t)"
proof (induction as arbitrary: t)
  case (Cons a as)
  have inv: "table_inv (act a t)" using Cons.prems(1) by (rule good_step_invD [OF good_step_act])
  have p: "p < t_next t" "p < t_next (act a t)" "n \<le> length (t_out t)" "kept p t"
    using Cons.prems act_shrinks(1) by (auto simp: settled_def released_def)
  note s = settled_act [OF Cons.prems(1,2), of a]
  from kept_act [OF Cons.prems(1) p(4,1,3), of a] show ?case
  proof
    assume "released n p (act a t)"
    with released_run [OF inv _ p(2)] show ?thesis by simp
  next
    assume "kept p (act a t) \<and> (s_dir (t_heap t p) \<in> set (t_dirs t) \<longrightarrow> s_dir (t_heap t p) \<in> set (t_dirs (act a t)))"
    with Cons.IH [OF inv s] Cons.prems(3) identity_act [OF Cons.prems(1) p(1), of a] show ?thesis by simp
  qed
qed simp

text \<open>A record that is being provisioned keeps its directory.\<close>

lemma provisioning_dir_run:
  assumes "table_inv t" "provisioning p t" "s_dir (t_heap t p) \<in> set (t_dirs t)"
  shows "s_dir (t_heap (run as t) p) \<in> set (t_dirs (run as t))"
proof -
  have "settled 0 p t"
    using assms(1,2) by (auto simp: provisioning_def settled_def kept_def slots_ok_lookup table_inv_slotsD)
  moreover have "\<not> released 0 p (run as t)"
    using provisioning_run [OF assms(1,2), of as]
    by (force simp: provisioning_def released_def map_of_eq_None_iff)
  ultimately show ?thesis using dir_kept_run [OF assms(1) _ assms(3)] by blast
qed

section \<open>A worker that succeeds\<close>

text \<open>A worker whose contexts have not ended and whose calls do not fail.\<close>

definition wipe_succeeds :: "wipe_env \<Rightarrow> bool" where
  "wipe_succeeds we \<longleftrightarrow>
     \<not> we_ctx1 we \<and> \<not> we_ctx2 we \<and> \<not> we_ctx3 we \<and> \<not> we_jit_err we \<and> \<not> we_remove_err we"

lemma wipe_succeeds_wipe: "wipe_succeeds we \<Longrightarrow> snd (wipe we t snap)"
  by (simp add: wipe_succeeds_def wipe_def Let_def)

text \<open>\<open>clean\<close> on a kept record: the record is kept or released afterwards, and it is released when
  the worker ends well while \<open>clean\<close> waits for it.\<close>

lemma clean_settles:
  assumes inv: "table_inv t" and st: "s_state (t_heap t p) = StateStopping" and k: "kept p t"
    and n: "n \<le> length (t_out t)" "p < t_next t"
  shows "settled n p (clean p during t)" "r_cleanup_pending (t_heap (clean p during t) p)"
    "s_dir (t_heap t p) \<in> set (t_dirs t) \<Longrightarrow>
       s_dir (t_heap (clean p during t) p) \<in> set (t_dirs (clean p during t)) \<or> released n p (clean p during t)"
    "during = ACleanEnd p we # as \<Longrightarrow> wipe_succeeds we \<Longrightarrow> released n p (clean p during t)"
proof -
  let ?b = "clean_begin p t"
  have g: "good_step t ?b" using inv st by (rule good_step_clean_begin)
  then have ib: "table_inv ?b" by (rule good_step_invD)
  have id: "s_dir (t_heap ?b p) = s_dir (t_heap t p)"
    using evolves_recD [OF good_step_evolvesD [OF g] n(2)] by (simp add: rec_evolves_def)
  have kb: "kept p ?b" using k by (simp add: kept_def)
  then have sb: "settled n p ?b" using n by (simp add: settled_def)
  have c: "r_cleaning (t_heap ?b p)" "r_cleanup_pending (t_heap ?b p)"
    using k inv n(2) table_inv_recD [OF inv n(2)] by (auto simp: clean_begin_def Let_def kept_def rec_ok_def)
  show "settled n p (clean p during t)" unfolding clean_def using ib sb by (rule settled_run)
  show "r_cleanup_pending (t_heap (clean p during t) p)"
    using evolves_recD [OF good_step_evolvesD [OF good_step_run [OF ib]], of p during] c(2) n(2)
    by (simp add: clean_def rec_evolves_def)
  show "s_dir (t_heap t p) \<in> set (t_dirs t) \<Longrightarrow>
       s_dir (t_heap (clean p during t) p) \<in> set (t_dirs (clean p during t)) \<or> released n p (clean p during t)"
    unfolding clean_def using dir_kept_run [OF ib sb] id by simp
  show "released n p (clean p during t)" if d: "during = ACleanEnd p we # as" "wipe_succeeds we"
  proof -
    obtain snap where w: "map_of (t_workers ?b) p = Some snap"
      using ib c(1) n(2) by (fastforce simp: table_inv_def workers_ok_def dest!: weak_map_of_SomeI)
    have "\<not> kept p (clean_end p we ?b)"
      using clean_end_ok [OF w wipe_succeeds_wipe [OF d(2)] workerD(5) [OF ib w]]
      by (simp add: kept_def map_of_del_key)
    with kept_clean_end [OF ib kb, of n p we] n have "released n p (clean_end p we ?b)" by simp
    then have "released n p (run as (clean_end p we ?b))"
      using released_run [of "clean_end p we ?b"] good_step_invD [OF good_step_clean_end [OF ib]] n(2) by simp
    with d show ?thesis by (simp add: clean_def)
  qed
qed

section \<open>Watched busy records\<close>

definition minded :: "ptr \<Rightarrow> table \<Rightarrow> bool" where
  "minded p t \<longleftrightarrow>
     p < t_next t \<and> kept p t \<and> p \<in> set (t_watch t) \<and> s_state (t_heap t p) = StateBusy \<and>
     \<not> r_cleanup_pending (t_heap t p)"

text \<open>Only the observation of its exit takes a watched busy record out of this state.\<close>

lemma minded_act:
  assumes inv: "table_inv t" and m: "minded p t"
    and a: "a \<noteq> AExit p" "a \<noteq> AObserveExit (s_id (t_heap t p))"
  shows "minded p (act a t)"
proof -
  show ?thesis
  proof (cases a)
    case (AExit q)
    show ?thesis
    proof (cases "t_closed t \<or> q \<notin> set (t_watch t)")
      case True
      with m show ?thesis by (simp add: AExit watch_exit_def)
    next
      case False
      let ?t = "t\<lparr>t_watch := removeAll q (t_watch t)\<rparr>"
      have inv': "table_inv ?t" using inv by (rule table_inv_watch)
      obtain r t' where o: "observe_exit (s_id (t_heap t q)) (Some q) ?t = (r, t')" by fastforce
      have "t_heap t' p = t_heap t p" using observe_exit_expected [OF inv' o, of p] a(1) AExit by auto
      with m False o a(1) AExit show ?thesis
        using observe_exit_frame [OF inv', of "s_id (t_heap t q)" "Some q"]
        by (auto simp: watch_exit_def Let_def minded_def kept_def)
    qed
  next
    case (AObserveExit j)
    have "minded p (snd (observe_exit j None t))"
      if mq: "map_of (t_slots t) j = Some q" for q
    proof -
      have "p \<noteq> q" using slots_ok_ptr [OF table_inv_slotsD [OF inv] mq] a(2) AObserveExit by auto
      obtain r t' where o: "observe_exit j (Some q) t = (r, t')" by fastforce
      then have "t_heap t' p = t_heap t p" using observe_exit_expected [OF inv _ \<open>p \<noteq> q\<close>] by blast
      with m o show ?thesis
        using observe_exit_frame [OF inv, of j "Some q"]
        by (simp add: observe_exit_named [OF mq] minded_def kept_def)
    qed
    with m show ?thesis by (simp add: AObserveExit observe_launched_def split: option.split)
  next
    case (ACleanBegin q)
    with m show ?thesis by (cases "q = p") (auto simp: minded_def kept_def)
  next
    case (ACleanEnd q we)
    show ?thesis
    proof (cases "map_of (t_workers t) q")
      case None
      with m show ?thesis by (simp add: ACleanEnd clean_end_def)
    next
      case (Some snap)
      note w = workerD [OF inv Some]
      with m have "p \<noteq> q" by (auto simp: minded_def)
      with w(5) m have "s_id (t_heap t p) \<noteq> s_id (t_heap t q)" by (auto simp: minded_def kept_def)
      with \<open>p \<noteq> q\<close> m have "map_of (t_slots (clean_end q we t)) (s_id (t_heap t p)) = Some p"
        by (auto simp: clean_end_def Let_def minded_def kept_def map_of_del_key split: option.split prod.split)
      with \<open>p \<noteq> q\<close> m show ?thesis by (simp add: ACleanEnd minded_def kept_def)
    qed
  next
    case (AReorder xs)
    with m lookup_reorder [OF inv] show ?thesis by (simp add: minded_def kept_def)
  qed (use m in \<open>auto simp: minded_def kept_def mark_busy_def claim_def claim_rec_def mark_result_def
      store_sample_def set_desired_def close_table_def state_of_def split: option.split\<close>)
qed

text \<open>The observation of its exit does.\<close>

lemma observed_pending:
  assumes inv: "table_inv t" and m: "minded p t" "a = AExit p \<or> a = AObserveExit (s_id (t_heap t p))"
  shows "minded p (act a t) \<or> r_cleanup_pending (t_heap (act a t) p)"
proof -
  have p: "map_of (t_slots t) (s_id (t_heap t p)) = Some p" "p \<in> set (t_watch t)" "\<not> r_cleanup_pending (t_heap t p)"
    "s_state (t_heap t p) = StateBusy" "p < t_next t"
    using m by (auto simp: minded_def kept_def)
  have c: "\<not> r_cleaning (t_heap t p)" using table_inv_recD [OF inv p(5)] p(3) by (auto simp: rec_ok_def)
  from m(2) show ?thesis
  proof
    assume "a = AExit p"
    with m p c show ?thesis
      by (simp add: watch_exit_def observe_exit_def exit_rec_def Let_def)
  next
    assume "a = AObserveExit (s_id (t_heap t p))"
    with p c show ?thesis
      by (simp add: observe_launched_def observe_exit_def exit_rec_def Let_def)
  qed
qed

end
