(* ===== verification/Slot_Adopt.thy ===== *)
theory Slot_Adopt
  imports Slot_Stop Slot_Release
begin

text \<open>
  Boot adoption: the invariant on every path, the classification of what is found on disk, and the
  units \<open>Adopt\<close> stops, which are those of this namespace that have no slot directory.
\<close>

section \<open>The invariant\<close>

text \<open>Adoption adds records, so it may raise the live count; it keeps everything else.\<close>

definition grow_step :: "table \<Rightarrow> table \<Rightarrow> bool" where
  "grow_step t t' \<longleftrightarrow> table_inv t' \<and> evolves t t'"

lemma grow_step_refl: "table_inv t \<Longrightarrow> grow_step t t"
  by (simp add: grow_step_def)

lemma grow_step_trans: "grow_step t t' \<Longrightarrow> grow_step t' t'' \<Longrightarrow> grow_step t t''"
  by (auto simp: grow_step_def intro: evolves_trans)

lemma grow_step_good: "good_step t t' \<Longrightarrow> grow_step t t'"
  by (simp add: grow_step_def good_step_def)

lemma grow_step_invD: "grow_step t t' \<Longrightarrow> table_inv t'"
  by (simp add: grow_step_def)

lemma adopted_slot_sel [simp]:
  "s_id (adopted_slot ae t i b) = i" "s_dir (adopted_slot ae t i b) = slot_dir t i"
  "s_pool (adopted_slot ae t i b) = o_namespace (t_opts t)"
  "s_unit (adopted_slot ae t i b) = unit_name (o_namespace (t_opts t)) i"
  "s_state (adopted_slot ae t i b) = (if b then StateBusy else StateStopping)"
  "s_runner_name (adopted_slot ae t i b) = ae_runner_name ae (slot_dir t i)"
  by (simp_all add: adopted_slot_def)

lemma fresh_rec_adopted:
  "valid_id i \<Longrightarrow> map_of (t_slots t) i = None \<Longrightarrow> fresh_rec t (new_slot_rec (adopted_slot ae t i b) 0)"
  by (auto simp: fresh_rec_def rec_ok_def rec_names_ok_def)

lemma grow_step_add_rec: "table_inv t \<Longrightarrow> fresh_rec t r \<Longrightarrow> grow_step t (add_rec r t)"
  by (simp add: grow_step_def table_inv_add_rec)

lemma grow_step_adopt_running:
  assumes "table_inv t" "valid_id i" "map_of (t_slots t) i = None"
  shows "grow_step t (adopt_running ae i t)"
proof -
  let ?t1 = "add_rec (new_slot_rec (adopted_slot ae t i True) 0) t"
  have g: "grow_step t ?t1" using assms by (intro grow_step_add_rec fresh_rec_adopted)
  then have "inv_step q ?t1 (?t1\<lparr>t_watch := t_next t # t_watch ?t1\<rparr>)" for q
    by (intro inv_step_watch grow_step_invD) simp_all
  then have "table_inv (?t1\<lparr>t_watch := t_next t # t_watch ?t1\<rparr>)" by (simp add: inv_step_def)
  with g show ?thesis by (simp add: adopt_running_def Let_def grow_step_def evolves_def)
qed

lemma grow_step_adopt_orphan:
  assumes "table_inv t" "valid_id i" "map_of (t_slots t) i = None"
  shows "grow_step t (adopt_orphan ae i t)"
proof -
  let ?t1 = "add_rec (new_slot_rec (adopted_slot ae t i False) 0) t"
  have g: "grow_step t ?t1" using assms by (intro grow_step_add_rec fresh_rec_adopted)
  then have "good_step ?t1 (clean (t_next t) (ae_during ae i) ?t1)"
    by (intro good_step_clean grow_step_invD) simp_all
  with g show ?thesis by (auto simp: adopt_orphan_def intro: grow_step_trans grow_step_good)
qed

lemma grow_step_adopt_dirs:
  "table_inv t \<Longrightarrow> grow_step t (snd (adopt_dirs ae units n es t))"
proof (induction ae units n es t rule: adopt_dirs.induct)
  case (3 ae units n name is_dir es t)
  let ?unit = "unit_name (o_namespace (t_opts t)) name"
  consider (err) "\<not> is_dir" "valid_id name" | (skip) "\<not> is_dir \<or> map_of (t_slots t) name \<noteq> None" "\<not> (\<not> is_dir \<and> valid_id name)"
    | (bad) "is_dir" "\<not> valid_id name"
    | (running) "is_dir" "valid_id name" "map_of (t_slots t) name = None" "?unit \<in> set units"
    | (orphan) "is_dir" "valid_id name" "map_of (t_slots t) name = None" "?unit \<notin> set units"
    by blast
  then show ?case
  proof cases
    case running
    note g = grow_step_adopt_running [OF "3.prems" running(2,3), of ae]
    with "3.IH"(4) running show ?thesis
      by (auto intro: grow_step_trans [OF g] dest: grow_step_invD)
  next
    case orphan
    note g = grow_step_adopt_orphan [OF "3.prems" orphan(2,3), of ae]
    with "3.IH"(5) orphan show ?thesis
      by (auto intro: grow_step_trans [OF g] dest: grow_step_invD)
  qed (use 3 in \<open>auto simp: grow_step_refl\<close>)
qed (auto simp: grow_step_refl)

lemma grow_step_adopt_units:
  "table_inv t \<Longrightarrow> grow_step t (snd (adopt_units ae n us t))"
proof (induction ae n us t rule: adopt_units.induct)
  case (3 ae n u us t)
  let ?t1 = "perform [BackendStop None u] t"
  have i1: "table_inv ?t1" using "3.prems" by (rule table_inv_perform) simp
  then have g: "grow_step t ?t1" by (simp add: grow_step_def)
  show ?case
  proof (cases "id_from_unit (o_namespace (t_opts t)) u")
    case None
    with 3 show ?thesis by simp
  next
    case (Some i)
    show ?thesis
    proof (cases "map_of (t_slots t) i")
      case None
      with 3 Some g i1 show ?thesis
        by (cases "ae_lstat ae (slot_dir t i)")
          (auto simp: Let_def grow_step_refl intro: grow_step_trans)
    next
      case (Some p)
      with 3 \<open>id_from_unit _ u = Some i\<close> show ?thesis by simp
    qed
  qed
qed (auto simp: grow_step_refl)

lemma grow_step_adopt:
  assumes "table_inv t"
  shows "grow_step t (snd (adopt ae units n t))"
proof (cases "t_closed t \<or> n < length units \<or> ae_entries ae = None")
  case True
  with assms show ?thesis by (auto simp: adopt_def grow_step_refl)
next
  case False
  then obtain es where es: "ae_entries ae = Some es" by auto
  obtain r t1 where d: "adopt_dirs ae units (n - length units) es t = (r, t1)" by fastforce
  have g: "grow_step t t1" using grow_step_adopt_dirs [OF assms, of ae units "n - length units" es] d by simp
  show ?thesis
  proof (cases r)
    case (Inl e)
    with False es d g show ?thesis by (simp add: adopt_def)
  next
    case (Inr m)
    obtain r2 t2 where u: "adopt_units ae m units t1 = (r2, t2)" by fastforce
    have "grow_step t1 t2" using grow_step_adopt_units [OF grow_step_invD [OF g], of ae m units] u by simp
    with False es d g u Inr show ?thesis
      by (auto simp: adopt_def intro: grow_step_trans split: sum.split)
  qed
qed

section \<open>What is stopped\<close>

lemma stop_calls_adopt_dirs [simp]:
  "stop_calls (t_out (snd (adopt_dirs ae units n es t))) = stop_calls (t_out t)"
  by (induction ae units n es t rule: adopt_dirs.induct)
    (auto simp: adopt_running_def adopt_orphan_def Let_def)

text \<open>A unit to stop: a unit of this namespace with a valid slot ID, no record and no directory.\<close>

definition dirless :: "adopt_env \<Rightarrow> table \<Rightarrow> string \<Rightarrow> bool" where
  "dirless ae t u =
     (case id_from_unit (o_namespace (t_opts t)) u of
        None \<Rightarrow> False
      | Some i \<Rightarrow> map_of (t_slots t) i = None \<and> ae_lstat ae (slot_dir t i) = LstatNotExist)"

lemma dirless_iff:
  "id_from_unit (o_namespace (t_opts t)) u = Some i \<Longrightarrow>
   dirless ae t u \<longleftrightarrow> map_of (t_slots t) i = None \<and> ae_lstat ae (slot_dir t i) = LstatNotExist"
  by (simp add: dirless_def)

lemma dirless_other: "id_from_unit (o_namespace (t_opts t)) u = None \<Longrightarrow> \<not> dirless ae t u"
  by (simp add: dirless_def)

lemma dirless_known:
  "id_from_unit (o_namespace (t_opts t)) u = Some i \<Longrightarrow> map_of (t_slots t) i \<noteq> None \<Longrightarrow> \<not> dirless ae t u"
  by (simp add: dirless_def)

lemma dirless_perform [simp]: "dirless ae (perform es t) = dirless ae t"
  by (simp add: dirless_def slot_dir_def fun_eq_iff split: option.split)

definition adopt_stops :: "adopt_env \<Rightarrow> table \<Rightarrow> string list \<Rightarrow> adopt_error + nat \<Rightarrow> table \<Rightarrow> string list \<Rightarrow> bool" where
  "adopt_stops ae t us r t' ss \<longleftrightarrow>
     stop_calls (t_out t') = stop_calls (t_out t) @ map (Pair None) ss \<and>
     (\<exists>k. ss = filter (dirless ae t) (take k us)) \<and>
     ((\<exists>m. r = Inr m) \<longrightarrow> ss = filter (dirless ae t) us) \<and>
     t_slots t' = t_slots t \<and> t_heap t' = t_heap t"

lemma adopt_stops_skip:
  assumes "\<not> dirless ae t u" "adopt_stops ae t us r t' ss"
  shows "adopt_stops ae t (u # us) r t' ss"
proof -
  from assms(2) obtain k where "ss = filter (dirless ae t) (take k us)"
    by (auto simp: adopt_stops_def)
  with assms(1) have "ss = filter (dirless ae t) (take (Suc k) (u # us))" by simp
  with assms show ?thesis unfolding adopt_stops_def by (simp, blast)
qed

lemma adopt_stops_stop:
  assumes "dirless ae t u" "adopt_stops ae (perform [BackendStop None u] t) us r t' ss"
  shows "adopt_stops ae t (u # us) r t' (u # ss)"
proof -
  from assms(2) obtain k where "ss = filter (dirless ae t) (take k us)"
    by (auto simp: adopt_stops_def)
  with assms(1) have "u # ss = filter (dirless ae t) (take (Suc k) (u # us))" by simp
  with assms show ?thesis unfolding adopt_stops_def by (simp, blast)
qed

lemma adopt_stops_Nil:
  "(\<forall>m. r \<noteq> Inr m) \<or> us = [] \<Longrightarrow> adopt_stops ae t us r t []"
  by (auto simp: adopt_stops_def intro!: exI [of _ 0])

lemma adopt_units_stops:
  "adopt_units ae n us t = (r, t') \<Longrightarrow> \<exists>ss. adopt_stops ae t us r t' ss"
proof (induction ae n us t arbitrary: r t' rule: adopt_units.induct)
  case (1 ae n t)
  then have "t' = t" by simp
  then show ?case using adopt_stops_Nil [of r "[]" ae t] by blast
next
  case (2 ae u us t)
  then have "t' = t" "\<forall>m. r \<noteq> Inr m" by auto
  then show ?case using adopt_stops_Nil [of r "u # us" ae t] by blast
next
  case (3 ae n u us t)
  let ?id = "id_from_unit (o_namespace (t_opts t)) u"
  consider (other) "?id = None"
    | (known) i where "?id = Some i" "map_of (t_slots t) i \<noteq> None"
    | (new) i where "?id = Some i" "map_of (t_slots t) i = None"
    by (cases ?id) auto
  then show ?case
  proof cases
    case other
    with "3.prems" have "adopt_units ae n us t = (r, t')" by simp
    with "3.IH"(1) other obtain ss where "adopt_stops ae t us r t' ss" by blast
    with other show ?thesis by (blast intro: adopt_stops_skip [rotated] dest: dirless_other)
  next
    case known
    with "3.prems" have "adopt_units ae n us t = (r, t')" by simp
    with "3.IH"(2) known obtain ss where "adopt_stops ae t us r t' ss" by blast
    with known show ?thesis by (blast intro: adopt_stops_skip [rotated] dest: dirless_known)
  next
    case new
    show ?thesis
    proof (cases "ae_lstat ae (slot_dir t i)")
      case LstatDir
      with new "3.prems" have "adopt_units ae n us t = (r, t')" by simp
      with "3.IH"(3) new LstatDir obtain ss where "adopt_stops ae t us r t' ss" by blast
      with new LstatDir show ?thesis by (metis adopt_stops_skip dirless_iff lstat_result.distinct(3))
    next
      case LstatNotExist
      with new have d: "dirless ae t u" by (simp add: dirless_def)
      show ?thesis
      proof (cases "ae_stop_err ae u")
        case True
        with "3.prems" new LstatNotExist have "r = Inl AdoptStop" "t' = perform [BackendStop None u] t"
          by (auto simp: Let_def)
        with d show ?thesis using adopt_stops_stop [OF d adopt_stops_Nil] by blast
      next
        case False
        with "3.prems" new LstatNotExist
        have a: "adopt_units ae n us (perform [BackendStop None u] t) = (r, t')" by (simp add: Let_def)
        have "\<exists>ss. adopt_stops ae (perform [BackendStop None u] t) us r t' ss"
          by (rule "3.IH"(4) [OF new(1) _ LstatNotExist refl False a]) (simp add: new)
        with adopt_stops_stop [OF d] show ?thesis by blast
      qed
    qed (use new "3.prems" in \<open>auto intro!: exI [of _ "[]"] adopt_stops_Nil\<close>)
  qed
qed

section \<open>What is adopted\<close>

text \<open>The exit of a slot was reported while \<open>Adopt\<close> waited for a cleanup.\<close>

definition exit_seen :: "adopt_env \<Rightarrow> ptr \<Rightarrow> slot_id \<Rightarrow> bool" where
  "exit_seen ae p i \<longleftrightarrow> (\<exists>j. AExit p \<in> set (ae_during ae j) \<or> AObserveExit i \<in> set (ae_during ae j))"

text \<open>What holds of the record of one directory from its visit on. \<open>n\<close> is the number of calls made
  before the adoption.\<close>

definition adopted :: "nat \<Rightarrow> adopt_env \<Rightarrow> string list \<Rightarrow> ptr \<Rightarrow> slot_id \<Rightarrow> table \<Rightarrow> bool" where
  "adopted n ae units p i t \<longleftrightarrow>
     settled n p t \<and> s_id (t_heap t p) = i \<and> s_dir (t_heap t p) = slot_dir t i \<and>
     s_unit (t_heap t p) = unit_name (o_namespace (t_opts t)) i \<and>
     (if unit_name (o_namespace (t_opts t)) i \<in> set units
      then minded p t \<or> r_cleanup_pending (t_heap t p) \<and> exit_seen ae p i
      else r_cleanup_pending (t_heap t p) \<and> \<not> r_claimed (t_heap t p) \<and>
           (\<forall>we as. ae_during ae i = ACleanEnd p we # as \<and> wipe_succeeds we \<longrightarrow> released n p t))"

lemma adopted_frame:
  assumes "adopted n ae units p i t" "t_heap t' p = t_heap t p" "t_dirs t' = t_dirs t" "t_out t' = t_out t"
    and "t_next t \<le> t_next t'" "set (t_watch t) \<subseteq> set (t_watch t')"
    and "map_of (t_slots t') i = map_of (t_slots t) i" "t_opts t' = t_opts t" "t_root t' = t_root t"
  shows "adopted n ae units p i t'"
proof -
  have i: "s_id (t_heap t p) = i" using assms(1) by (simp add: adopted_def)
  have k: "kept p t' = kept p t" using assms(2,7) i by (simp add: kept_def)
  have r: "released n p t' = released n p t" using assms(2-4,7) i by (simp add: released_def)
  have m: "minded p t' " if "minded p t" using that assms(2,5,6) k by (auto simp: minded_def)
  have "settled n p t'" using assms(1,4,5) k r by (auto simp: adopted_def settled_def)
  with assms m r show ?thesis by (auto simp: adopted_def slot_dir_def)
qed

lemma adopted_act:
  assumes inv: "table_inv t" and ad: "adopted n ae units p i t" and a: "a \<in> set (ae_during ae j)"
  shows "adopted n ae units p i (act a t)"
proof -
  have p: "p < t_next t" and s: "settled n p t" and i: "s_id (t_heap t p) = i"
    using ad by (auto simp: adopted_def settled_def)
  have e: "evolves t (act a t)" using good_step_evolvesD [OF good_step_act [OF inv]] .
  have r: "rec_evolves (t_heap t p) (t_heap (act a t) p)" using inv p by (rule rec_evolves_act)
  have st: "table_inv (act a t)" using inv by (rule good_step_invD [OF good_step_act])
  have m: "minded p (act a t) \<or> r_cleanup_pending (t_heap (act a t) p) \<and> exit_seen ae p i" if "minded p t"
  proof (cases "a = AExit p \<or> a = AObserveExit i")
    case True
    with a have seen: "exit_seen ae p i" by (auto simp: exit_seen_def)
    with observed_pending [OF inv that] True i show ?thesis by auto
  next
    case False
    with minded_act [OF inv that, of a] i show ?thesis by simp
  qed
  have same: "t_opts (act a t) = t_opts t" "slot_dir (act a t) = slot_dir t"
    using e by (simp_all add: evolves_def slot_dir_def fun_eq_iff)
  have ids: "s_id (t_heap (act a t) p) = i" "s_dir (t_heap (act a t) p) = s_dir (t_heap t p)"
    "s_unit (t_heap (act a t) p) = s_unit (t_heap t p)"
    "r_cleanup_pending (t_heap t p) \<Longrightarrow> r_cleanup_pending (t_heap (act a t) p) \<and> r_claimed (t_heap (act a t) p) = r_claimed (t_heap t p)"
    using r i by (simp_all add: rec_evolves_def)
  have "released n p t \<Longrightarrow> released n p (act a t)" using released_act [OF inv _ p] .
  with ad m ids settled_act [OF inv s, of a] show ?thesis
    unfolding adopted_def same by (simp split: if_splits) blast+
qed

lemma adopted_run:
  "table_inv t \<Longrightarrow> adopted n ae units p i t \<Longrightarrow> set as \<subseteq> set (ae_during ae j) \<Longrightarrow>
   adopted n ae units p i (run as t)"
proof (induction as arbitrary: t)
  case (Cons a as)
  have "adopted n ae units p i (act a t)" using Cons.prems by (intro adopted_act) auto
  with Cons.IH [OF good_step_invD [OF good_step_act [OF Cons.prems(1)]]] Cons.prems(3) show ?case by simp
qed simp

text \<open>The record of the directory just visited.\<close>

lemma adopted_running:
  assumes "table_inv t" "map_of (t_slots t) i = None" "n \<le> length (t_out t)"
    and "unit_name (o_namespace (t_opts t)) i \<in> set units"
  shows "adopted n ae units (t_next t) i (adopt_running ae i t)"
  using assms
  by (simp add: adopted_def adopt_running_def Let_def add_rec_def put_key_new settled_def minded_def kept_def
      slot_dir_def map_add_def)

lemma adopted_orphan:
  assumes inv: "table_inv t" and new: "valid_id i" "map_of (t_slots t) i = None" and n: "n \<le> length (t_out t)"
    and u: "unit_name (o_namespace (t_opts t)) i \<notin> set units"
  shows "adopted n ae units (t_next t) i (adopt_orphan ae i t)"
proof -
  let ?t1 = "add_rec (new_slot_rec (adopted_slot ae t i False) 0) t"
  let ?t2 = "clean (t_next t) (ae_during ae i) ?t1"
  have i1: "table_inv ?t1"
    using grow_step_invD [OF grow_step_add_rec [OF inv fresh_rec_adopted [OF new]]] .
  have st: "s_state (t_heap ?t1 (t_next t)) = StateStopping" by simp
  have k: "kept (t_next t) ?t1" by (simp add: kept_def add_rec_def)
  have n1: "n \<le> length (t_out ?t1)" "t_next t < t_next ?t1" using n by simp_all
  note c = clean_settles [OF i1 st k n1]
  have e: "evolves ?t1 ?t2" using good_step_evolvesD [OF good_step_clean [OF i1 st]] .
  have b: "r_claimed (t_heap ?t2 (t_next t)) = r_claimed (t_heap (clean_begin (t_next t) ?t1) (t_next t))"
    if "r_cleanup_pending (t_heap (clean_begin (t_next t) ?t1) (t_next t))"
    using that evolves_recD [OF good_step_evolvesD [OF good_step_run [OF good_step_invD
      [OF good_step_clean_begin [OF i1 st]]]], of "t_next t" "ae_during ae i"]
    by (simp add: clean_def rec_evolves_def)
  have "r_cleanup_pending (t_heap (clean_begin (t_next t) ?t1) (t_next t))"
    using k by (simp add: clean_begin_def Let_def kept_def)
  with b have "\<not> r_claimed (t_heap ?t2 (t_next t))" by simp
  with c(1,2,4) e u show ?thesis
    by (auto simp: adopted_def adopt_orphan_def evolves_def rec_evolves_def slot_dir_def)
qed

lemma adopted_visit_other:
  assumes inv: "table_inv t" and new: "valid_id j" "map_of (t_slots t) j = None" and "i \<noteq> j"
    and ad: "adopted n ae units p i t"
  shows "adopted n ae units p i (adopt_running ae j t)" "adopted n ae units p i (adopt_orphan ae j t)"
proof -
  have p: "p \<noteq> t_next t" using ad by (simp add: adopted_def settled_def)
  have slots: "map_of (t_slots (add_rec (new_slot_rec (adopted_slot ae t j b) 0) t)) i = map_of (t_slots t) i" for b
    using \<open>i \<noteq> j\<close> by (simp add: add_rec_def put_key_new [OF new(2)] map_add_def split: option.split)
  show "adopted n ae units p i (adopt_running ae j t)"
    using p slots by (intro adopted_frame [OF ad]) (auto simp: adopt_running_def Let_def)
  let ?t1 = "add_rec (new_slot_rec (adopted_slot ae t j False) 0) t"
  have i1: "table_inv ?t1"
    using grow_step_invD [OF grow_step_add_rec [OF inv fresh_rec_adopted [OF new]]] .
  then have i2: "table_inv (clean_begin (t_next t) ?t1)"
    by (intro good_step_invD [OF good_step_clean_begin]) simp_all
  have "adopted n ae units p i (clean_begin (t_next t) ?t1)"
    using p slots by (intro adopted_frame [OF ad]) simp_all
  then show "adopted n ae units p i (adopt_orphan ae j t)"
    unfolding adopt_orphan_def clean_def by (rule adopted_run [OF i2 _ order_refl])
qed

lemma adopt_visit_slots:
  assumes "table_inv t" "valid_id j" "map_of (t_slots t) j = None"
  shows "t_next (adopt_running ae j t) = Suc (t_next t)" "t_next (adopt_orphan ae j t) = Suc (t_next t)"
    "fst ` set (t_slots (adopt_running ae j t)) \<subseteq> insert j (fst ` set (t_slots t))"
    "fst ` set (t_slots (adopt_orphan ae j t)) \<subseteq> insert j (fst ` set (t_slots t))"
proof -
  let ?t1 = "add_rec (new_slot_rec (adopted_slot ae t j False) 0) t"
  have i1: "table_inv ?t1"
    using grow_step_invD [OF grow_step_add_rec [OF assms(1) fresh_rec_adopted [OF assms(2,3)]]] .
  then have i2: "table_inv (clean_begin (t_next t) ?t1)"
    by (intro good_step_invD [OF good_step_clean_begin]) simp_all
  show "t_next (adopt_orphan ae j t) = Suc (t_next t)"
    using run_shrinks(1) [OF i2] by (simp add: adopt_orphan_def clean_def)
  show "fst ` set (t_slots (adopt_orphan ae j t)) \<subseteq> insert j (fst ` set (t_slots t))"
    using run_shrinks(2) [OF i2, of "ae_during ae j"] assms(3)
    by (auto simp: adopt_orphan_def clean_def add_rec_def put_key_new)
qed (use assms(3) in \<open>auto simp: adopt_running_def Let_def add_rec_def put_key_new\<close>)

text \<open>What the property of the boot reads off a record.\<close>

lemma adopted_record:
  assumes "table_inv t" "adopted n ae units p i t"
  shows "s_id (t_heap t p) = i \<and> s_dir (t_heap t p) = slot_dir t i \<and>
    s_unit (t_heap t p) = unit_name (o_namespace (t_opts t)) i \<and> (kept p t \<or> released n p t) \<and>
    (if unit_name (o_namespace (t_opts t)) i \<in> set units
     then kept p t \<and> s_state (t_heap t p) = StateBusy \<and> p \<in> set (t_watch t) \<and> \<not> r_cleanup_pending (t_heap t p) \<or>
          s_state (t_heap t p) = StateStopping \<and> r_cleanup_pending (t_heap t p) \<and> exit_seen ae p i
     else s_state (t_heap t p) = StateStopping \<and> r_cleanup_pending (t_heap t p) \<and> \<not> r_claimed (t_heap t p) \<and>
          (\<forall>we as. ae_during ae i = ACleanEnd p we # as \<and> wipe_succeeds we \<longrightarrow> released n p t))"
  using assms(2) table_inv_pending_stopping [OF assms(1), of p]
  by (auto simp: adopted_def settled_def minded_def split: if_splits)

text \<open>The whole walk: one record per valid entry, in the order of the entries.\<close>

definition walked :: "nat \<Rightarrow> adopt_env \<Rightarrow> string list \<Rightarrow> string list \<Rightarrow> table \<Rightarrow> table \<Rightarrow> bool" where
  "walked n ae units vs t t' \<longleftrightarrow>
     t_next t' = t_next t + length vs \<and> fst ` set (t_slots t') \<subseteq> fst ` set (t_slots t) \<union> set vs \<and>
     (\<forall>k < length vs. adopted n ae units (t_next t + k) (vs ! k) t') \<and>
     (\<forall>p i. adopted n ae units p i t \<and> i \<notin> set vs \<longrightarrow> adopted n ae units p i t')"

lemma walked_Nil: "walked n ae units [] t t"
  by (simp add: walked_def)

lemma walked_Cons:
  assumes w: "walked n ae units vs t1 t'" and v: "v \<notin> set vs" and a: "adopted n ae units (t_next t) v t1"
    and s: "t_next t1 = Suc (t_next t)" "fst ` set (t_slots t1) \<subseteq> insert v (fst ` set (t_slots t))"
    and o: "\<And>p i. adopted n ae units p i t \<Longrightarrow> i \<noteq> v \<Longrightarrow> adopted n ae units p i t1"
  shows "walked n ae units (v # vs) t t'"
proof -
  have "adopted n ae units (t_next t + k) ((v # vs) ! k) t'" if "k < length (v # vs)" for k
    using that w v a s(1) by (cases k) (auto simp: walked_def)
  moreover have "fst ` set (t_slots t') \<subseteq> fst ` set (t_slots t) \<union> set (v # vs)"
  proof -
    have "fst ` set (t_slots t') \<subseteq> fst ` set (t_slots t1) \<union> set vs" using w by (simp add: walked_def)
    also have "\<dots> \<subseteq> fst ` set (t_slots t) \<union> set (v # vs)" using s(2) by auto
    finally show ?thesis .
  qed
  moreover have "t_next t' = t_next t + length (v # vs)" using w s(1) by (simp add: walked_def)
  moreover have "adopted n ae units p i t'" if "adopted n ae units p i t" "i \<notin> set (v # vs)" for p i
    using that w o by (simp add: walked_def)
  ultimately show ?thesis by (simp add: walked_def)
qed

lemma adopt_dirs_walked:
  "adopt_dirs ae units m es t = (Inr k, t') \<Longrightarrow> table_inv t \<Longrightarrow> n \<le> length (t_out t) \<Longrightarrow>
   distinct (map fst es) \<Longrightarrow> fst ` set es \<inter> fst ` set (t_slots t) = {} \<Longrightarrow>
   walked n ae units (filter valid_id (map fst es)) t t'"
proof (induction ae units m es t rule: adopt_dirs.induct)
  case (3 ae units m name is_dir es t)
  have new: "map_of (t_slots t) name = None" using "3.prems"(5) by (auto simp: map_of_eq_None_iff)
  show ?case
  proof (cases "valid_id name")
    case False
    with "3.prems"(1) have "adopt_dirs ae units m es t = (Inr k, t')" by (cases is_dir) simp_all
    with "3.IH"(1,2) False "3.prems"(2-5) show ?thesis by (cases is_dir) simp_all
  next
    case v: True
    with "3.prems"(1) have d: "is_dir" by (auto split: if_splits)
    have apart: "name \<notin> fst ` set es" "fst ` set es \<inter> fst ` set (t_slots t) = {}"
      using "3.prems"(4,5) by auto
    note s = adopt_visit_slots [OF "3.prems"(2) v new, of ae]
    have longer: "n \<le> length (t_out t1)" if "grow_step t t1" for t1
      using that "3.prems"(3) by (auto simp: grow_step_def evolves_def)
    show ?thesis
    proof (cases "unit_name (o_namespace (t_opts t)) name \<in> set units")
      case running: True
      let ?t = "adopt_running ae name t"
      have g: "grow_step t ?t" using "3.prems"(2) v new by (rule grow_step_adopt_running)
      have a: "adopt_dirs ae units m es ?t = (Inr k, t')" using "3.prems"(1) d v new running by simp
      have dis: "fst ` set es \<inter> fst ` set (t_slots ?t) = {}" using s(3) apart by blast
      have w: "walked n ae units (filter valid_id (map fst es)) ?t t'"
        using "3.IH"(4) [OF _ _ _ running a grow_step_invD [OF g] longer [OF g]] d v new dis "3.prems"(4) by simp
      have "walked n ae units (name # filter valid_id (map fst es)) t t'"
        using w by (rule walked_Cons) (use s(1,3) "3.prems"(4) adopted_running [OF "3.prems"(2) new "3.prems"(3) running]
          adopted_visit_other(1) [OF "3.prems"(2) v new] in auto)
      with v show ?thesis by simp
    next
      case orphan: False
      let ?t = "adopt_orphan ae name t"
      have g: "grow_step t ?t" using "3.prems"(2) v new by (rule grow_step_adopt_orphan)
      have a: "adopt_dirs ae units m es ?t = (Inr k, t')" using "3.prems"(1) d v new orphan by simp
      have dis: "fst ` set es \<inter> fst ` set (t_slots ?t) = {}" using s(4) apart by blast
      have w: "walked n ae units (filter valid_id (map fst es)) ?t t'"
        using "3.IH"(5) [OF _ _ _ orphan a grow_step_invD [OF g] longer [OF g]] d v new dis "3.prems"(4) by simp
      have "walked n ae units (name # filter valid_id (map fst es)) t t'"
        using w by (rule walked_Cons) (use s(2,4) "3.prems"(4) adopted_orphan [OF "3.prems"(2) v new "3.prems"(3) orphan]
          adopted_visit_other(2) [OF "3.prems"(2) v new] in auto)
      with v show ?thesis by simp
    qed
  qed
qed (auto simp: walked_Nil)

lemma adopt_units_performs: "\<exists>es. snd (adopt_units ae m us t) = perform es t"
proof (induction ae m us t rule: adopt_units.induct)
  case (3 ae m u us t)
  have self: "\<exists>es. t = perform es t" by (rule exI [of _ "[]"]) simp
  show ?case
  proof (cases "id_from_unit (o_namespace (t_opts t)) u")
    case None
    with "3.IH"(1) show ?thesis by simp
  next
    case (Some i)
    show ?thesis
    proof (cases "map_of (t_slots t) i")
      case None
      show ?thesis
      proof (cases "ae_lstat ae (slot_dir t i)")
        case LstatNotExist
        show ?thesis
        proof (cases "ae_stop_err ae u")
          case False
          with "3.IH"(4) [OF Some _ LstatNotExist refl] None
          obtain es where "snd (adopt_units ae m us (perform [BackendStop None u] t)) = perform es (perform [BackendStop None u] t)"
            by auto
          with Some None LstatNotExist False show ?thesis by (auto simp: Let_def perform_perform)
        qed (use Some None LstatNotExist in \<open>auto simp: Let_def\<close>)
      qed (use Some None self "3.IH"(3) in simp_all)
    qed (use Some "3.IH"(2) in simp)
  qed
qed (auto intro: exI [of _ "[]"])

lemma adopted_units:
  assumes "adopted n ae units p i t"
  shows "adopted n ae units p i (snd (adopt_units ae m us t))"
proof -
  obtain es where f: "snd (adopt_units ae m us t) = perform es t" using adopt_units_performs by blast
  have r: "released n p (perform es t)" if "released n p t" using that by (auto simp: released_def)
  have k: "kept p (perform es t) = kept p t" by (simp add: kept_def)
  have "settled n p (perform es t)" using assms r k by (auto simp: adopted_def settled_def)
  moreover have "minded p (perform es t) = minded p t" using k by (simp add: minded_def)
  ultimately show ?thesis using assms r by (auto simp: f adopted_def slot_dir_def)
qed

lemma adopt_walked:
  assumes "adopt ae units m t = (None, t')" "ae_entries ae = Some es" "distinct (map fst es)"
    and "table_inv t" "t_slots t = []" "\<not> t_closed t"
  shows "walked (length (t_out t)) ae units (filter valid_id (map fst es)) t t'"
proof -
  obtain r t1 where d: "adopt_dirs ae units (m - length units) es t = (r, t1)" by fastforce
  with assms obtain k where k: "r = Inr k"
    by (cases r) (auto simp: adopt_def split: if_splits)
  have w: "walked (length (t_out t)) ae units (filter valid_id (map fst es)) t t1"
    using adopt_dirs_walked [OF d [unfolded k] assms(4) order_refl assms(3)] assms(5) by simp
  have t': "t' = snd (adopt_units ae k units t1)"
    using assms(1,2,6) d k by (auto simp: adopt_def split: if_splits sum.splits prod.splits)
  obtain es' where "t' = perform es' t1" using adopt_units_performs t' by metis
  then have "t_next t' = t_next t1" "t_slots t' = t_slots t1" by simp_all
  moreover have "adopted n ae units p i t'" if "adopted n ae units p i t1" for n p i
    using adopted_units [OF that] t' by simp
  ultimately show ?thesis using w by (simp add: walked_def)
qed

end
