(* ===== verification/Slot_Progress.thy ===== *)
theory Slot_Progress
  imports Slot_Adopt
begin

text \<open>
  What a whole \<open>Ensure\<close>, \<open>Shutdown\<close> or \<open>Adopt\<close> does to the table: bounds and stop calls under any
  interleaving, and progress when the outside succeeds.
\<close>

section \<open>Ensure and Shutdown\<close>

lemma retry_cleanup_Nil [simp]: "retry_cleanup [] t = t"
  by (simp add: retry_cleanup_def)

text \<open>The calls of \<open>Backend.Stop\<close> an operation makes, relative to the table the candidates were
  chosen from.\<close>

definition stops_surplus_of :: "int \<Rightarrow> bool \<Rightarrow> table \<Rightarrow> table \<Rightarrow> table \<Rightarrow> bool" where
  "stops_surplus_of d g t s t' \<longleftrightarrow>
     table_inv s \<and> evolves t s \<and>
     stop_calls (t_out t') = stop_calls (t_out t) @ map (\<lambda>p. (Some p, s_unit (t_heap s p))) (candidates d g s)"

lemma ensure_step:
  assumes inv: "table_inv t"
  shows "grow_step t (snd (ensure d ee t)) \<and>
    int (count_live (snd (ensure d ee t))) \<le> max (int (count_live t)) d \<and>
    (stop_calls (t_out (snd (ensure d ee t))) = stop_calls (t_out t) \<or>
     (\<exists>s. stops_surplus_of d False t s (snd (ensure d ee t))))"
proof (cases "ee_acquired ee")
  case False
  with inv show ?thesis by (simp add: ensure_def grow_step_refl)
next
  case True
  define t1 where "t1 = retry_cleanup (ee_cleanups ee) t"
  obtain err t2 where t2: "ensure_loop d (ee_starts ee) t1 = (err, t2)" by fastforce
  define t3 where "t3 = run (ee_before_stop ee) t2"
  have g1: "good_step t t1" unfolding t1_def using inv by (rule good_step_retry_cleanup)
  have l: "table_inv t2 \<and> evolves t1 t2 \<and> int (count_live t2) \<le> max (int (count_live t1)) d"
    using ensure_loop_bound [OF good_step_invD [OF g1], of d "ee_starts ee"] t2 by simp
  have e2: "evolves t t2" using g1 l by (auto simp: good_step_def intro: evolves_trans)
  have c2: "int (count_live t2) \<le> max (int (count_live t)) d" using g1 l by (auto simp: good_step_def)
  have s2: "stop_calls (t_out t2) = stop_calls (t_out t)"
    by (metis snd_conv stop_calls_ensure_loop stop_calls_retry_cleanup t1_def t2)
  show ?thesis
  proof (cases err)
    case True
    with \<open>ee_acquired ee\<close> t2 l e2 c2 s2 show ?thesis
      by (simp add: ensure_def t1_def [symmetric] grow_step_def)
  next
    case False
    have g3: "good_step t2 t3" unfolding t3_def using l by (intro good_step_run) simp
    then have i3: "table_inv t3" by (rule good_step_invD)
    let ?t4 = "stop_surplus d False (ee_stops ee) t3"
    have r: "snd (ensure d ee t) = ?t4"
      using True False t2 by (simp add: ensure_def t1_def [symmetric] t3_def)
    note st = stop_surplus_step [OF i3, of d False "ee_stops ee"]
    have e3: "evolves t t3" using e2 g3 by (auto simp: good_step_def intro: evolves_trans)
    have "stop_calls (t_out t3) = stop_calls (t_out t)" using s2 by (simp add: t3_def)
    then have "stops_surplus_of d False t t3 ?t4" using st(2) i3 e3 by (simp add: stops_surplus_of_def)
    moreover have "grow_step t ?t4"
      using st(1) e3 by (auto simp: grow_step_def good_step_def intro: evolves_trans)
    moreover have "int (count_live ?t4) \<le> max (int (count_live t)) d"
      using st(1) g3 c2 by (simp add: good_step_def)
    ultimately show ?thesis unfolding r by blast
  qed
qed

lemma shutdown_step:
  assumes inv: "table_inv t"
  shows "good_step t (snd (shutdown ee t)) \<and>
    (stop_calls (t_out (snd (shutdown ee t))) = stop_calls (t_out t) \<or>
     (\<exists>s. stops_surplus_of 0 True t s (snd (shutdown ee t))))"
proof (cases "ee_acquired ee")
  case False
  with inv show ?thesis by (simp add: shutdown_def)
next
  case True
  define t1 where "t1 = run (ee_before_stop ee) (retry_cleanup (ee_cleanups ee) t)"
  let ?t2 = "stop_surplus 0 True (ee_stops ee) t1"
  have "good_step t (retry_cleanup (ee_cleanups ee) t)" using inv by (rule good_step_retry_cleanup)
  then have g: "good_step t t1"
    unfolding t1_def by (blast intro: good_step_trans good_step_run good_step_invD)
  note st = stop_surplus_step [OF good_step_invD [OF g], of 0 True "ee_stops ee"]
  have r: "snd (shutdown ee t) = ?t2" using True by (simp add: shutdown_def t1_def)
  have "stops_surplus_of 0 True t t1 ?t2"
    using st(2) g by (simp add: stops_surplus_of_def good_step_def t1_def)
  then show ?thesis unfolding r using g st(1) by (blast intro: good_step_trans)
qed

text \<open>A slot that was busy or in cleanup is never among the stopped ones.\<close>

lemma busy_not_candidate:
  assumes "table_inv s" "evolves t s" "p < t_next t"
    and "s_state (t_heap t p) = StateBusy \<or> r_cleanup_pending (t_heap t p)"
  shows "p \<notin> set (candidates d g s)"
proof
  assume "p \<in> set (candidates d g s)"
  then have st: "s_state (t_heap s p) = StateIdle \<or> s_state (t_heap s p) = StateStarting"
    using candidates_mem eligible_state by blast
  have "p < t_next s" using assms(2,3) by (simp add: evolves_def)
  with assms(1) have "rec_ok (t_heap s p)" by (rule table_inv_recD)
  then have "r_cleanup_pending (t_heap s p) \<longrightarrow> s_state (t_heap s p) = StateStopping"
    by (simp add: rec_ok_def)
  moreover have "s_state (t_heap s p) = StateBusy \<or> r_cleanup_pending (t_heap s p)"
    using evolves_recD [OF assms(2,3)] assms(4) unfolding rec_evolves_def by blast
  ultimately show False using st by auto
qed

section \<open>Reachable tables\<close>

text \<open>Everything that may happen to a table: an asynchronous step, or one of the exported
  handlers under any environment.\<close>

inductive table_step :: "table \<Rightarrow> table \<Rightarrow> bool" where
  step_async: "table_step t (act a t)"
| step_ensure: "table_step t (snd (ensure d ee t))"
| step_shutdown: "table_step t (snd (shutdown ee t))"
| step_adopt: "table_step t (snd (adopt ae units n t))"
| step_observe_exit: "table_step t (observe_exit_api i between during t)"

inductive_cases table_stepE: "table_step t t'"

inductive reachable :: "table \<Rightarrow> table \<Rightarrow> bool" for t0 where
  reach_refl: "reachable t0 t0"
| reach_step: "reachable t0 t \<Longrightarrow> table_step t t' \<Longrightarrow> reachable t0 t'"

lemma grow_step_table_step: "table_step t t' \<Longrightarrow> table_inv t \<Longrightarrow> grow_step t t'"
  by (erule table_stepE)
    (auto simp: observe_exit_api_def ensure_step shutdown_step grow_step_adopt
      intro: grow_step_good good_step_act good_step_observe_exit_context)

lemma reachable_grow: "reachable t0 t \<Longrightarrow> table_inv t0 \<Longrightarrow> grow_step t0 t"
proof (induction rule: reachable.induct)
  case reach_refl
  then show ?case by (rule grow_step_refl)
next
  case (reach_step t t')
  then show ?case by (blast intro: grow_step_trans grow_step_table_step grow_step_invD)
qed

lemma new_table_sel [simp]:
  "t_slots (new_table r j opts m ds) = []" "t_next (new_table r j opts m ds) = 0"
  "t_workers (new_table r j opts m ds) = []" "t_watch (new_table r j opts m ds) = []"
  "t_out (new_table r j opts m ds) = []" "t_root (new_table r j opts m ds) = r"
  "t_dirs (new_table r j opts m ds) = ds" "t_closed (new_table r j opts m ds) = False"
  "t_opts (new_table r j opts m ds) = apply_options opts" "t_now (new_table r j opts m ds) = m"
  "t_jit_dir (new_table r j opts m ds) = j" "t_desired (new_table r j opts m ds) = 0"
  by (simp_all add: new_table_def)

lemma table_inv_new [simp]: "table_inv (new_table r j opts m ds)"
  by (simp add: table_inv_def slots_ok_def heap_ok_def workers_ok_def completions_ok_def watch_ok_def)

lemma count_live_new [simp]: "count_live (new_table r j opts m ds) = 0"
  by (simp add: count_live_def)

lemma reachable_new_inv: "reachable (new_table r j opts m ds) t \<Longrightarrow> table_inv t"
  by (blast intro: grow_step_invD reachable_grow table_inv_new)

section \<open>Progress\<close>

text \<open>A start at which nothing fails and nobody interferes.\<close>

definition smooth_start :: "start_env \<Rightarrow> bool" where
  "smooth_start se \<longleftrightarrow>
     se_allowed se \<and> se_gate se = (\<lambda>_. True) \<and> \<not> se_mkdir_err se \<and> \<not> se_materialize_err se \<and>
     se_jit se \<noteq> None \<and> \<not> se_write_err se \<and> se_start se = StartOk \<and> se_gated se = [] \<and>
     se_reserved se = [] \<and> se_provision se = [] \<and> se_launch se = []"

text \<open>Every slot directory on disk belongs to a slot of the table.\<close>

definition dirs_owned :: "table \<Rightarrow> bool" where
  "dirs_owned t \<longleftrightarrow> (\<forall>i. valid_id i \<and> slot_dir t i \<in> set (t_dirs t) \<longrightarrow> map_of (t_slots t) i \<noteq> None)"

lemma launch_smooth:
  assumes "smooth_start se" "s_state (t_heap t p) = StateStarting"
  shows "\<exists>r. fst (launch p t0 name se t) = Some (s_id (t_heap t p)) \<and>
    t_heap (snd (launch p t0 name se t)) = (t_heap t)(p := r) \<and>
    s_state r = StateIdle \<and> s_id r = s_id (t_heap t p) \<and>
    t_slots (snd (launch p t0 name se t)) = t_slots t \<and>
    t_next (snd (launch p t0 name se t)) = t_next t \<and>
    t_dirs (snd (launch p t0 name se t)) = t_dirs t \<and>
    t_root (snd (launch p t0 name se t)) = t_root t \<and>
    t_closed (snd (launch p t0 name se t)) = t_closed t"
  using assms by (simp add: smooth_start_def launch_def Let_def) (rule exI, rule conjI, rule refl, simp)

text \<open>A start with nothing in the way comes down to its launch.\<close>

lemma start_one_launch:
  assumes sm: "smooth_start (se\<lparr>se_start := StartOk\<rparr>)" and op: "\<not> t_closed t"
    and i: "next_id t = Some i" and own: "dirs_owned t"
  shows "\<exists>name. start_one se t = launch (t_next t) (t_now t) name se
    ((add_rec (new_slot_rec (candidate_slot se t i) (t_now t)) t)\<lparr>t_dirs := slot_dir t i # t_dirs t\<rparr>)"
proof -
  have "slot_dir t i \<notin> set (t_dirs t)" using next_id_fresh [OF i] own by (auto simp: dirs_owned_def)
  moreover obtain name where "se_jit se = Some name" using sm by (auto simp: smooth_start_def)
  moreover have "s_dir (candidate_slot se t i) = slot_dir t i" by (simp add: candidate_slot_def)
  ultimately show ?thesis using sm op i
    by (intro exI [of _ name]) (simp add: start_one_def Let_def smooth_start_def)
qed

lemma start_one_smooth:
  assumes inv: "table_inv t" and sm: "smooth_start se" and op: "\<not> t_closed t"
    and i: "next_id t = Some i" and own: "dirs_owned t"
  shows "\<exists>t'. start_one se t = (Some i, t') \<and> count_live t' = Suc (count_live t) \<and> \<not> t_closed t' \<and>
    length (t_slots t') = Suc (length (t_slots t)) \<and> dirs_owned t'"
proof -
  define p where "p = t_next t"
  define r where "r = new_slot_rec (candidate_slot se t i) (t_now t)"
  define t2 where "t2 = add_rec r t"
  define t4 where "t4 = t2\<lparr>t_dirs := s_dir r # t_dirs t\<rparr>"
  have fr: "fresh_rec t r" unfolding r_def using i by (rule fresh_rec_candidate)
  have idr: "s_id r = i" "s_state r = StateStarting" "s_dir r = slot_dir t i"
    by (simp_all add: r_def candidate_slot_def)
  have vi: "valid_id i" "map_of (t_slots t) i = None" using next_id_fresh [OF i] by auto
  have h4: "t_heap t4 p = r" by (simp add: t4_def t2_def p_def)
  have "se\<lparr>se_start := StartOk\<rparr> = se" using sm by (simp add: smooth_start_def)
  then obtain name where so: "start_one se t = launch p (t_now t) name se t4"
    using start_one_launch [of se t i] sm op i own idr(3) by (auto simp: t4_def t2_def p_def r_def)
  have "s_state (t_heap t4 p) = StateStarting" using idr by (simp add: h4)
  from launch_smooth [OF sm this, of "t_now t" name] obtain r' where
    l: "fst (start_one se t) = Some i" "t_heap (snd (start_one se t)) = (t_heap t4)(p := r')"
      "s_state r' = StateIdle" "t_slots (snd (start_one se t)) = t_slots t4"
      "t_dirs (snd (start_one se t)) = t_dirs t4" "t_root (snd (start_one se t)) = t_root t4"
      "t_closed (snd (start_one se t)) = t_closed t4"
    unfolding so h4 idr by blast
  define t' where "t' = snd (start_one se t)"
  note l = l [folded t'_def]
  have sl: "t_slots t' = t_slots t @ [(i, p)]"
    using l(4) add_rec_slots [OF fr] by (simp add: t4_def t2_def p_def idr)
  have c2: "count_live t2 = Suc (count_live t)"
    unfolding t2_def using count_live_add_rec [OF inv fr] idr by simp
  have "filter (\<lambda>(i, p). live (state_of t' p)) (t_slots t') = filter (\<lambda>(i, p). live (state_of t2 p)) (t_slots t2)"
    using l(2,3) sl add_rec_slots [OF fr] idr
    by (intro filter_cong) (auto simp: state_of_def t4_def t2_def p_def)
  with c2 have "count_live t' = Suc (count_live t)" by (simp add: count_live_def)
  moreover have "dirs_owned t'"
    unfolding dirs_owned_def
  proof (intro allI impI)
    fix j assume j: "valid_id j \<and> slot_dir t' j \<in> set (t_dirs t')"
    have "slot_dir t' j = slot_dir t j" using l(6) by (simp add: slot_dir_def t4_def t2_def)
    with j l(5) have "slot_dir t j = slot_dir t i \<or> slot_dir t j \<in> set (t_dirs t)"
      by (simp add: t4_def idr)
    with j vi own show "map_of (t_slots t') j \<noteq> None"
      by (auto simp: slot_dir_inj sl dirs_owned_def map_of_eq_None_iff)
  qed
  moreover have "start_one se t = (Some i, t')" using l(1) by (simp add: t'_def prod_eq_iff)
  moreover have "\<not> t_closed t'" using l(7) op by (simp add: t4_def t2_def)
  ultimately show ?thesis using sl by auto
qed

lemma ensure_loop_reaches:
  assumes "table_inv t" "\<not> t_closed t" "dirs_owned t"
    and "\<forall>(as, se) \<in> set ses. as = [] \<and> smooth_start se"
    and "nat (d - int (count_live t)) \<le> length ses"
    and "length (t_slots t) + nat (d - int (count_live t)) \<le> max_slot_id"
  shows "\<exists>t'. ensure_loop d ses t = (False, t') \<and> table_inv t' \<and> int (count_live t') = max (int (count_live t)) d"
  using assms
proof (induction ses arbitrary: t)
  case Nil
  then show ?case by auto
next
  case (Cons e ses)
  obtain se where e: "e = ([], se)" and sm: "smooth_start se" using Cons.prems(4) by (cases e) auto
  show ?case
  proof (cases "int (count_live t) \<ge> d")
    case True
    with Cons.prems(1) e show ?thesis by auto
  next
    case False
    with Cons.prems(6) have "length (t_slots t) < max_slot_id" by linarith
    then obtain i where i: "next_id t = Some i" using next_id_exists by blast
    from start_one_smooth [OF Cons.prems(1) sm Cons.prems(2) i Cons.prems(3)] obtain t1 where
      t1: "start_one se t = (Some i, t1)" "count_live t1 = Suc (count_live t)" "\<not> t_closed t1"
        "length (t_slots t1) = Suc (length (t_slots t))" "dirs_owned t1" by blast
    have inv1: "table_inv t1"
      using start_step_invD [OF start_step_start_one [OF Cons.prems(1), of se]] t1(1) by simp
    have "\<exists>t'. ensure_loop d ses t1 = (False, t') \<and> table_inv t' \<and> int (count_live t') = max (int (count_live t1)) d"
      using Cons.prems(4-6) t1 False by (intro Cons.IH inv1) auto
    with t1 False Cons.prems(2) e show ?thesis by auto
  qed
qed

end
