(* ===== verification/Slot_Properties.thy ===== *)
theory Slot_Properties
  imports Slot_Progress
begin

text \<open>
  The properties of the slot table, each with a concrete run that meets its hypotheses: an empty
  table, and one with a busy slot and an idle one.
\<close>

section \<open>Concrete tables\<close>

definition smooth :: start_env where
  "smooth = \<lparr>se_allowed = True, se_gate = (\<lambda>_. True), se_reservation = None, se_mkdir_err = False,
     se_materialize_err = False, se_jit = Some ''r'', se_write_err = False, se_start = StartOk,
     se_gated = [], se_reserved = [], se_provision = [], se_launch = [], se_cleaning = []\<rparr>"

definition quiet :: "nat \<Rightarrow> ensure_env" where
  "quiet n = \<lparr>ee_acquired = True, ee_cleanups = [], ee_starts = replicate n ([], smooth),
     ee_before_stop = [], ee_stops = [], ee_ctx_err = False\<rparr>"

definition empty_table :: table where
  "empty_table = new_table ''/s'' ''/j'' [Some (WithEventHook True), Some (WithCompletionHook True)] 1 []"

text \<open>A table with one more slot, in a given state.\<close>

definition slot_in :: "slot_state \<Rightarrow> slot_id \<Rightarrow> table \<Rightarrow> table" where
  "slot_in st i t = add_rec ((new_slot_rec (zero_slot\<lparr>s_pool := o_namespace (t_opts t), s_id := i,
     s_dir := slot_dir t i, s_unit := unit_name (o_namespace (t_opts t)) i,
     s_runner_name := ''r'', s_started_at := 1\<rparr>) 0)\<lparr>s_state := st, r_claimed := (st = StateBusy)\<rparr>) t"

definition busy_idle :: table where
  "busy_idle = slot_in StateIdle ''0002'' (slot_in StateBusy ''0001'' empty_table)"

lemma slot_in_ok:
  assumes "table_inv t" "valid_id i" "map_of (t_slots t) i = None" "live st"
  shows "table_inv (slot_in st i t)" "count_live (slot_in st i t) = Suc (count_live t)"
    "t_slots (slot_in st i t) = t_slots t @ [(i, t_next t)]"
proof -
  let ?r = "(new_slot_rec (zero_slot\<lparr>s_pool := o_namespace (t_opts t), s_id := i,
     s_dir := slot_dir t i, s_unit := unit_name (o_namespace (t_opts t)) i,
     s_runner_name := ''r'', s_started_at := 1\<rparr>) 0)\<lparr>s_state := st, r_claimed := (st = StateBusy)\<rparr>"
  have fr: "fresh_rec t ?r"
    using assms(2-4) by (cases st) (simp_all add: fresh_rec_def rec_ok_def rec_names_ok_def)
  show "table_inv (slot_in st i t)" "count_live (slot_in st i t) = Suc (count_live t)"
    "t_slots (slot_in st i t) = t_slots t @ [(i, t_next t)]"
    using table_inv_add_rec [OF assms(1) fr] count_live_add_rec [OF assms(1) fr] add_rec_slots [OF fr] assms(4)
    by (simp_all add: slot_in_def)
qed

lemma slot_in_sel [simp]:
  "t_next (slot_in st i t) = Suc (t_next t)" "t_closed (slot_in st i t) = t_closed t"
  "t_out (slot_in st i t) = t_out t" "t_opts (slot_in st i t) = t_opts t"
  "t_now (slot_in st i t) = t_now t" "t_dirs (slot_in st i t) = t_dirs t"
  "t_heap (slot_in st i t) p = (if p = t_next t then (new_slot_rec (zero_slot\<lparr>s_pool := o_namespace (t_opts t), s_id := i,
     s_dir := slot_dir t i, s_unit := unit_name (o_namespace (t_opts t)) i,
     s_runner_name := ''r'', s_started_at := 1\<rparr>) 0)\<lparr>s_state := st, r_claimed := (st = StateBusy)\<rparr> else t_heap t p)"
  by (simp_all add: slot_in_def)

lemma smooth_smooth [simp]: "smooth_start smooth"
  by (simp add: smooth_start_def smooth_def)

lemma empty_table_facts [simp]:
  "table_inv empty_table" "t_slots empty_table = []" "t_closed empty_table = False"
  "t_dirs empty_table = []" "t_out empty_table = []" "count_live empty_table = 0"
  "t_next empty_table = 0" "t_now empty_table = 1" "dirs_owned empty_table"
  "o_event_hook (t_opts empty_table)" "o_completion_hook (t_opts empty_table)"
  "o_namespace (t_opts empty_table) = ''default''" "o_idle_grace (t_opts empty_table) = 30000000000"
  by (simp_all add: empty_table_def dirs_owned_def apply_options_def default_options_def second_def)

lemma valid_ids [simp]: "valid_id ''0001''" "valid_id ''0002''" "valid_id ''0003''"
  by (simp_all add: valid_id_def is_digit_def digit_val_def decimal_value_def max_slot_id_def less_eq_char_def)

lemma busy_idle_facts [simp]:
  "table_inv busy_idle" "count_live busy_idle = 2" "t_slots busy_idle = [(''0001'', 0), (''0002'', 1)]"
  "t_next busy_idle = 2" "t_closed busy_idle = False" "t_out busy_idle = []" "t_now busy_idle = 1"
  "s_state (t_heap busy_idle 0) = StateBusy" "s_state (t_heap busy_idle 1) = StateIdle"
  "s_state (t_heap busy_idle (Suc 0)) = StateIdle" "\<not> r_cleanup_pending (t_heap busy_idle p)"
  "r_claimed (t_heap busy_idle 0)" "o_completion_hook (t_opts busy_idle)"
  "s_id (t_heap busy_idle 0) = ''0001''" "s_id (t_heap busy_idle 1) = ''0002''"
  "s_runner_name (t_heap busy_idle p) = (if p < 2 then ''r'' else [])"
  "s_started_at (t_heap busy_idle 1) = 1" "s_started_at (t_heap busy_idle (Suc 0)) = 1"
  using slot_in_ok [of empty_table "''0001''" StateBusy]
    slot_in_ok [of "slot_in StateBusy ''0001'' empty_table" "''0002''" StateIdle]
  by (simp_all add: busy_idle_def empty_table_def [THEN arg_cong [of _ _ t_heap]] new_table_def
      zero_slot_def)

section \<open>The table invariant\<close>

text \<open>C8: A new table stays well formed as the program uses it: IDs and records are unique and agree,
  every record is in a legal combination of state and cleanup flags, running cleanup workers and
  records in cleanup agree, and watched records exist. The runs covered are these: \<open>Adopt\<close>, \<open>Ensure\<close>
  and \<open>Shutdown\<close> follow one another (the daemon calls \<open>Adopt\<close> once, at boot; the other two share the
  semaphore), and at every point where they release the mutex the watch goroutines, the cleanup
  workers, the sampler, the job listener, \<open>SetDesired\<close>, \<open>Close\<close> and the exported \<open>ObserveExit\<close> for a
  slot whose launch has ended do anything, in any order, however the outside calls end. Not covered
  are an \<open>Adopt\<close> that runs beside an \<open>Ensure\<close>, and an \<open>ObserveExit\<close> for a slot whose launch is still
  in flight, which no code of the repository calls and after which the invariant can fail, as the
  lemma that follows the witness proves.\<close>

theorem reachable_table_inv:
  assumes "reachable (new_table r j opts m ds) t"
  shows "table_inv t"
  using assms by (rule reachable_new_inv)

lemma reach_ensure: "reachable empty_table (snd (ensure 2 (quiet 2) empty_table))"
  by (rule reach_step [OF reach_refl step_ensure])

theorem reachable_table_inv_witness: "table_inv (snd (ensure 2 (quiet 2) empty_table))"
  by (rule reachable_table_inv [OF reach_ensure [unfolded empty_table_def], folded empty_table_def])

text \<open>
  Outside these runs the invariant is lost. When \<open>ObserveExit\<close> is called for a slot between its
  reservation and the outcome of \<open>Backend.Start\<close>, and that outcome is uncertain, \<open>startOne\<close> sets the
  record busy without a look at its cleanup flags: the slot counts as live again although its
  cleanup, which wipes its directory and frees its ID, goes on.
\<close>

lemma observe_exit_before_uncertain_start:
  assumes "table_inv t" "provisioning p t" "i = s_id (t_heap t p)"
    and "se_launch se = []" "\<not> se_write_err se" "se_start se = StartUncertain"
    and "t' = snd (launch p t0 name se (snd (observe_exit i None t)))"
  shows "map_of (t_slots t') i = Some p \<and> s_state (t_heap t' p) = StateBusy \<and>
    r_cleanup_pending (t_heap t' p) \<and> \<not> table_inv t'"
proof -
  have m: "map_of (t_slots t) i = Some p"
    using assms(1-3) by (simp add: provisioning_def table_inv_def slots_ok_lookup)
  have p: "p < t_next t" "s_state (t_heap t p) \<noteq> StateEmpty" "s_state (t_heap t p) \<noteq> StateFailed" "\<not> r_cleaning (t_heap t p)"
    "\<not> r_cleanup_pending (t_heap t p)"
    using assms(1,2) table_inv_recD [OF assms(1), of p] by (auto simp: provisioning_def rec_ok_def)
  have o: "r_cleanup_pending (t_heap (snd (observe_exit i None t)) p)"
    using m p by (simp add: observe_exit_def exit_rec_def Let_def)
  have f: "t_slots (snd (observe_exit i None t)) = t_slots t" "t_next (snd (observe_exit i None t)) = t_next t"
    using observe_exit_frame [OF assms(1)] by auto
  have "s_state (t_heap t' p) = StateBusy" "r_cleanup_pending (t_heap t' p)" "t_slots t' = t_slots t" "t_next t' = t_next t"
    using assms(4-6) o f by (simp_all add: assms(7) launch_def Let_def)
  moreover from this p(1) have "\<not> table_inv t'"
    using table_inv_recD [of t' p] by (auto simp: rec_ok_def)
  ultimately show ?thesis using m by simp
qed

text \<open>C3: A completion is reported at most once per record: in every table reachable from a new one
  the completion hook was called exactly once for a record whose completion is marked sent, and
  never for any other; such a record was claimed by a job and is in cleanup.\<close>

theorem completion_once:
  assumes "reachable (new_table r j opts m ds) t"
  shows "completions_for p (t_out t) = (if p < t_next t \<and> r_completion_sent (t_heap t p) then 1 else 0) \<and>
    (p < t_next t \<and> r_completion_sent (t_heap t p) \<longrightarrow>
      r_claimed (t_heap t p) \<and> r_cleanup_pending (t_heap t p))"
  using reachable_new_inv [OF assms] table_inv_recD [OF reachable_new_inv [OF assms], of p]
  by (auto simp: table_inv_def completions_ok_def rec_ok_def)

theorem completion_once_witness:
  "completions_for 0 (t_out (snd (ensure 2 (quiet 2) empty_table))) \<le> 1"
  using completion_once [OF reach_ensure [unfolded empty_table_def], folded empty_table_def, of 0] by simp

text \<open>C10: No two slots of a table share a backend unit or a directory, so stopping or wiping one
  never touches another.\<close>

theorem units_and_dirs_distinct:
  assumes "table_inv t"
  shows "distinct (map (\<lambda>(i, p). s_unit (t_heap t p)) (t_slots t)) \<and>
    distinct (map (\<lambda>(i, p). s_dir (t_heap t p)) (t_slots t))"
proof -
  have s: "slots_ok t" using assms by (rule table_inv_slotsD)
  have n: "s_unit (t_heap t p) = unit_name (o_namespace (t_opts t)) i \<and>
      s_dir (t_heap t p) = slot_dir t i \<and> valid_id i" if "(i, p) \<in> set (t_slots t)" for i p
    using assms that s by (auto simp: table_inv_def heap_ok_def slots_ok_def rec_names_ok_def)
  have "map (\<lambda>(i, p). s_unit (t_heap t p)) (t_slots t) =
      map (unit_name (o_namespace (t_opts t))) (map fst (t_slots t))"
    using n by (auto simp: comp_def)
  moreover have "map (\<lambda>(i, p). s_dir (t_heap t p)) (t_slots t) = map (slot_dir t) (map fst (t_slots t))"
    using n by (auto simp: comp_def)
  moreover have "inj_on (slot_dir t) (fst ` set (t_slots t))"
    using n by (auto intro!: inj_onI simp: slot_dir_inj)
  ultimately show ?thesis
    using s by (simp add: slots_ok_def distinct_map inj_on_def unit_name_inj del: map_map)
qed

theorem units_and_dirs_distinct_witness:
  "distinct [s_unit (t_heap busy_idle 0), s_unit (t_heap busy_idle 1)] \<and>
   distinct [s_dir (t_heap busy_idle 0), s_dir (t_heap busy_idle 1)]"
  using units_and_dirs_distinct [of busy_idle] by simp

section \<open>Ensure and Shutdown\<close>

text \<open>Ensure never raises the live count above the larger of its value at the start and the
  desired count, whatever jobs arrive, slots exit and starts fail while it runs, and it keeps the
  table well formed.\<close>

lemma ensure_bound:
  assumes "table_inv t"
  shows "table_inv (snd (ensure d ee t)) \<and>
    int (count_live (snd (ensure d ee t))) \<le> max (int (count_live t)) d"
  using ensure_step [OF assms, of d ee] by (simp add: grow_step_def)


text \<open>C7: A slot that is busy, or already handed to cleanup, when Ensure or Shutdown begins is never
  stopped by it: no call of the backend's Stop that it makes is for that slot.\<close>

theorem busy_never_stopped:
  assumes "table_inv t" "p < t_next t"
    and "s_state (t_heap t p) = StateBusy \<or> r_cleanup_pending (t_heap t p)"
    and "t' = snd (ensure d ee t) \<or> t' = snd (shutdown ee t)"
  shows "\<exists>new. stop_calls (t_out t') = stop_calls (t_out t) @ new \<and> Some p \<notin> fst ` set new"
proof -
  from assms(4) consider (none) "stop_calls (t_out t') = stop_calls (t_out t)"
    | (some) e g s where "stops_surplus_of e g t s t'"
    using ensure_step [OF assms(1), of d ee] shutdown_step [OF assms(1), of ee] by blast
  then show ?thesis
  proof cases
    case none
    then show ?thesis by simp
  next
    case some
    then have "p \<notin> set (candidates e g s)"
      using assms(2,3) by (intro busy_not_candidate) (auto simp: stops_surplus_of_def)
    with some show ?thesis by (auto simp: stops_surplus_of_def)
  qed
qed

theorem busy_never_stopped_witness:
  "\<exists>new. stop_calls (t_out (snd (shutdown (quiet 0) busy_idle))) = new \<and> Some 0 \<notin> fst ` set new"
  using busy_never_stopped [of busy_idle 0 "snd (shutdown (quiet 0) busy_idle)" 0 "quiet 0"] by simp

text \<open>Stopping surplus slots calls the backend's Stop exactly once for each chosen candidate, in
  the order chosen and with its own unit, for no other slot, and whether or not earlier calls fail
  or the context ends; it never raises the live count.\<close>

lemma stop_surplus_calls:
  assumes "table_inv t"
  shows "stop_calls (t_out (stop_surplus d g ses t)) =
      stop_calls (t_out t) @ map (\<lambda>p. (Some p, s_unit (t_heap t p))) (candidates d g t) \<and>
    table_inv (stop_surplus d g ses t) \<and> count_live (stop_surplus d g ses t) \<le> count_live t"
  using stop_surplus_step [OF assms, of d g ses] by (simp add: good_step_def)


text \<open>C13: The slots chosen for stopping are the oldest eligible ones (ties broken by ID), each once,
  and as many as the excess of the live count over the desired count or as there are; every
  eligible slot left alone is at least as young as every chosen one.\<close>

theorem candidates_oldest:
  assumes "table_inv t"
  shows "distinct (candidates d g t) \<and>
    set (candidates d g t) \<subseteq> {p \<in> snd ` set (t_slots t). eligible g t p} \<and>
    length (candidates d g t) =
      min (nat (int (count_live t) - d)) (length (filter (eligible g t) (map snd (t_slots t)))) \<and>
    sorted (map (\<lambda>p. (s_started_at (t_heap t p), s_id (t_heap t p))) (candidates d g t)) \<and>
    (\<forall>p \<in> set (candidates d g t). \<forall>q \<in> snd ` set (t_slots t) - set (candidates d g t). eligible g t q \<longrightarrow>
       (s_started_at (t_heap t p), s_id (t_heap t p)) \<le> (s_started_at (t_heap t q), s_id (t_heap t q)))"
proof -
  let ?k = "\<lambda>p. (s_started_at (t_heap t p), s_id (t_heap t p))"
  let ?xs = "sort_key ?k (filter (eligible g t) (map snd (t_slots t)))"
  let ?n = "nat (int (count_live t) - d)"
  have c: "candidates d g t = take ?n ?xs" by (simp add: candidates_def Let_def)
  have so: "sorted (map ?k (take ?n ?xs @ drop ?n ?xs))" by simp
  then have "\<forall>p \<in> set (take ?n ?xs). \<forall>q \<in> set (drop ?n ?xs). ?k p \<le> ?k q"
    unfolding map_append sorted_append by (simp del: append_take_drop_id)
  moreover have "q \<in> set (drop ?n ?xs)"
    if "q \<in> snd ` set (t_slots t)" "eligible g t q" "q \<notin> set (take ?n ?xs)" for q
  proof -
    have "q \<in> set (take ?n ?xs @ drop ?n ?xs)" using that(1,2) by simp
    with that(3) show ?thesis by (simp del: append_take_drop_id)
  qed
  ultimately have "\<forall>p \<in> set (take ?n ?xs). \<forall>q \<in> snd ` set (t_slots t) - set (take ?n ?xs).
      eligible g t q \<longrightarrow> ?k p \<le> ?k q" by blast
  moreover have "sorted (map ?k (take ?n ?xs))" using so by (simp add: sorted_append take_map [symmetric] sorted_wrt_take)
  moreover have "length (take ?n ?xs) = min ?n (length (filter (eligible g t) (map snd (t_slots t))))"
    by (simp add: min.commute)
  ultimately show ?thesis
    using candidates_distinct [OF table_inv_slotsD [OF assms], of d g] candidates_mem [of _ d g t]
    unfolding c by blast
qed

theorem candidates_oldest_witness: "distinct (candidates 0 True busy_idle)"
  using candidates_oldest [of busy_idle 0 True] by simp

text \<open>Ensure is idempotent at the fixed point: when the live count is the desired count, no
  cleanup waits for a retry and nobody interferes, it makes no call and changes nothing.\<close>

lemma ensure_idempotent:
  assumes "int (count_live t) = d" "ee_acquired ee" "pending_cleanups t = []"
    and "ee_starts ee = [] \<or> fst (hd (ee_starts ee)) = []" "ee_before_stop ee = []"
  shows "ensure d ee t = (ee_ctx_err ee, t)"
proof -
  have r: "retry_cleanup (ee_cleanups ee) t = t"
    using assms(3) by (cases "ee_cleanups ee") (simp_all add: retry_cleanup_def)
  have l: "ensure_loop d (ee_starts ee) t = (False, t)"
    using assms(1,4) by (cases "ee_starts ee") auto
  have "stop_surplus d False (ee_stops ee) t = t"
    using assms(1) by (simp add: stop_surplus_def candidates_none)
  then show ?thesis using assms(2,5) by (simp add: ensure_def r l)
qed


text \<open>C9: Ensure reaches the desired count: on an open table that is short of it and has IDs left,
  if every slot directory on disk belongs to a slot, no failed cleanup is retried first, and the
  starts succeed undisturbed, Ensure returns no error and leaves exactly the desired number of live
  slots.\<close>

theorem ensure_reaches_desired:
  assumes "table_inv t" "\<not> t_closed t" "dirs_owned t" "ee_cleanups ee = []" "ee_acquired ee"
    and "\<forall>(as, se) \<in> set (ee_starts ee). as = [] \<and> smooth_start se" "ee_before_stop ee = []"
    and "int (count_live t) \<le> d" "nat (d - int (count_live t)) \<le> length (ee_starts ee)"
    and "length (t_slots t) + nat (d - int (count_live t)) \<le> max_slot_id" "\<not> ee_ctx_err ee"
  shows "fst (ensure d ee t) = False \<and> int (count_live (snd (ensure d ee t))) = d"
proof -
  from ensure_loop_reaches [OF assms(1,2,3,6,9,10)] assms(8) obtain t' where
    t': "ensure_loop d (ee_starts ee) t = (False, t')" "int (count_live t') = d" by auto
  then have "stop_surplus d False (ee_stops ee) t' = t'"
    by (simp add: stop_surplus_def candidates_none)
  with t' assms(4,5,7,11) show ?thesis by (simp add: ensure_def)
qed

theorem ensure_reaches_desired_witness:
  "int (count_live (snd (ensure 2 (quiet 2) empty_table))) = 2"
  using ensure_reaches_desired [of empty_table "quiet 2" 2]
  by (simp add: quiet_def max_slot_id_def)

end
