(* ===== verification/Slot_Exit_Properties.thy ===== *)
theory Slot_Exit_Properties
  imports Slot_Properties
begin

text \<open>
  Properties of slot identifiers and unit names, of the views of a table, of job claims and of exits.
\<close>

section \<open>Identifiers and views\<close>

text \<open>The ID read from a unit name is the ID the unit was named after: a unit name of this
  namespace is recognised exactly when it is the name of a valid slot ID, and no other unit is.\<close>

lemma unit_id_round_trip:
  "id_from_unit ns u = Some i \<longleftrightarrow> valid_id i \<and> u = unit_name ns i"
  using id_from_unit_Some [of ns u i] by (auto simp: id_from_unit_name)

text \<open>A new slot gets the lowest free identifier in 0001..9999, and none is given only when all
  of them are in use.\<close>

lemma next_id_lowest:
  "case next_id t of
     Some i \<Rightarrow> (\<exists>k. 1 \<le> k \<and> k \<le> max_slot_id \<and> i = fmt_04d k \<and> valid_id i \<and> map_of (t_slots t) i = None \<and>
                (\<forall>m \<in> {1..<k}. map_of (t_slots t) (fmt_04d m) \<noteq> None))
   | None \<Rightarrow> (\<forall>m \<in> {1..max_slot_id}. map_of (t_slots t) (fmt_04d m) \<noteq> None)"
proof (cases "next_id t")
  case None
  then show ?thesis using next_id_from_None [of 1 "t_slots t"] by (auto simp: next_id_def)
next
  case (Some i)
  then have "next_id_from 1 (t_slots t) = Some i" by (simp add: next_id_def)
  from next_id_from_Some [OF this] obtain k where k: "1 \<le> k" "k \<le> max_slot_id" "i = fmt_04d k"
    "map_of (t_slots t) i = None" "\<forall>m. 1 \<le> m \<and> m < k \<longrightarrow> map_of (t_slots t) (fmt_04d m) \<noteq> None"
    by blast
  then have "valid_id i" by (simp add: valid_id_fmt_04d)
  with k Some show ?thesis by auto
qed


text \<open>What Snapshot and Active return does not depend on the order in which the map is ranged
  over: they list every kept slot once, in ID order.\<close>

lemma snapshot_order_independent:
  assumes "table_inv t" "distinct xs" "set xs = set (t_slots t)"
  shows "snapshot_locked keep (t\<lparr>t_slots := xs\<rparr>) = snapshot_locked keep t \<and>
    sorted (map s_id (snapshot_locked keep t)) \<and> distinct (map s_id (snapshot_locked keep t)) \<and>
    set (map s_id (snapshot_locked keep t)) = {i. \<exists>p. (i, p) \<in> set (t_slots t) \<and> keep (state_of t p)}"
proof -
  define f where "f = (\<lambda>(i :: slot_id, p). slot.truncate (t_heap t p))"
  define P where "P = (\<lambda>(i :: slot_id, p). keep (state_of t p))"
  have s: "slots_ok t" using assms(1) by (rule table_inv_slotsD)
  have fid: "s_id (f x) = fst x" if "x \<in> set (t_slots t)" for x
    using that s by (auto simp: f_def slots_ok_def slot.defs)
  have fst_inj: "inj_on fst (set (t_slots t))" using s by (simp add: slots_ok_def distinct_map)
  have "inj_on (s_id \<circ> f) (set (t_slots t))"
    using fst_inj fid by (simp add: inj_on_def)
  then have inj: "inj_on f (set (filter P (t_slots t)))" "inj_on s_id (f ` set (filter P (t_slots t)))"
    by (auto simp: inj_on_def)
  have dt: "distinct (t_slots t)" using s by (simp add: slots_ok_def distinct_map)
  have e: "snapshot_locked keep t = sort_key s_id (map f (filter P (t_slots t)))"
    "snapshot_locked keep (t\<lparr>t_slots := xs\<rparr>) = sort_key s_id (map f (filter P xs))"
    by (simp_all add: snapshot_locked_def f_def P_def state_of_def)
  have dm: "distinct (map f (filter P (t_slots t)))" using dt inj by (simp add: distinct_map)
  have "snapshot_locked keep (t\<lparr>t_slots := xs\<rparr>) = snapshot_locked keep t"
    unfolding e using assms(2,3) dm inj
    by (intro sort_key_distinct_perm) (auto simp: distinct_map)
  moreover have "distinct (map s_id (snapshot_locked keep t))"
    unfolding e using dm inj by (simp add: distinct_map)
  moreover have "set (map s_id (snapshot_locked keep t)) =
      {i. \<exists>p. (i, p) \<in> set (t_slots t) \<and> keep (state_of t p)}"
    unfolding e using fid by (force simp: P_def)
  ultimately show ?thesis unfolding e by simp
qed


section \<open>Claims and exits\<close>

text \<open>The first job to claim a runner keeps it: a second claim for the same runner name reports
  that it found the runner but leaves the table as it is.\<close>

lemma first_claim_wins:
  assumes "cj_runner_name job2 = cj_runner_name job1"
  shows "claim job2 (snd (claim job1 t)) =
    (fst (claim job1 t), if fst (claim job1 t) then snd (claim job1 t) else t)"
proof (cases "find (\<lambda>(i, p). s_runner_name (t_heap t p) = cj_runner_name job1) (t_slots t)")
  case None
  then show ?thesis using assms by (simp add: claim_def)
next
  case (Some ip)
  obtain i p where ip: "ip = (i, p)" by fastforce
  define t1 where "t1 = snd (claim job1 t)"
  have t1: "t1 = (if state_of t p = StateStarting \<or> state_of t p = StateIdle \<or>
      (state_of t p = StateBusy \<and> \<not> r_claimed (t_heap t p))
      then upd_rec p (claim_rec job1 (t_now t)) t else t)"
    using Some ip by (simp add: t1_def claim_def)
  have names: "s_runner_name (t_heap t1 q) = s_runner_name (t_heap t q)" for q
    by (simp add: t1 claim_rec_def)
  have "find (\<lambda>(i, p). s_runner_name (t_heap t1 p) = cj_runner_name job2) (t_slots t1) = Some (i, p)"
    using Some ip assms names by (simp add: t1)
  moreover have "\<not> (state_of t1 p = StateStarting \<or> state_of t1 p = StateIdle \<or>
      (state_of t1 p = StateBusy \<and> \<not> r_claimed (t_heap t1 p)))"
    by (simp add: t1 claim_rec_def state_of_def)
  ultimately have "claim job2 t1 = (True, t1)" by (auto simp: claim_def)
  moreover have "fst (claim job1 t)" using Some ip by (simp add: claim_def)
  ultimately show ?thesis by (simp add: t1_def)
qed

definition demo_job :: claim_job where
  "demo_job = \<lparr>cj_runner_name = ''r'', cj_workflow_ref = ''w'', cj_run_id = 7, cj_queue_wait = 2\<rparr>"


text \<open>When a claimed runner's exit is observed, its completion is reported in that very step,
  with the job's identity and the usage since the claim, and every later observation of the exit of
  the same record changes nothing.\<close>

lemma exit_reports_completion:
  assumes "table_inv t" "map_of (t_slots t) i = Some p"
    and "r_claimed (t_heap t p)" "\<not> r_cleanup_pending (t_heap t p)" "o_completion_hook (t_opts t)"
  shows "\<exists>t' c. observe_exit i None t = (Some p, t') \<and> CompletionHook p c \<in> set (t_out t') \<and>
    completions_for p (t_out t') = 1 \<and> co_id c = i \<and>
    co_workflow_ref c = s_workflow_ref (t_heap t p) \<and> co_run_id c = s_run_id (t_heap t p) \<and>
    co_cpu_seconds c \<ge> 0 \<and> s_state (t_heap t' p) = StateStopping \<and>
    (\<forall>t'' e. evolves t' t'' \<and> map_of (t_slots t'') i \<in> {None, Some p} \<longrightarrow> observe_exit i e t'' = (None, t''))"
proof -
  have p: "p < t_next t" using slots_ok_ptr [OF table_inv_slotsD [OF assms(1)] assms(2)] by simp
  then have ok: "rec_ok (t_heap t p)" using assms(1) by (rule table_inv_recD [rotated])
  have st: "\<not> r_cleaning (t_heap t p)" "\<not> r_completion_sent (t_heap t p)"
    "s_state (t_heap t p) \<noteq> StateEmpty" "s_state (t_heap t p) \<noteq> StateFailed"
    using ok assms(4) by (auto simp: rec_ok_def)
  obtain t' where t': "observe_exit i None t = (Some p, t')"
    using assms(2,4) st by (simp add: observe_exit_def Let_def)
  define r where "r = (let r1 = exit_rec t (t_heap t p) in
    if r_exit_event r1 = Some EventAcquireFailure then r1\<lparr>r_exit_event := None\<rparr> else r1)"
  have same: "s_workflow_ref r = s_workflow_ref (t_heap t p)" "s_run_id r = s_run_id (t_heap t p)"
    by (simp_all add: r_def exit_rec_def Let_def)
  have c: "CompletionHook p (completion_of t i r) \<in> set (t_out t')" and pend: "r_cleanup_pending (t_heap t' p)"
    and st': "s_state (t_heap t' p) = StateStopping" and sent: "r_completion_sent (t_heap t' p)"
    using t' assms(2-5) st by (auto simp: observe_exit_def Let_def r_def exit_rec_def split: if_splits)
  have g: "good_step t t'" using good_step_observe_exit [OF assms(1), of i None] t' by simp
  have p': "p < t_next t'" using p g by (auto simp: good_step_def evolves_def)
  have "completions_for p (t_out t') = 1"
    using good_step_invD [OF g] p' sent by (simp add: table_inv_def completions_ok_def)
  moreover have "observe_exit i e t'' = (None, t'')"
    if "evolves t' t''" "map_of (t_slots t'') i \<in> {None, Some p}" for t'' e
    using evolves_recD [OF that(1) p'] that(2) pend by (auto simp: observe_exit_def rec_evolves_def)
  ultimately show ?thesis using t' c st' same
    by (intro exI [of _ t'] exI [of _ "completion_of t i r"]) (simp add: completion_of_def)
qed


text \<open>An exit is classified by what the slot did: a slot that was never busy and exits within the
  acquire grace is reported at once as an acquire failure, any other live slot's exit is kept as an
  exit event for the end of its cleanup, and a slot already being stopped reports none.\<close>

lemma exit_event_classified:
  assumes "table_inv t" "map_of (t_slots t) i = Some p" "\<not> r_cleanup_pending (t_heap t p)"
  shows "\<exists>t'. observe_exit i None t = (Some p, t') \<and>
    (if s_state (t_heap t p) = StateStopping
     then r_exit_event (t_heap t' p) = None
     else if quick_never_busy_exit t (t_heap t p) (s_state (t_heap t p))
     then r_exit_event (t_heap t' p) = None \<and>
       (o_event_hook (t_opts t) \<longrightarrow> (\<exists>s es. t_out t' = t_out t @ EmitEvent EventAcquireFailure s # es \<and> s_id s = i))
     else r_exit_event (t_heap t' p) = Some EventExited \<and>
       (\<exists>es. t_out t' = t_out t @ es \<and> (\<forall>ev s. EmitEvent ev s \<notin> set es)))"
proof -
  have p: "p < t_next t" "s_id (t_heap t p) = i"
    using slots_ok_ptr [OF table_inv_slotsD [OF assms(1)] assms(2)] by simp_all
  then have ok: "rec_ok (t_heap t p)" using assms(1) by (blast intro: table_inv_recD)
  have st: "\<not> r_cleaning (t_heap t p)" "s_state (t_heap t p) \<noteq> StateEmpty" "s_state (t_heap t p) \<noteq> StateFailed"
    "r_exit_event (t_heap t p) = None"
    using ok assms(3) by (auto simp: rec_ok_def)
  have q: "quick_never_busy_exit t ((t_heap t p)\<lparr>s_state := StateStopping, r_cleanup_pending := True,
      r_clean_done := OpenChan\<rparr>) prev = quick_never_busy_exit t (t_heap t p) prev" for prev
    by (simp add: quick_never_busy_exit_def)
  define snap where "snap = slot.truncate (exit_rec t (t_heap t p))"
  have "s_id snap = i" by (simp add: snap_def exit_rec_def Let_def slot.defs p(2))
  then show ?thesis
    using assms(2,3) st p(2)
    by (cases "s_state (t_heap t p) = StateStopping"; cases "quick_never_busy_exit t (t_heap t p) (s_state (t_heap t p))")
      (auto simp: observe_exit_def Let_def exit_rec_def q snap_def)
qed


end
