(* ===== verification/Slot_Cleanup_Properties.thy ===== *)
theory Slot_Cleanup_Properties
  imports Slot_Exit_Properties
begin

text \<open>
  Properties of cleanup, of the watch loop and of boot adoption.
\<close>

section \<open>Cleanup\<close>

text \<open>C11: An ID is free again only after its directory is wiped: when a cleanup worker ends, its slot
  leaves the table exactly when the wipe succeeded, its exit event is reported only then, and after
  a failed wipe the slot keeps its ID, stays stopping and is picked up by the next retry. Every other
  ID keeps its record.\<close>

theorem id_freed_after_wipe:
  assumes "table_inv t" "map_of (t_workers t) p = Some snap"
  shows "map_of (t_slots (clean_end p we t)) (s_id (t_heap t p)) =
      (if snd (wipe we t snap) then None else Some p) \<and>
    (\<forall>j. j \<noteq> s_id (t_heap t p) \<longrightarrow> map_of (t_slots (clean_end p we t)) j = map_of (t_slots t) j) \<and>
    (snd (wipe we t snap) \<longrightarrow> RemoveAll (s_dir (t_heap t p)) \<in> set (t_out (clean_end p we t))) \<and>
    (\<not> snd (wipe we t snap) \<longrightarrow> p \<in> set (pending_cleanups (clean_end p we t)) \<and>
       s_state (t_heap (clean_end p we t) p) = StateStopping \<and>
       (\<exists>es. t_out (clean_end p we t) = t_out t @ es \<and> (\<forall>ev s. EmitEvent ev s \<notin> set es)))"
proof -
  note w = workerD [OF assms]
  have noev: "EmitEvent ev s \<notin> set (fst (wipe we t snap))" for ev s
    by (simp add: wipe_def Let_def)
  show ?thesis
  proof (cases "snd (wipe we t snap)")
    case True
    then have "RemoveAll (s_dir (t_heap t p)) \<in> set (fst (wipe we t snap))"
      using w(6) by (auto simp: wipe_def Let_def split: if_splits)
    with True clean_end_ok [OF assms(2) True w(5)] show ?thesis by (auto simp: map_of_del_key)
  next
    case False
    have "(s_id (t_heap t p), p) \<in> set (t_slots t)" using w(5) by (rule map_of_SomeD)
    then have "p \<in> set (pending_cleanups (clean_end p we t))"
      using clean_end_failed [OF assms(2) False] clean_end_rec [OF assms(2), of we] w(3)
      by (force simp: pending_cleanups_def)
    with False clean_end_failed [OF assms(2) False] clean_end_rec [OF assms(2), of we] w noev
    show ?thesis by auto
  qed
qed

definition wipe_fails :: wipe_env where
  "wipe_fails = \<lparr>we_ctx1 = False, we_ctx2 = False, we_ctx3 = False, we_jit_err = False, we_remove_err = True\<rparr>"

definition busy_exiting :: table where
  "busy_exiting = clean_begin 0 (snd (observe_exit ''0001'' None busy_idle))"

lemma busy_exiting_facts [simp]:
  "table_inv busy_exiting" "\<exists>snap. map_of (t_workers busy_exiting) 0 = Some snap"
  "s_id (t_heap busy_exiting 0) = ''0001''"
proof -
  let ?t = "snd (observe_exit ''0001'' None busy_idle)"
  have g: "good_step busy_idle ?t" by (rule good_step_observe_exit) simp
  have nc: "\<not> r_cleaning (t_heap busy_idle 0)"
    using table_inv_recD [of busy_idle 0] by (auto simp: rec_ok_def)
  have st: "s_state (t_heap ?t 0) = StateStopping" "t_slots ?t = t_slots busy_idle"
    "s_id (t_heap ?t 0) = ''0001''" "\<not> r_cleaning (t_heap ?t 0)" "t_workers ?t = t_workers busy_idle"
    using nc by (simp_all add: observe_exit_def Let_def exit_rec_def)
  show "table_inv busy_exiting" unfolding busy_exiting_def
    using good_step_invD [OF g] st by (intro good_step_invD [OF good_step_clean_begin])
  have w: "t_workers busy_idle = []" by (simp add: busy_idle_def slot_in_def empty_table_def)
  show "\<exists>snap. map_of (t_workers busy_exiting) 0 = Some snap"
    using st w by (simp add: busy_exiting_def clean_begin_def Let_def)
  show "s_id (t_heap busy_exiting 0) = ''0001''" using st by (simp add: busy_exiting_def)
qed

theorem id_freed_after_wipe_witness:
  "map_of (t_slots (clean_end 0 wipe_fails busy_exiting)) ''0001'' = Some 0"
proof -
  obtain snap where s: "map_of (t_workers busy_exiting) 0 = Some snap"
    using busy_exiting_facts(2) by blast
  have "\<not> snd (wipe wipe_fails busy_exiting snap)" by (simp add: wipe_def wipe_fails_def Let_def)
  with id_freed_after_wipe [OF busy_exiting_facts(1) s, of wipe_fails] show ?thesis by simp
qed

text \<open>C12: The directory of a live slot is never removed: whenever a cleanup worker removes a
  directory, the only slot of the table that has it is the stopping slot the worker cleans.\<close>

theorem live_dir_never_removed:
  assumes "table_inv t" "RemoveAll dr \<in> set (fst (wipe we t snap))" "map_of (t_workers t) p = Some snap"
    and "(i, q) \<in> set (t_slots t)" "s_dir (t_heap t q) = dr"
  shows "q = p \<and> s_state (t_heap t q) = StateStopping"
proof -
  note w = workerD [OF assms(1,3)]
  have dr: "dr = s_dir (t_heap t p)"
    using assms(2) w(6) by (auto simp: wipe_def Let_def split: if_splits)
  have q: "q < t_next t" "s_id (t_heap t q) = i"
    using assms(1,4) by (auto simp: table_inv_def slots_ok_def)
  have n: "rec_names_ok t (t_heap t p)" "rec_names_ok t (t_heap t q)"
    using assms(1) w(1) q(1) by (auto simp: table_inv_def heap_ok_def)
  with dr assms(5) q have "i = s_id (t_heap t p)" by (auto simp: rec_names_ok_def slot_dir_inj)
  with assms(4) w(5) slots_ok_lookup [OF table_inv_slotsD [OF assms(1)]] have "q = p" by (metis option.inject)
  with w(4) show ?thesis by simp
qed

theorem live_dir_never_removed_witness:
  "\<exists>dr snap. map_of (t_workers busy_exiting) 0 = Some snap \<and>
     RemoveAll dr \<in> set (fst (wipe wipe_fails busy_exiting snap)) \<and>
     (\<forall>(i, q) \<in> set (t_slots busy_exiting). s_dir (t_heap busy_exiting q) = dr \<longrightarrow> q = 0)"
proof -
  obtain snap where s: "map_of (t_workers busy_exiting) 0 = Some snap"
    using busy_exiting_facts(2) by blast
  have r: "RemoveAll (s_dir snap) \<in> set (fst (wipe wipe_fails busy_exiting snap))"
    by (simp add: wipe_def wipe_fails_def Let_def)
  with s show ?thesis using live_dir_never_removed [OF busy_exiting_facts(1) r s] by blast
qed

section \<open>Watching\<close>

lemma watch_delays_bounds:
  "0 < delay \<Longrightarrow> delay \<le> 5 * second \<Longrightarrow>
   \<forall>x \<in> set (fst (watch_delays delay ws)). delay \<le> x \<and> x \<le> 5 * second"
proof (induction delay ws rule: watch_delays.induct)
  case (3 delay ws)
  let ?n = "if delay < 5 * second then min (delay * 2) (5 * second) else delay"
  have "0 < ?n" "?n \<le> 5 * second" "delay \<le> ?n" using "3.prems" by auto
  with "3.IH" have "\<forall>x \<in> set (fst (watch_delays ?n ws)). ?n \<le> x \<and> x \<le> 5 * second" by blast
  with \<open>delay \<le> ?n\<close> have "\<forall>x \<in> set (fst (watch_delays ?n ws)). delay \<le> x \<and> x \<le> 5 * second"
    by fastforce
  then show ?case using "3.prems" by (cases "watch_delays ?n ws") simp
qed auto

lemma watch_delays_steps:
  "sorted (fst (watch_delays delay ws)) \<and> length (fst (watch_delays delay ws)) = length (takeWhile Not ws) \<and>
   snd (watch_delays delay ws) = (True \<in> set ws)"
  if "0 < delay" "delay \<le> 5 * second"
  using that
proof (induction delay ws rule: watch_delays.induct)
  case (3 delay ws)
  let ?n = "if delay < 5 * second then min (delay * 2) (5 * second) else delay"
  have n: "0 < ?n" "?n \<le> 5 * second" "delay \<le> ?n" using "3.prems" by auto
  with watch_delays_bounds [OF n(1,2), of ws] n(3)
  have "\<forall>x \<in> set (fst (watch_delays ?n ws)). delay \<le> x" by fastforce
  with "3.IH" [OF n(1,2)] show ?case by (cases "watch_delays ?n ws") simp
qed auto

text \<open>A watch keeps asking until an exit is confirmed: it sleeps once per failed observation, for
  delays that never decrease and stay between 100 ms and 5 s, and it hands the slot over exactly
  when some observation confirms the exit.\<close>

lemma watch_backoff:
  "(\<forall>x \<in> set (fst (watch ws)). 100000000 \<le> x \<and> x \<le> 5 * second) \<and> sorted (fst (watch ws)) \<and>
   length (fst (watch ws)) = length (takeWhile Not ws) \<and> snd (watch ws) = (True \<in> set ws)"
  using watch_delays_bounds [of "100000000 * nanosecond" ws] watch_delays_steps [of "100000000 * nanosecond" ws]
  by (simp add: watch_def second_def nanosecond_def)


section \<open>Boot adoption\<close>

text \<open>C14: Boot adoption gives exactly one record to every directory with a valid ID, in the order of
  the listing, and to nothing else, whatever the other goroutines do while it waits for cleanups
  (the table is new and open, the listing has no name twice, and \<open>Adopt\<close> returns no error). The record
  has the ID, unit and directory of its entry. When its unit is active, the slot is busy, listed
  and watched, unless its exit was observed meanwhile, in which case it is in cleanup. When its unit
  is not active, the slot is stopping, in cleanup and not claimed. An ID leaves the table only after
  \<open>Adopt\<close> let a worker remove its directory, and the ID of an orphan whose worker ends well while
  \<open>Adopt\<close> waits is free again when \<open>Adopt\<close> returns.\<close>

theorem adopt_classifies:
  assumes "adopt ae units n t = (None, t')" "ae_entries ae = Some es" "distinct (map fst es)"
    and "table_inv t" "t_slots t = []" "\<not> t_closed t"
  defines "ids \<equiv> filter valid_id (map fst es)" and "calls \<equiv> length (t_out t)"
  shows "t_next t' = t_next t + length ids \<and> fst ` set (t_slots t') \<subseteq> set ids \<and>
    (\<forall>k < length ids. let p = t_next t + k; r = t_heap t' p in
       s_id r = ids ! k \<and> s_dir r = slot_dir t' (s_id r) \<and>
       s_unit r = unit_name (o_namespace (t_opts t')) (s_id r) \<and> (kept p t' \<or> released calls p t') \<and>
       (if s_unit r \<in> set units
        then kept p t' \<and> s_state r = StateBusy \<and> p \<in> set (t_watch t') \<and> \<not> r_cleanup_pending r \<or>
             s_state r = StateStopping \<and> r_cleanup_pending r \<and> exit_seen ae p (s_id r)
        else s_state r = StateStopping \<and> r_cleanup_pending r \<and> \<not> r_claimed r \<and>
             (\<forall>we as. ae_during ae (s_id r) = ACleanEnd p we # as \<and> wipe_succeeds we \<longrightarrow> released calls p t')))"
proof -
  have w: "walked calls ae units ids t t'" unfolding ids_def calls_def using assms(1-6) by (rule adopt_walked)
  have inv: "table_inv t'" using grow_step_invD [OF grow_step_adopt [OF assms(4), of ae units n]] assms(1) by simp
  have "let p = t_next t + k; r = t_heap t' p in
       s_id r = ids ! k \<and> s_dir r = slot_dir t' (s_id r) \<and>
       s_unit r = unit_name (o_namespace (t_opts t')) (s_id r) \<and> (kept p t' \<or> released calls p t') \<and>
       (if s_unit r \<in> set units
        then kept p t' \<and> s_state r = StateBusy \<and> p \<in> set (t_watch t') \<and> \<not> r_cleanup_pending r \<or>
             s_state r = StateStopping \<and> r_cleanup_pending r \<and> exit_seen ae p (s_id r)
        else s_state r = StateStopping \<and> r_cleanup_pending r \<and> \<not> r_claimed r \<and>
             (\<forall>we as. ae_during ae (s_id r) = ACleanEnd p we # as \<and> wipe_succeeds we \<longrightarrow> released calls p t'))"
    if "k < length ids" for k
  proof -
    have "adopted calls ae units (t_next t + k) (ids ! k) t'" using w that by (simp add: walked_def)
    from adopted_record [OF inv this] show ?thesis unfolding Let_def by presburger
  qed
  with w assms(5) show ?thesis by (simp add: walked_def)
qed

definition wipe_works :: wipe_env where
  "wipe_works = \<lparr>we_ctx1 = False, we_ctx2 = False, we_ctx3 = False, we_jit_err = False, we_remove_err = False\<rparr>"

definition demo_adopt :: adopt_env where
  "demo_adopt = \<lparr>ae_entries = Some [(''0001'', True), (''0002'', True), (''x'', True)],
     ae_runner_name = (\<lambda>_. []), ae_lstat = (\<lambda>_. LstatNotExist), ae_stop_err = (\<lambda>_. False),
     ae_during = (\<lambda>i. if i = ''0002'' then [ACleanEnd 1 wipe_works] else [])\<rparr>"

lemma not_valid_x [simp]: "\<not> valid_id ''x''"
  by (simp add: valid_id_def)

definition demo_adopted :: table where
  "demo_adopted = snd (adopt demo_adopt [unit_name ''default'' ''0001''] 6 empty_table)"

lemma demo_adopted_ok: "adopt demo_adopt [unit_name ''default'' ''0001''] 6 empty_table = (None, demo_adopted)"
proof -
  define u where "u = unit_name ''default'' ''0001''"
  have d: "fst (adopt_dirs demo_adopt [u] 5 [(''0001'', True), (''0002'', True), (''x'', True)] t) = Inr 2" for t
    by (simp add: eval_nat_numeral)
  have un: "fst (adopt_units demo_adopt 2 [u] t) = Inr 1" for t
    by (simp add: eval_nat_numeral demo_adopt_def Let_def split: option.split)
  have "fst (adopt demo_adopt [u] 6 empty_table) = None"
  proof -
    obtain t1 where t1: "adopt_dirs demo_adopt [u] 5 [(''0001'', True), (''0002'', True), (''x'', True)] empty_table = (Inr 2, t1)"
      using d by (metis prod.collapse)
    obtain t2 where "adopt_units demo_adopt 2 [u] t1 = (Inr 1, t2)" using un by (metis prod.collapse)
    moreover have "ae_entries demo_adopt = Some [(''0001'', True), (''0002'', True), (''x'', True)]"
      by (simp add: demo_adopt_def)
    ultimately show ?thesis using t1 by (simp add: adopt_def)
  qed
  then show ?thesis by (simp add: demo_adopted_def u_def prod_eq_iff)
qed

theorem adopt_classifies_witness:
  "map_of (t_slots demo_adopted) ''0001'' = Some 0 \<and> s_state (t_heap demo_adopted 0) = StateBusy \<and>
   map_of (t_slots demo_adopted) ''0002'' = None"
proof -
  define es where "es = [(''0001'', True), (''0002'', True), (''x'', True)]"
  have ids: "filter valid_id (map fst es) = [''0001'', ''0002'']" by (simp add: es_def)
  have es: "ae_entries demo_adopt = Some es" "distinct (map fst es)" by (simp_all add: es_def demo_adopt_def)
  have o: "t_opts demo_adopted = t_opts empty_table"
    using grow_step_adopt [of empty_table demo_adopt "[unit_name ''default'' ''0001'']" 6]
    by (simp add: demo_adopted_def grow_step_def evolves_def)
  have seen: "\<not> exit_seen demo_adopt p i" for p i by (simp add: exit_seen_def demo_adopt_def)
  note a = adopt_classifies [OF demo_adopted_ok es, unfolded ids Let_def, simplified o]
  have two: "0 < length [''0001'', ''0002'']" "1 < length [''0001'', ''0002'']" by simp_all
  from a two(1) seen have 1: "map_of (t_slots demo_adopted) ''0001'' = Some 0 \<and> s_state (t_heap demo_adopted 0) = StateBusy"
    by (fastforce simp: kept_def)
  from a have "released 0 1 demo_adopted" "s_id (t_heap demo_adopted 1) = ''0002''"
    by (auto simp: unit_name_inj demo_adopt_def wipe_succeeds_def wipe_works_def All_less_Suc)
  with 1 show ?thesis by (simp add: released_def)
qed

text \<open>Boot adoption stops only units that can have no slot: every unit it stops belongs to this
  namespace, has a valid slot ID, no record in the table and no directory on disk, and when adoption
  gets through, it has stopped all of those.\<close>

lemma adopt_stops_dirless:
  assumes "adopt_units ae n us t = (r, t')"
  shows "\<exists>ss. stop_calls (t_out t') = stop_calls (t_out t) @ map (Pair None) ss \<and>
    set ss \<subseteq> {u \<in> set us. \<exists>i. u = unit_name (o_namespace (t_opts t)) i \<and> valid_id i \<and>
      map_of (t_slots t) i = None \<and> ae_lstat ae (slot_dir t i) = LstatNotExist} \<and>
    ((\<exists>m. r = Inr m) \<longrightarrow> ss = filter (dirless ae t) us)"
proof -
  from adopt_units_stops [OF assms] obtain ss k where ss:
    "stop_calls (t_out t') = stop_calls (t_out t) @ map (Pair None) ss"
    "ss = filter (dirless ae t) (take k us)" "(\<exists>m. r = Inr m) \<longrightarrow> ss = filter (dirless ae t) us"
    by (auto simp: adopt_stops_def)
  have "\<exists>i. u = unit_name (o_namespace (t_opts t)) i \<and> valid_id i \<and> map_of (t_slots t) i = None \<and>
      ae_lstat ae (slot_dir t i) = LstatNotExist" if "dirless ae t u" for u
    using that by (auto simp: dirless_def dest: id_from_unit_Some split: option.splits)
  with ss show ?thesis by (intro exI [of _ ss]) (auto dest: in_set_takeD)
qed

end
