(* ===== verification/Reconcile.thy ===== *)
theory Reconcile
  imports Prelude
begin

text \<open>
  Package \<open>reconcile\<close>: the clamp of a raw desired count into a capacity window, and the
  \<open>Reconciler\<close>, which clamps, records and converges. The manager it drives is a parameter
  here (its \<open>SetDesired\<close> and \<open>Ensure\<close>), as it is an interface in the code.
\<close>

definition clamp :: "int \<Rightarrow> int \<Rightarrow> int \<Rightarrow> int" where
  "clamp v lo hi =
     (if lo > hi then hi
      else if v < lo then lo
      else if v > hi then hi
      else v)"

record 'm reconciler =
  rc_mgr :: 'm
  rc_min :: int
  rc_max :: int

text \<open>\<open>Reconcile\<close>: the clamped value is recorded before the table converges toward it.\<close>

definition reconcile ::
  "(int \<Rightarrow> 'm \<Rightarrow> 'm) \<Rightarrow> (int \<Rightarrow> 'm \<Rightarrow> 'e \<times> 'm) \<Rightarrow> 'm reconciler \<Rightarrow> int \<Rightarrow> 'e \<times> 'm reconciler" where
  "reconcile set_desired ensure r raw =
     (let desired = clamp raw (rc_min r) (rc_max r);
          m1 = set_desired desired (rc_mgr r);
          (e, m2) = ensure desired m1
      in (e, r\<lparr>rc_mgr := m2\<rparr>))"

lemma clamp_range: "lo \<le> hi \<Longrightarrow> lo \<le> clamp v lo hi \<and> clamp v lo hi \<le> hi"
  by (simp add: clamp_def)

lemma clamp_le_hi: "clamp v lo hi \<le> hi"
  by (simp add: clamp_def)

lemma clamp_id: "lo \<le> v \<Longrightarrow> v \<le> hi \<Longrightarrow> clamp v lo hi = v"
  by (simp add: clamp_def)

lemma clamp_idem [simp]: "clamp (clamp v lo hi) lo hi = clamp v lo hi"
  by (simp add: clamp_def)

lemma clamp_mono: "v \<le> w \<Longrightarrow> clamp v lo hi \<le> clamp w lo hi"
  by (simp add: clamp_def)

section \<open>The table a client converges\<close>

text \<open>
  What a client of a slot table relies on: recording the desired count changes no slot, converging
  never leaves more live slots than there were or than were asked for, and both keep the table
  well formed. \<open>shared_table\<close> adds that other goroutines work on the table meanwhile and never
  make a slot live.
\<close>

locale managed_table =
  fixes inv :: "'t \<Rightarrow> bool"
    and live_count :: "'t \<Rightarrow> nat"
    and set_desired :: "int \<Rightarrow> 't \<Rightarrow> 't"
    and ensure :: "int \<Rightarrow> 'x \<Rightarrow> 't \<Rightarrow> 'e \<times> 't"
  assumes set_desired_inv: "inv t \<Longrightarrow> inv (set_desired n t)"
    and set_desired_live: "live_count (set_desired n t) = live_count t"
    and ensure_inv: "inv t \<Longrightarrow> inv (snd (ensure n x t))"
    and ensure_bound: "inv t \<Longrightarrow> int (live_count (snd (ensure n x t))) \<le> max (int (live_count t)) n"
begin

lemma reconcile_bound:
  assumes "inv (rc_mgr r)"
  shows "inv (rc_mgr (snd (reconcile set_desired (\<lambda>n. ensure n x) r raw)))"
    and "int (live_count (rc_mgr (snd (reconcile set_desired (\<lambda>n. ensure n x) r raw)))) \<le>
      max (int (live_count (rc_mgr r))) (rc_max r)"
proof -
  let ?n = "clamp raw (rc_min r) (rc_max r)"
  let ?m = "set_desired ?n (rc_mgr r)"
  have i: "inv ?m" using assms by (rule set_desired_inv)
  have eq: "rc_mgr (snd (reconcile set_desired (\<lambda>n. ensure n x) r raw)) = snd (ensure ?n x ?m)"
    by (simp add: reconcile_def Let_def split: prod.split)
  show "inv (rc_mgr (snd (reconcile set_desired (\<lambda>n. ensure n x) r raw)))"
    unfolding eq using i by (rule ensure_inv)
  show "int (live_count (rc_mgr (snd (reconcile set_desired (\<lambda>n. ensure n x) r raw)))) \<le>
      max (int (live_count (rc_mgr r))) (rc_max r)"
    unfolding eq using ensure_bound [OF i, of ?n x] clamp_le_hi [of raw "rc_min r" "rc_max r"]
    by (simp add: set_desired_live)
qed

lemma ensure_below: "inv t \<Longrightarrow> n \<le> int b \<Longrightarrow> live_count t \<le> b \<Longrightarrow> live_count (snd (ensure n x t)) \<le> b"
  using ensure_bound [of t n x] by linarith

lemma ensure_one_more:
  "inv t \<Longrightarrow> live_count t \<le> b \<Longrightarrow> live_count (snd (ensure (int b + 1) x t)) \<le> Suc b"
  using ensure_bound [of t "int b + 1" x] by linarith

end

locale shared_table = managed_table +
  fixes meanwhile :: "'a list \<Rightarrow> 't \<Rightarrow> 't"
  assumes meanwhile_inv: "inv t \<Longrightarrow> inv (meanwhile as t)"
    and meanwhile_live: "inv t \<Longrightarrow> live_count (meanwhile as t) \<le> live_count t"
begin

text \<open>One visit of a scheduler: the live count is read, others work, the table converges toward one
  more slot, others work again.\<close>

lemma visit_one_more:
  assumes "inv t"
  shows "inv (meanwhile bs (snd (ensure (int (live_count t) + 1) x (meanwhile as t))))"
    and "live_count (meanwhile bs (snd (ensure (int (live_count t) + 1) x (meanwhile as t)))) \<le> Suc (live_count t)"
proof -
  have 1: "inv (meanwhile as t)" using assms by (rule meanwhile_inv)
  then have 2: "inv (snd (ensure (int (live_count t) + 1) x (meanwhile as t)))" by (rule ensure_inv)
  then show "inv (meanwhile bs (snd (ensure (int (live_count t) + 1) x (meanwhile as t))))"
    by (rule meanwhile_inv)
  from ensure_one_more [OF 1 meanwhile_live [OF assms]] meanwhile_live [OF 2]
  show "live_count (meanwhile bs (snd (ensure (int (live_count t) + 1) x (meanwhile as t)))) \<le> Suc (live_count t)"
    by (rule order_trans [rotated])
qed

end

end
