(* ===== verification/Slot_Interface.thy ===== *)
theory Slot_Interface
  imports Slot_Progress Reconcile
begin

text \<open>
  The slot table provides the interface its clients rely on: the reconciler converges it, and the
  host scheduler shares it with the other goroutines.
\<close>

lemma table_inv_set_desired: "table_inv t \<Longrightarrow> table_inv (set_desired n t)"
  by (simp add: set_desired_def)

lemma count_live_set_desired: "count_live (set_desired n t) = count_live t"
  by (simp add: set_desired_def)

lemma table_inv_ensure: "table_inv t \<Longrightarrow> table_inv (snd (ensure d ee t))"
  using ensure_step by (blast intro: grow_step_invD)

lemma count_live_ensure:
  "table_inv t \<Longrightarrow> int (count_live (snd (ensure d ee t))) \<le> max (int (count_live t)) d"
  using ensure_step by blast

interpretation slots: shared_table table_inv count_live set_desired ensure run
  by unfold_locales
    (auto intro: table_inv_set_desired count_live_set_desired table_inv_ensure count_live_ensure
      good_step_invD [OF good_step_run] good_step_countD [OF good_step_run])

text \<open>\<open>Active\<close> lists one slot per live record, so its length is the live count.\<close>

lemma length_active: "length (active t) = count_live t"
  by (simp add: active_def snapshot_locked_def count_live_def)

text \<open>The reconciler keeps a table within its capacity window: converging a slot table toward any
  raw desired count leaves it well formed and never with more live slots than there were or than
  the window's maximum.\<close>

lemma reconcile_within_capacity:
  assumes "table_inv (rc_mgr r)"
  shows "table_inv (rc_mgr (snd (reconcile set_desired (\<lambda>n. ensure n ee) r raw))) \<and>
    int (count_live (rc_mgr (snd (reconcile set_desired (\<lambda>n. ensure n ee) r raw)))) \<le>
      max (int (count_live (rc_mgr r))) (rc_max r)"
  using slots.reconcile_bound [OF assms] by blast

definition demo_ensure :: ensure_env where
  "demo_ensure = \<lparr>ee_acquired = True, ee_cleanups = [], ee_starts = [], ee_before_stop = [],
     ee_stops = [], ee_ctx_err = False\<rparr>"


end
