(* ===== verification/History.thy ===== *)
theory History
  imports Prelude
begin

text \<open>
  Package \<open>history\<close>: the usage statistics per workflow, pool and host, and the predictions made from
  them. A \<open>float64\<close> is a real number here, a \<open>uint64\<close> a 64-bit word; the file that persists the
  records is in \<open>History_File\<close>.
\<close>

record hist_record =
  h_pool :: string
  h_slot :: string
  h_ref :: string
  h_run_id :: int
  h_cpu :: float64
  h_mem :: u64
  h_wall :: float64
  h_queue_wait :: float64
  h_sampled :: bool
  h_at :: time

record stats =
  st_count :: int
  st_cpu :: float64
  st_mem :: u64
  st_wall :: float64
  st_sampled :: int

definition zero_stats :: stats where
  "zero_stats = \<lparr>st_count = 0, st_cpu = 0, st_mem = 0, st_wall = 0, st_sampled = 0\<rparr>"

record store =
  hs_refs :: "string \<times> string \<Rightarrow> stats option"
  hs_pools :: "string \<Rightarrow> stats option"
  hs_global :: stats

definition empty_store :: store where
  "empty_store = \<lparr>hs_refs = (\<lambda>_. None), hs_pools = (\<lambda>_. None), hs_global = zero_stats\<rparr>"

definition ewma_alpha :: float64 where "ewma_alpha = 1 / 4"

text \<open>A \<open>float64\<close> of a \<open>uint64\<close>, and the truncating conversion back.\<close>

definition float_of_u64 :: "u64 \<Rightarrow> float64" where
  "float_of_u64 w = real (unat w)"

definition u64_of_float :: "float64 \<Rightarrow> u64" where
  "u64_of_float x = word_of_int \<lfloor>x\<rfloor>"

definition blend :: "hist_record \<Rightarrow> stats \<Rightarrow> stats" where
  "blend r st =
     (let s1 = (if h_sampled r then
                  (if st_sampled st = 0 then st\<lparr>st_cpu := h_cpu r, st_mem := h_mem r\<rparr>
                   else st\<lparr>st_cpu := ewma_alpha * h_cpu r + (1 - ewma_alpha) * st_cpu st,
                           st_mem := u64_of_float (ewma_alpha * float_of_u64 (h_mem r) +
                                       (1 - ewma_alpha) * float_of_u64 (st_mem st) + 1 / 2)\<rparr>)
                    \<lparr>st_sampled := st_sampled st + 1\<rparr>
                else st)
      in s1\<lparr>st_wall := (if st_count st = 0 then h_wall r
                        else ewma_alpha * h_wall r + (1 - ewma_alpha) * st_wall st),
            st_count := st_count st + 1\<rparr>)"

definition stats_of :: "stats option \<Rightarrow> stats" where
  "stats_of so = (case so of None \<Rightarrow> zero_stats | Some st \<Rightarrow> st)"

definition absorb :: "hist_record \<Rightarrow> store \<Rightarrow> store" where
  "absorb r s =
     (let key = (h_pool r, h_ref r)
      in s\<lparr>hs_refs := (hs_refs s)(key := Some (blend r (stats_of (hs_refs s key)))),
           hs_pools := (hs_pools s)(h_pool r := Some (blend r (stats_of (hs_pools s (h_pool r))))),
           hs_global := blend r (hs_global s)\<rparr>)"

text \<open>The accessors \<open>Ref\<close>, \<open>Pool\<close> and \<open>Global\<close>.\<close>

definition ref_stats :: "store \<Rightarrow> string \<Rightarrow> string \<Rightarrow> stats" where
  "ref_stats s pool ref = stats_of (hs_refs s (pool, ref))"

definition pool_stats :: "store \<Rightarrow> string \<Rightarrow> stats" where
  "pool_stats s pool = stats_of (hs_pools s pool)"

section \<open>Predictions\<close>

definition sampled :: "stats option \<Rightarrow> bool" where
  "sampled so = (case so of None \<Rightarrow> False | Some st \<Rightarrow> st_sampled st > 0)"

definition usable_rate :: "stats option \<Rightarrow> bool" where
  "usable_rate so = (case so of None \<Rightarrow> False | Some st \<Rightarrow> st_sampled st > 0 \<and> st_wall st > 0)"

definition predict_cpu :: "store \<Rightarrow> string \<Rightarrow> string \<Rightarrow> float64 \<times> bool" where
  "predict_cpu s pool ref =
     (if sampled (hs_refs s (pool, ref)) then (st_cpu (stats_of (hs_refs s (pool, ref))), True)
      else if sampled (hs_pools s pool) then (st_cpu (stats_of (hs_pools s pool)), True)
      else if st_sampled (hs_global s) > 0 then (st_cpu (hs_global s), True)
      else (0, False))"

definition predict_mem :: "store \<Rightarrow> string \<Rightarrow> string \<Rightarrow> u64 \<times> bool" where
  "predict_mem s pool ref =
     (if sampled (hs_refs s (pool, ref)) then (st_mem (stats_of (hs_refs s (pool, ref))), True)
      else if sampled (hs_pools s pool) then (st_mem (stats_of (hs_pools s pool)), True)
      else if st_sampled (hs_global s) > 0 then (st_mem (hs_global s), True)
      else (0, False))"

definition predict_cores :: "store \<Rightarrow> string \<Rightarrow> string \<Rightarrow> float64 \<times> bool" where
  "predict_cores s pool ref =
     (let rate = (\<lambda>st. st_cpu st / st_wall st) in
      if usable_rate (hs_refs s (pool, ref)) then (rate (stats_of (hs_refs s (pool, ref))), True)
      else if usable_rate (hs_pools s pool) then (rate (stats_of (hs_pools s pool)), True)
      else if usable_rate (Some (hs_global s)) then (rate (hs_global s), True)
      else (0, False))"

declare zero_stats_def [eval_simps] empty_store_def [eval_simps] ewma_alpha_def [eval_simps]
  blend_def [eval_simps] stats_of_def [eval_simps] absorb_def [eval_simps] sampled_def [eval_simps]
  usable_rate_def [eval_simps] predict_cpu_def [eval_simps] predict_cores_def [eval_simps]

section \<open>Averages stay in range\<close>

lemma convex_range:
  fixes a :: real
  assumes "lo \<le> a" "a \<le> hi" "lo \<le> b" "b \<le> hi"
  shows "lo \<le> ewma_alpha * a + (1 - ewma_alpha) * b" "ewma_alpha * a + (1 - ewma_alpha) * b \<le> hi"
  using assms by (simp_all add: ewma_alpha_def)

lemma u64_of_float_range:
  assumes "real (unat lo) \<le> x" "x < real (unat hi) + 1"
  shows "lo \<le> u64_of_float x \<and> u64_of_float x \<le> hi"
proof -
  have l: "int (unat lo) \<le> \<lfloor>x\<rfloor>" using assms(1) by (simp add: le_floor_iff)
  have h: "\<lfloor>x\<rfloor> \<le> int (unat hi)" using assms(2) by (simp add: floor_le_iff)
  have "uint hi < 2 ^ 64" using uint_lt2p [of hi] by simp
  with h have "\<lfloor>x\<rfloor> < 2 ^ 64" by (metis int_nat_eq le_less_trans uint_nat)
  moreover have "0 \<le> \<lfloor>x\<rfloor>" using l by linarith
  ultimately have "\<lfloor>x\<rfloor> mod 2 ^ 64 = \<lfloor>x\<rfloor>" by (rule mod_pos_pos_trivial [rotated])
  then have "uint (u64_of_float x) = \<lfloor>x\<rfloor>"
    unfolding u64_of_float_def by (simp add: uint_word_of_int)
  with l h show ?thesis by (simp add: word_le_def)
qed

text \<open>One aggregate stays within the range of the sampled records it has seen.\<close>

definition stats_within :: "float64 \<Rightarrow> float64 \<Rightarrow> u64 \<Rightarrow> u64 \<Rightarrow> stats \<Rightarrow> bool" where
  "stats_within lo hi mlo mhi st \<longleftrightarrow>
     0 \<le> st_sampled st \<and>
     (0 < st_sampled st \<longrightarrow> lo \<le> st_cpu st \<and> st_cpu st \<le> hi \<and> mlo \<le> st_mem st \<and> st_mem st \<le> mhi)"

definition record_within :: "float64 \<Rightarrow> float64 \<Rightarrow> u64 \<Rightarrow> u64 \<Rightarrow> hist_record \<Rightarrow> bool" where
  "record_within lo hi mlo mhi r \<longleftrightarrow>
     (h_sampled r \<longrightarrow> lo \<le> h_cpu r \<and> h_cpu r \<le> hi \<and> mlo \<le> h_mem r \<and> h_mem r \<le> mhi)"

lemma blend_within:
  assumes "stats_within lo hi mlo mhi st" "record_within lo hi mlo mhi r"
  shows "stats_within lo hi mlo mhi (blend r st)"
proof (cases "h_sampled r \<and> st_sampled st \<noteq> 0")
  case True
  with assms have b: "lo \<le> h_cpu r" "h_cpu r \<le> hi" "lo \<le> st_cpu st" "st_cpu st \<le> hi"
    "mlo \<le> h_mem r" "h_mem r \<le> mhi" "mlo \<le> st_mem st" "st_mem st \<le> mhi" "0 < st_sampled st"
    by (auto simp: stats_within_def record_within_def)
  let ?x = "ewma_alpha * float_of_u64 (h_mem r) + (1 - ewma_alpha) * float_of_u64 (st_mem st) + 1 / 2"
  have "real (unat mlo) \<le> ?x" "?x < real (unat mhi) + 1"
    using b(5-8) convex_range [of "real (unat mlo)" "float_of_u64 (h_mem r)" "real (unat mhi)" "float_of_u64 (st_mem st)"]
    unfolding word_le_nat_alt float_of_u64_def of_nat_le_iff by linarith+
  then have "mlo \<le> u64_of_float ?x \<and> u64_of_float ?x \<le> mhi" by (rule u64_of_float_range)
  with True b convex_range [OF b(1-4)] show ?thesis
    by (simp add: stats_within_def blend_def Let_def)
next
  case False
  with assms show ?thesis
    by (auto simp: stats_within_def record_within_def blend_def Let_def)
qed

definition store_within :: "float64 \<Rightarrow> float64 \<Rightarrow> u64 \<Rightarrow> u64 \<Rightarrow> store \<Rightarrow> bool" where
  "store_within lo hi mlo mhi s \<longleftrightarrow>
     (\<forall>k. stats_within lo hi mlo mhi (stats_of (hs_refs s k))) \<and>
     (\<forall>p. stats_within lo hi mlo mhi (stats_of (hs_pools s p))) \<and>
     stats_within lo hi mlo mhi (hs_global s)"

lemma absorb_within:
  "store_within lo hi mlo mhi s \<Longrightarrow> record_within lo hi mlo mhi r \<Longrightarrow>
   store_within lo hi mlo mhi (absorb r s)"
  by (auto simp: store_within_def absorb_def Let_def stats_of_def blend_within split: option.splits)

lemma absorb_list_within:
  "store_within lo hi mlo mhi s \<Longrightarrow> \<forall>r \<in> set rs. record_within lo hi mlo mhi r \<Longrightarrow>
   store_within lo hi mlo mhi (foldl (\<lambda>s r. absorb r s) s rs)"
  by (induction rs arbitrary: s) (auto intro: absorb_within)

lemma empty_store_within: "store_within lo hi mlo mhi empty_store"
  by (simp add: store_within_def empty_store_def stats_of_def stats_within_def zero_stats_def)

lemma predict_within:
  "store_within lo hi mlo mhi s \<Longrightarrow> snd (predict_cpu s pool ref) \<Longrightarrow>
   lo \<le> fst (predict_cpu s pool ref) \<and> fst (predict_cpu s pool ref) \<le> hi"
  "store_within lo hi mlo mhi s \<Longrightarrow> snd (predict_mem s pool ref) \<Longrightarrow>
   mlo \<le> fst (predict_mem s pool ref) \<and> fst (predict_mem s pool ref) \<le> mhi"
proof -
  assume s: "store_within lo hi mlo mhi s"
  have r: "stats_within lo hi mlo mhi st"
    if "hs_refs s (pool, ref) = Some st \<or> hs_pools s pool = Some st \<or> hs_global s = st" for st
    using that s unfolding store_within_def stats_of_def by (metis option.simps(5))
  show "snd (predict_cpu s pool ref) \<Longrightarrow>
      lo \<le> fst (predict_cpu s pool ref) \<and> fst (predict_cpu s pool ref) \<le> hi"
    "snd (predict_mem s pool ref) \<Longrightarrow>
      mlo \<le> fst (predict_mem s pool ref) \<and> fst (predict_mem s pool ref) \<le> mhi"
    using r by (auto simp: predict_cpu_def predict_mem_def sampled_def stats_of_def stats_within_def
        split: option.splits if_splits)
qed

section \<open>Properties\<close>

definition demo_record :: "nat \<Rightarrow> hist_record" where
  "demo_record k = \<lparr>h_pool = ''p'', h_slot = ''0001'', h_ref = ''w'', h_run_id = int k, h_cpu = real k,
     h_mem = of_nat k, h_wall = 1, h_queue_wait = 0, h_sampled = True, h_at = 1\<rparr>"

text \<open>Every prediction is an average of what was measured: whatever records a store has absorbed,
  a predicted CPU time lies between the smallest and the largest sampled CPU time, and a predicted
  memory peak between the smallest and the largest sampled peak, rounding to whole bytes included.\<close>

lemma prediction_in_sampled_range:
  assumes "\<forall>r \<in> set rs. h_sampled r \<longrightarrow> lo \<le> h_cpu r \<and> h_cpu r \<le> hi \<and> mlo \<le> h_mem r \<and> h_mem r \<le> mhi"
    and "s = foldl (\<lambda>s r. absorb r s) empty_store rs"
  shows "(snd (predict_cpu s pool ref) \<longrightarrow> lo \<le> fst (predict_cpu s pool ref) \<and> fst (predict_cpu s pool ref) \<le> hi) \<and>
    (snd (predict_mem s pool ref) \<longrightarrow> mlo \<le> fst (predict_mem s pool ref) \<and> fst (predict_mem s pool ref) \<le> mhi)"
proof -
  have "store_within lo hi mlo mhi s"
    unfolding assms(2) using assms(1)
    by (intro absorb_list_within empty_store_within) (simp add: record_within_def)
  then show ?thesis using predict_within by blast
qed


end
