(* ===== verification/Pool.thy ===== *)
theory Pool
  imports Slot_Interface History
begin

text \<open>
  One pool of the daemon (\<open>app/pool.go\<close>): its slot table, the desired count its listener pushes, the
  hints about queued workflows, the backoff after failed acquisitions, and the translation of
  listener, slot and completion events. Calls into the metrics registry and the nudge of the host
  scheduler are effects.
\<close>

text \<open>\<open>scaleset.Job\<close>: one workflow job of the message stream.\<close>

record job =
  jb_runner_name :: string
  jb_job_id :: string
  jb_workflow_ref :: string
  jb_run_id :: int
  jb_event_name :: string
  jb_queue_time :: time
  jb_assign_time :: time
  jb_finish_time :: time
  jb_result :: string

datatype host_call =
  RequestReconcile
| IncJobsStarted string
| IncAcquireFailures string
| IncAdmissionHolds string
| SetLastMessageID string int
| ObserveJobCPU string float64
| SetJobPeakMem string u64
| ObserveJobWall string float64
| IncJobsCompleted string string

record pool =
  pl_id :: string
  pl_min :: int
  pl_max :: int
  pl_built :: bool
  pl_table :: table
  pl_desired :: int
  pl_session_up :: bool
  pl_queued :: "(string \<times> nat) list"
  pl_queued_at :: "(string \<times> time) list"
  pl_retry_after :: time
  pl_retry_delay :: duration

definition max_queued_refs :: nat where "max_queued_refs = 1024"
definition queued_hint_ttl :: duration where "queued_hint_ttl = 10 * minute"

definition new_pool_runtime :: "string \<Rightarrow> int \<Rightarrow> int \<Rightarrow> table \<Rightarrow> pool" where
  "new_pool_runtime pid lo hi t =
     \<lparr>pl_id = pid, pl_min = lo, pl_max = hi, pl_built = False, pl_table = t, pl_desired = 0,
      pl_session_up = False, pl_queued = [], pl_queued_at = [], pl_retry_after = 0, pl_retry_delay = 0\<rparr>"

section \<open>Queued hints\<close>

text \<open>The count and the time of a hint; a missing entry has Go's zero value.\<close>

definition hint_count :: "pool \<Rightarrow> string \<Rightarrow> nat" where
  "hint_count p ref = (case map_of (pl_queued p) ref of None \<Rightarrow> 0 | Some n \<Rightarrow> n)"

definition hint_at :: "pool \<Rightarrow> string \<Rightarrow> time" where
  "hint_at p ref = (case map_of (pl_queued_at p) ref of None \<Rightarrow> 0 | Some m \<Rightarrow> m)"

definition hint_expired :: "time \<Rightarrow> pool \<Rightarrow> string \<times> nat \<Rightarrow> bool" where
  "hint_expired now p e =
     (snd e = 0 \<or> (hint_at p (fst e) \<noteq> 0 \<and> now - hint_at p (fst e) > queued_hint_ttl))"

definition expire_queued :: "time \<Rightarrow> pool \<Rightarrow> pool" where
  "expire_queued now p =
     (let dead = map fst (filter (hint_expired now p) (pl_queued p))
      in p\<lparr>pl_queued := filter (\<lambda>e. \<not> hint_expired now p e) (pl_queued p),
           pl_queued_at := filter (\<lambda>(ref, m). ref \<notin> set dead) (pl_queued_at p)\<rparr>)"

definition note_ref :: "time \<Rightarrow> string \<Rightarrow> pool \<Rightarrow> pool" where
  "note_ref now ref p =
     (if ref = [] then p
      else if map_of (pl_queued p) ref = None \<and> length (pl_queued p) \<ge> max_queued_refs then p
      else p\<lparr>pl_queued := put_key ref (min (hint_count p ref + 1) 9999) (pl_queued p),
             pl_queued_at := put_key ref now (pl_queued_at p)\<rparr>)"

definition note_queued :: "time \<Rightarrow> string list \<Rightarrow> pool \<Rightarrow> pool" where
  "note_queued now refs p = foldl (\<lambda>p ref. note_ref now ref p) (expire_queued now p) refs"

definition consume_queued_ref :: "string \<Rightarrow> pool \<Rightarrow> pool" where
  "consume_queued_ref ref p =
     (if hint_count p ref \<le> 1
      then p\<lparr>pl_queued := del_key ref (pl_queued p), pl_queued_at := del_key ref (pl_queued_at p)\<rparr>
      else p\<lparr>pl_queued := put_key ref (hint_count p ref - 1) (pl_queued p)\<rparr>)"

text \<open>\<open>candidateEstimate\<close>: the largest queued estimate in each dimension, or the pool's own estimate
  when nothing is queued.\<close>

definition candidate_estimate :: "store option \<Rightarrow> time \<Rightarrow> pool \<Rightarrow> (float64 \<times> u64) \<times> pool" where
  "candidate_estimate hist now p =
     (case hist of None \<Rightarrow> ((0, 0), p)
      | Some h \<Rightarrow>
          let p1 = expire_queued now p in
          if pl_queued p1 = []
          then ((fst (predict_cores h (pl_id p) []), fst (predict_mem h (pl_id p) [])), p1)
          else (foldl (\<lambda>(c, m) (ref, n). (max c (fst (predict_cores h (pl_id p) ref)),
                                        max m (fst (predict_mem h (pl_id p) ref)))) (0, 0) (pl_queued p1), p1))"

section \<open>Retry backoff\<close>

text \<open>\<open>recordAcquireFailure\<close> reads the clock twice.\<close>

definition record_acquire_failure :: "time \<Rightarrow> time \<Rightarrow> pool \<Rightarrow> pool" where
  "record_acquire_failure now now2 p =
     (let delay = (if pl_retry_delay p = 0 \<or> now - pl_retry_after p > 3 * minute then second
                   else min (pl_retry_delay p * 2) (30 * second))
      in p\<lparr>pl_retry_delay := delay, pl_retry_after := now2 + delay\<rparr>)"

definition acquire_retry_wait :: "time \<Rightarrow> pool \<Rightarrow> duration" where
  "acquire_retry_wait now p = max 0 (pl_retry_after p - now)"

section \<open>Events\<close>

definition queue_wait :: "job \<Rightarrow> float64" where
  "queue_wait jb =
     (if jb_queue_time jb = 0 \<or> jb_assign_time jb = 0 then 0
      else let wait = seconds_of (jb_assign_time jb - jb_queue_time jb)
           in if wait < 0 then 0 else wait)"

text \<open>The callbacks of \<open>buildEvents\<close>. Log lines are left out.\<close>

definition on_session_started :: "pool \<Rightarrow> pool" where
  "on_session_started p = p\<lparr>pl_session_up := True\<rparr>"

definition on_desired :: "int \<Rightarrow> pool \<Rightarrow> pool \<times> host_call list" where
  "on_desired n p = (p\<lparr>pl_desired := clamp n (pl_min p) (pl_max p)\<rparr>, [RequestReconcile])"

definition on_job_start :: "job \<Rightarrow> pool \<Rightarrow> pool \<times> host_call list" where
  "on_job_start jb p =
     (if \<not> pl_built p then (p, [])
      else
        let (found, t) = claim \<lparr>cj_runner_name = jb_runner_name jb, cj_workflow_ref = jb_workflow_ref jb,
                               cj_run_id = jb_run_id jb, cj_queue_wait = queue_wait jb\<rparr> (pl_table p);
            p1 = p\<lparr>pl_table := t\<rparr>
        in if found then (consume_queued_ref (jb_workflow_ref jb) p1, [IncJobsStarted (pl_id p)])
           else (p1, []))"

definition on_job_end :: "job \<Rightarrow> pool \<Rightarrow> pool" where
  "on_job_end jb p =
     (if pl_built p then p\<lparr>pl_table := mark_result (jb_runner_name jb) (jb_result jb) (pl_table p)\<rparr> else p)"

definition on_message_id :: "int \<Rightarrow> pool \<Rightarrow> host_call list" where
  "on_message_id n p = [SetLastMessageID (pl_id p) n]"

definition on_slot_event :: "time \<Rightarrow> time \<Rightarrow> event \<Rightarrow> pool \<Rightarrow> pool \<times> host_call list" where
  "on_slot_event now now2 ev p =
     (case ev of
        EventAcquireFailure \<Rightarrow> (record_acquire_failure now now2 p, [IncAcquireFailures (pl_id p)])
      | EventAdmissionHold \<Rightarrow> (p, [IncAdmissionHolds (pl_id p)])
      | EventStarted \<Rightarrow> (p, [])
      | EventExited \<Rightarrow> (p, [RequestReconcile])
      | EventStopped \<Rightarrow> (p, [RequestReconcile]))"

text \<open>\<open>onCompletion\<close>: the record for the history (when there is one) and the metrics calls.\<close>

definition on_completion :: "bool \<Rightarrow> time \<Rightarrow> completion \<Rightarrow> pool \<Rightarrow> hist_record option \<times> host_call list" where
  "on_completion has_hist now c p =
     ((if has_hist then Some \<lparr>h_pool = pl_id p, h_slot = co_id c, h_ref = co_workflow_ref c,
         h_run_id = co_run_id c, h_cpu = co_cpu_seconds c, h_mem = co_peak_mem c,
         h_wall = co_wall_seconds c, h_queue_wait = co_queue_wait c, h_sampled = co_sampled c, h_at = now\<rparr>
       else None),
      (if co_sampled c then [ObserveJobCPU (pl_id p) (co_cpu_seconds c)] else []) @
      (if co_peak_mem c > 0 then [SetJobPeakMem (pl_id p) (co_peak_mem c)] else []) @
      [ObserveJobWall (pl_id p) (co_wall_seconds c),
       IncJobsCompleted (pl_id p) (if co_result c = [] then ''unknown'' else co_result c)])"

section \<open>The hints invariant\<close>

text \<open>Hints have distinct keys, each with a time, at most 1024 of them, and counts in 1..9999.\<close>

definition hints_ok :: "pool \<Rightarrow> bool" where
  "hints_ok p \<longleftrightarrow>
     distinct (map fst (pl_queued p)) \<and> fst ` set (pl_queued_at p) = fst ` set (pl_queued p) \<and>
     distinct (map fst (pl_queued_at p)) \<and> length (pl_queued p) \<le> max_queued_refs \<and>
     (\<forall>(ref, n) \<in> set (pl_queued p). 1 \<le> n \<and> n \<le> 9999)"

lemma set_put_key: "set (put_key k v xs) \<subseteq> insert (k, v) (set xs)"
  by (induction k v xs rule: put_key.induct) auto

lemma hint_count_bound:
  "hints_ok p \<Longrightarrow> map_of (pl_queued p) ref = Some n \<Longrightarrow> hint_count p ref = n \<and> 1 \<le> n \<and> n \<le> 9999"
  by (auto simp: hints_ok_def hint_count_def dest!: map_of_SomeD)

lemma hints_ok_expire:
  assumes "hints_ok p"
  shows "hints_ok (expire_queued now p)"
proof -
  have "fst ` set (filter (\<lambda>e. \<not> hint_expired now p e) (pl_queued p)) =
      fst ` set (pl_queued p) - fst ` set (filter (hint_expired now p) (pl_queued p))"
  proof
    show "fst ` set (filter (\<lambda>e. \<not> hint_expired now p e) (pl_queued p)) \<subseteq>
        fst ` set (pl_queued p) - fst ` set (filter (hint_expired now p) (pl_queued p))"
      using assms by (auto simp: hints_ok_def dest: eq_key_imp_eq_value)
  qed auto
  moreover have "fst ` set (filter (\<lambda>(ref, m). ref \<notin> A) (pl_queued_at p)) = fst ` set (pl_queued_at p) - A" for A
    by force
  ultimately show ?thesis using assms
    by (auto simp: hints_ok_def expire_queued_def Let_def distinct_map_filter
        intro: order_trans [OF length_filter_le])
qed

lemma hints_ok_note_ref: "hints_ok p \<Longrightarrow> hints_ok (note_ref now ref p)"
proof -
  assume h: "hints_ok p"
  show ?thesis
  proof (cases "ref = [] \<or> (map_of (pl_queued p) ref = None \<and> length (pl_queued p) \<ge> max_queued_refs)")
    case True
    with h show ?thesis by (auto simp: note_ref_def)
  next
    case False
    then have "length (put_key ref n (pl_queued p)) \<le> max_queued_refs" for n
      using h by (auto simp: length_put_key hints_ok_def map_of_eq_None_iff)
    moreover have "\<forall>(r, n) \<in> set (put_key ref (min (hint_count p ref + 1) 9999) (pl_queued p)). 1 \<le> n \<and> n \<le> 9999"
      using h set_put_key [of ref "min (hint_count p ref + 1) 9999" "pl_queued p"]
      by (fastforce simp: hints_ok_def)
    ultimately show ?thesis using h False
      by (auto simp: note_ref_def hints_ok_def distinct_put_key fst_put_key)
  qed
qed

lemma hints_ok_note_queued: "hints_ok p \<Longrightarrow> hints_ok (note_queued now refs p)"
proof -
  have "hints_ok p \<Longrightarrow> hints_ok (foldl (\<lambda>p ref. note_ref now ref p) p refs)" for p
    by (induction refs arbitrary: p) (auto simp: hints_ok_note_ref)
  then show "hints_ok p \<Longrightarrow> hints_ok (note_queued now refs p)"
    by (simp add: note_queued_def hints_ok_expire)
qed

lemma hints_ok_consume: "hints_ok p \<Longrightarrow> hints_ok (consume_queued_ref ref p)"
proof -
  assume h: "hints_ok p"
  show ?thesis
  proof (cases "hint_count p ref \<le> 1")
    case True
    with h show ?thesis
      by (auto simp: consume_queued_ref_def hints_ok_def distinct_fst_del_key fst_del_key
          intro: order_trans [OF length_del_key] dest!: in_del_keyD)
  next
    case False
    then obtain n where n: "map_of (pl_queued p) ref = Some n"
      by (auto simp: hint_count_def split: option.splits)
    then have "ref \<in> fst ` set (pl_queued p)" by (metis map_of_eq_None_iff option.distinct(1))
    moreover have "\<forall>(r, k) \<in> set (put_key ref (n - 1) (pl_queued p)). 1 \<le> k \<and> k \<le> 9999"
      using h False hint_count_bound [OF h n] set_put_key [of ref "n - 1" "pl_queued p"]
      by (fastforce simp: hints_ok_def)
    ultimately show ?thesis using h False hint_count_bound [OF h n]
      by (auto simp: consume_queued_ref_def hints_ok_def distinct_put_key fst_put_key length_put_key)
  qed
qed

lemma table_inv_on_job_start:
  "table_inv (pl_table p) \<Longrightarrow> table_inv (pl_table (fst (on_job_start jb p)))"
proof -
  assume i: "table_inv (pl_table p)"
  have "pl_table (consume_queued_ref ref q) = pl_table q" for ref q by (simp add: consume_queued_ref_def)
  moreover have "table_inv (snd (claim cj (pl_table p)))" for cj
    using good_step_claim [OF i] by (rule good_step_invD)
  ultimately show ?thesis using i by (simp add: on_job_start_def Let_def split: prod.split) (metis snd_conv)
qed

end
