(* ===== verification/Scheduler.thy ===== *)
theory Scheduler
  imports Pool
begin

text \<open>
  The host scheduler (\<open>app/scheduler.go\<close>): it first removes the surplus of every pool, then gives
  the free host slots away round-robin, one at a time; the admission gate and the retry timer. The
  other goroutines work on the pools whenever the scheduler is between two of its calls: a pause
  says what they do to each pool meanwhile.
\<close>

record daemon =
  dm_pools :: "pool list"
  dm_cursor :: nat
  dm_max_runners :: int

record pause =
  pa_asyncs :: "nat \<Rightarrow> async list"
  pa_desired :: "nat \<Rightarrow> int option"
  pa_failures :: "nat \<Rightarrow> (time \<times> time) list"

definition pause_pool :: "pause \<Rightarrow> nat \<Rightarrow> pool \<Rightarrow> pool" where
  "pause_pool pz k p =
     (let p1 = p\<lparr>pl_table := run (pa_asyncs pz k) (pl_table p)\<rparr>;
          p2 = (case pa_desired pz k of None \<Rightarrow> p1 | Some n \<Rightarrow> fst (on_desired n p1))
      in foldl (\<lambda>p (now, now2). record_acquire_failure now now2 p) p2 (pa_failures pz k))"

definition pause_all :: "pause \<Rightarrow> daemon \<Rightarrow> daemon" where
  "pause_all pz d = d\<lparr>dm_pools := map (\<lambda>(k, p). pause_pool pz k p) (List.enumerate 0 (dm_pools d))\<rparr>"

definition set_table :: "nat \<Rightarrow> table \<Rightarrow> daemon \<Rightarrow> daemon" where
  "set_table k t d = d\<lparr>dm_pools := (dm_pools d)[k := (dm_pools d ! k)\<lparr>pl_table := t\<rparr>]\<rparr>"

abbreviation table_at :: "daemon \<Rightarrow> nat \<Rightarrow> table" where
  "table_at d k \<equiv> pl_table (dm_pools d ! k)"

text \<open>\<open>allActive\<close>, and the number of live slots on the host.\<close>

definition all_active :: "daemon \<Rightarrow> slot list" where
  "all_active d = concat (map (\<lambda>p. active (pl_table p)) (dm_pools d))"

definition host_live :: "daemon \<Rightarrow> nat" where
  "host_live d = sum_list (map (\<lambda>p. count_live (pl_table p)) (dm_pools d))"

text \<open>What one call of \<open>Ensure\<close> by the scheduler meets: the pauses before and after it, its own
  environment, the time its retry wait is read and whether the context has ended.\<close>

record visit =
  vi_before :: pause
  vi_ensure :: ensure_env
  vi_after :: pause
  vi_now :: time
  vi_ctx_err :: bool

datatype sched_result = SchedOk | SchedErr | SchedCtx | SchedUnfinished

section \<open>Reconciling the pools\<close>

text \<open>The first loop of \<open>reconcilePools\<close>: surplus is removed pool by pool.\<close>

definition maintain_one :: "visit \<Rightarrow> nat \<Rightarrow> daemon \<Rightarrow> bool \<times> daemon" where
  "maintain_one v k d =
     (let desired = pl_desired (dm_pools d ! k);
          d1 = set_table k (set_desired desired (table_at d k)) d;
          lv = length (active (table_at d1 k));
          d2 = pause_all (vi_before v) d1;
          (err, t) = ensure (min (int lv) desired) (vi_ensure v) (table_at d2 k)
      in (err, pause_all (vi_after v) (set_table k t d2)))"

fun maintain :: "(nat \<Rightarrow> visit) \<Rightarrow> nat list \<Rightarrow> daemon \<Rightarrow> bool \<times> daemon" where
  "maintain vs [] d = (False, d)"
| "maintain vs (k # ks) d =
     (case maintain_one (vs k) k d of
        (True, d1) \<Rightarrow> (True, d1)
      | (False, d1) \<Rightarrow> maintain vs ks d1)"

text \<open>One iteration of the second loop, past its context check: the new daemon, the change of the
  host_total (\<open>None\<close> when the pool made no progress) and whether \<open>Ensure\<close> failed.\<close>

definition grow_one :: "visit \<Rightarrow> daemon \<Rightarrow> bool \<times> nat option \<times> daemon" where
  "grow_one v d =
     (let n = length (dm_pools d);
          k = dm_cursor d mod n;
          d1 = d\<lparr>dm_cursor := (dm_cursor d + 1) mod n\<rparr>;
          before = length (active (table_at d1 k));
          d2 = pause_all (vi_before v) d1
      in if int before \<ge> pl_desired (dm_pools d2 ! k) \<or> acquire_retry_wait (vi_now v) (dm_pools d2 ! k) > 0
         then (False, None, d2)
         else
           let (err, t) = ensure (int before + 1) (vi_ensure v) (table_at d2 k);
               d3 = pause_all (vi_after v) (set_table k t d2)
           in if err then (True, None, d3)
              else
                let after = length (active (table_at d3 k))
                in if after \<le> before then (False, None, d3) else (False, Some (after - before), d3))"

fun grow :: "visit list \<Rightarrow> int \<Rightarrow> nat \<Rightarrow> daemon \<Rightarrow> sched_result \<times> daemon" where
  "grow vs host_total without_progress d =
     (if host_total < dm_max_runners d \<and> without_progress < length (dm_pools d) then
        case vs of
          [] \<Rightarrow> (SchedUnfinished, d)
        | v # vs' \<Rightarrow>
            if vi_ctx_err v then (SchedCtx, d)
            else case grow_one v d of
              (True, _, d1) \<Rightarrow> (SchedErr, d1)
            | (False, None, d1) \<Rightarrow> grow vs' host_total (without_progress + 1) d1
            | (False, Some gain, d1) \<Rightarrow> grow vs' (host_total + int gain) 0 d1
      else (SchedOk, d))"

declare grow.simps [simp del]

definition reconcile_pools :: "(nat \<Rightarrow> visit) \<Rightarrow> visit list \<Rightarrow> daemon \<Rightarrow> sched_result \<times> daemon" where
  "reconcile_pools ms vs d =
     (case maintain ms [0..<length (dm_pools d)] d of
        (True, d1) \<Rightarrow> (SchedErr, d1)
      | (False, d1) \<Rightarrow>
          let host_total = int (length (all_active d1))
          in if host_total \<ge> dm_max_runners d1 \<or> dm_pools d1 = [] then (SchedOk, d1)
             else grow vs host_total 0 d1)"

section \<open>The retry timer\<close>

text \<open>\<open>nextRetryWait\<close>: each pool with the time its wait is read.\<close>

definition next_retry_wait :: "(pool \<times> time) list \<Rightarrow> duration" where
  "next_retry_wait ps =
     foldl (\<lambda>earliest (p, now).
       if int (length (active (pl_table p))) \<ge> pl_desired p then earliest
       else let wait = acquire_retry_wait now p
            in if wait \<le> 0 then earliest
               else if earliest = 0 \<or> wait < earliest then wait else earliest) 0 ps"

section \<open>The admission gate\<close>

text \<open>What one live runner adds to the used cores and memory; the memory sum is a \<open>uint64\<close>.\<close>

definition charge :: "store \<Rightarrow> pool \<Rightarrow> float64 \<times> u64 \<Rightarrow> slot \<Rightarrow> float64 \<times> u64" where
  "charge h p cand s =
     (let cm = (if s_state s = StateBusy
                then (fst (predict_cores h (s_pool s) (s_workflow_ref s)),
                      fst (predict_mem h (s_pool s) (s_workflow_ref s)))
                else if s_pool s = pl_id p
                then (max (s_reserved_cores s) (fst cand), max (s_reserved_mem s) (snd cand))
                else (s_reserved_cores s, s_reserved_mem s))
      in (fst cm, if snd cm > s_current_mem s then snd cm - s_current_mem s else 0))"

fun charge_all :: "store \<Rightarrow> pool \<Rightarrow> float64 \<times> u64 \<Rightarrow> slot list \<Rightarrow> float64 \<times> u64 \<Rightarrow> float64 \<times> u64" where
  "charge_all h p cand [] acc = acc"
| "charge_all h p cand (s # ss) acc =
     (if \<not> live (s_state s) then charge_all h p cand ss acc
      else charge_all h p cand ss
             (fst acc + fst (charge h p cand s), snd acc + snd (charge h p cand s)))"

record gate_limits =
  gl_num_cpu :: int
  gl_cpu_percent :: int
  gl_mem_available :: "u64 option"
  gl_mem_margin :: int

definition admission_gate ::
  "store option \<Rightarrow> gate_limits \<Rightarrow> time \<Rightarrow> pool \<Rightarrow> slot list \<Rightarrow> bool \<times> pool" where
  "admission_gate hist gl now p lives =
     (case hist of None \<Rightarrow> (True, p)
      | Some h \<Rightarrow>
          if lives = [] then (True, p)
          else
            let (cand, p1) = candidate_estimate hist now p;
                used = charge_all h p cand lives cand;
                cpu_limit = real_of_int (gl_num_cpu gl) * real_of_int (gl_cpu_percent gl) / 100
            in (if fst used > cpu_limit then False
                else case gl_mem_available gl of
                  None \<Rightarrow> True
                | Some avail \<Rightarrow>
                    \<not> snd used > u64_of_float (float_of_u64 avail * real_of_int (100 - gl_mem_margin gl) / 100),
                p1))"

section \<open>Shutdown\<close>

definition shutdown_slots :: "(nat \<Rightarrow> ensure_env) \<Rightarrow> daemon \<Rightarrow> daemon" where
  "shutdown_slots ees d =
     d\<lparr>dm_pools := map (\<lambda>(k, p). p\<lparr>pl_table := snd (shutdown (ees k) (pl_table p))\<rparr>)
                      (List.enumerate 0 (dm_pools d))\<rparr>"

definition close_daemon :: "daemon \<Rightarrow> daemon" where
  "close_daemon d =
     d\<lparr>dm_pools := map (\<lambda>p. if pl_built p then p\<lparr>pl_table := close_table (pl_table p)\<rparr> else p) (dm_pools d)\<rparr>"

section \<open>The live count of the host\<close>

definition daemon_inv :: "daemon \<Rightarrow> bool" where
  "daemon_inv d \<longleftrightarrow> (\<forall>p \<in> set (dm_pools d). table_inv (pl_table p))"

lemma failures_table: "pl_table (foldl (\<lambda>p (now, now2). record_acquire_failure now now2 p) p fs) = pl_table p"
  by (induction fs arbitrary: p) (auto simp: record_acquire_failure_def Let_def)

lemma pause_pool_table [simp]: "pl_table (pause_pool pz k p) = run (pa_asyncs pz k) (pl_table p)"
  by (simp add: pause_pool_def Let_def failures_table on_desired_def split: option.split)

lemma pause_all_nth:
  "k < length (dm_pools d) \<Longrightarrow> dm_pools (pause_all pz d) ! k = pause_pool pz k (dm_pools d ! k)"
  by (simp add: pause_all_def nth_enumerate_eq)

lemma pause_all_sel [simp]:
  "length (dm_pools (pause_all pz d)) = length (dm_pools d)"
  "dm_max_runners (pause_all pz d) = dm_max_runners d" "dm_cursor (pause_all pz d) = dm_cursor d"
  by (simp_all add: pause_all_def)

lemma set_table_sel [simp]:
  "length (dm_pools (set_table k t d)) = length (dm_pools d)"
  "dm_max_runners (set_table k t d) = dm_max_runners d"
  by (simp_all add: set_table_def)

lemma set_table_at: "k < length (dm_pools d) \<Longrightarrow> table_at (set_table k t d) k = t"
  by (simp add: set_table_def)

lemma length_all_active: "length (all_active d) = host_live d"
  by (simp add: all_active_def host_live_def length_concat comp_def length_active)

lemma daemon_invD: "daemon_inv d \<Longrightarrow> k < length (dm_pools d) \<Longrightarrow> table_inv (table_at d k)"
  by (simp add: daemon_inv_def)

lemma daemon_inv_pause:
  assumes "daemon_inv d"
  shows "daemon_inv (pause_all pz d)"
proof -
  have "table_inv (pl_table (dm_pools (pause_all pz d) ! k))" if "k < length (dm_pools d)" for k
    using that assms by (simp add: pause_all_nth daemon_invD slots.meanwhile_inv)
  then show ?thesis by (auto simp: daemon_inv_def in_set_conv_nth)
qed

lemma daemon_inv_set_table: "daemon_inv d \<Longrightarrow> table_inv t \<Longrightarrow> daemon_inv (set_table k t d)"
  unfolding daemon_inv_def set_table_def
  by (cases "k < length (dm_pools d)") (auto dest!: set_update_subset_insert [THEN subsetD])

text \<open>The live count of the host without one pool.\<close>

definition others_live :: "nat \<Rightarrow> daemon \<Rightarrow> nat" where
  "others_live k d = host_live d - count_live (table_at d k)"

lemma host_live_split:
  "k < length (dm_pools d) \<Longrightarrow> host_live d = others_live k d + count_live (table_at d k)"
  using member_le_sum_list [of "count_live (table_at d k)" "map (\<lambda>p. count_live (pl_table p)) (dm_pools d)"]
  by (simp add: others_live_def host_live_def)

lemma host_live_set_table:
  assumes "k < length (dm_pools d)"
  shows "host_live (set_table k t d) = others_live k d + count_live t"
  using assms member_le_sum_list [of "count_live (table_at d k)" "map (\<lambda>p. count_live (pl_table p)) (dm_pools d)"]
  by (simp add: host_live_def set_table_def others_live_def map_update sum_list_update)

lemma others_live_set_table: "k < length (dm_pools d) \<Longrightarrow> others_live k (set_table k t d) = others_live k d"
  by (simp add: others_live_def [of k "set_table k t d"] host_live_set_table set_table_at)

lemma host_live_nth: "host_live d = (\<Sum>j < length (dm_pools d). count_live (table_at d j))"
  by (simp add: host_live_def sum_list_sum_nth atLeast0LessThan)

lemma others_live_nth:
  "k < length (dm_pools d) \<Longrightarrow>
   others_live k d = (\<Sum>j \<in> {..<length (dm_pools d)} - {k}. count_live (table_at d j))"
  by (simp add: others_live_def host_live_nth sum_diff1_nat)

lemma pause_lowers:
  assumes "daemon_inv d"
  shows "host_live (pause_all pz d) \<le> host_live d"
    and "k < length (dm_pools d) \<Longrightarrow> others_live k (pause_all pz d) \<le> others_live k d"
    and "k < length (dm_pools d) \<Longrightarrow> count_live (table_at (pause_all pz d) k) \<le> count_live (table_at d k)"
proof -
  have le: "count_live (table_at (pause_all pz d) j) \<le> count_live (table_at d j)" if "j < length (dm_pools d)" for j
    using that assms by (simp add: pause_all_nth daemon_invD slots.meanwhile_live)
  show "host_live (pause_all pz d) \<le> host_live d"
    unfolding host_live_nth using le by (auto intro: sum_mono)
  show "k < length (dm_pools d) \<Longrightarrow> others_live k (pause_all pz d) \<le> others_live k d"
    using le by (auto simp: others_live_nth intro: sum_mono)
  show "k < length (dm_pools d) \<Longrightarrow> count_live (table_at (pause_all pz d) k) \<le> count_live (table_at d k)"
    by (rule le)
qed

section \<open>Both loops keep the ceiling\<close>

lemma maintain_one_step:
  assumes inv: "daemon_inv d" and k: "k < length (dm_pools d)"
  shows "daemon_inv (snd (maintain_one v k d)) \<and> host_live (snd (maintain_one v k d)) \<le> host_live d \<and>
    length (dm_pools (snd (maintain_one v k d))) = length (dm_pools d) \<and>
    dm_max_runners (snd (maintain_one v k d)) = dm_max_runners d"
proof -
  define desired where "desired = pl_desired (dm_pools d ! k)"
  define d1 where "d1 = set_table k (set_desired desired (table_at d k)) d"
  define d2 where "d2 = pause_all (vi_before v) d1"
  obtain err t where e: "ensure (min (int (length (active (table_at d1 k)))) desired) (vi_ensure v) (table_at d2 k) = (err, t)"
    by fastforce
  define d3 where "d3 = set_table k t d2"
  have res: "snd (maintain_one v k d) = pause_all (vi_after v) d3"
    using e by (simp add: maintain_one_def Let_def d1_def d2_def d3_def desired_def)
  have k1: "k < length (dm_pools d1)" "k < length (dm_pools d2)" using k by (simp_all add: d1_def d2_def)
  have i1: "daemon_inv d1"
    unfolding d1_def using inv k by (intro daemon_inv_set_table table_inv_set_desired daemon_invD)
  have h1: "host_live d1 = host_live d"
    using k host_live_split [OF k] by (simp add: d1_def host_live_set_table count_live_set_desired)
  have i2: "daemon_inv d2" unfolding d2_def using i1 by (rule daemon_inv_pause)
  have c2: "count_live (table_at d2 k) \<le> count_live (table_at d1 k)"
    unfolding d2_def using pause_lowers(3) [OF i1] k1 by blast
  have "count_live t \<le> count_live (table_at d1 k)"
    using slots.ensure_below [OF daemon_invD [OF i2 k1(2)] _ c2, of "min (int (length (active (table_at d1 k)))) desired" "vi_ensure v"] e
    by (simp add: length_active)
  moreover have "others_live k d2 \<le> others_live k d1" unfolding d2_def using pause_lowers(2) [OF i1] k1 by blast
  ultimately have "host_live d3 \<le> host_live d1"
    using host_live_split [OF k1(1)] by (simp add: d3_def host_live_set_table [OF k1(2)])
  moreover have "table_inv t"
    using slots.ensure_inv [OF daemon_invD [OF i2 k1(2)]] e by (metis snd_conv)
  then have i3: "daemon_inv d3" unfolding d3_def using i2 by (intro daemon_inv_set_table)
  ultimately show ?thesis
    unfolding res using pause_lowers(1) [OF i3, of "vi_after v"] h1 daemon_inv_pause [OF i3]
    by (auto simp: d3_def d2_def d1_def)
qed

lemma maintain_step:
  "daemon_inv d \<Longrightarrow> \<forall>k \<in> set ks. k < length (dm_pools d) \<Longrightarrow>
   daemon_inv (snd (maintain vs ks d)) \<and> host_live (snd (maintain vs ks d)) \<le> host_live d \<and>
   length (dm_pools (snd (maintain vs ks d))) = length (dm_pools d) \<and>
   dm_max_runners (snd (maintain vs ks d)) = dm_max_runners d"
proof (induction ks arbitrary: d)
  case (Cons k ks)
  obtain err d1 where m: "maintain_one (vs k) k d = (err, d1)" by fastforce
  have st: "daemon_inv d1 \<and> host_live d1 \<le> host_live d \<and> length (dm_pools d1) = length (dm_pools d) \<and>
      dm_max_runners d1 = dm_max_runners d"
    using maintain_one_step [OF Cons.prems(1), of k "vs k"] Cons.prems(2) m by simp
  show ?case
  proof (cases err)
    case True
    with m st show ?thesis by simp
  next
    case False
    with Cons.IH [of d1] st Cons.prems(2) m show ?thesis by auto
  qed
qed simp

text \<open>What a visit that calls \<open>Ensure\<close> leaves: the other pools gained nothing, the visited one at most one slot.\<close>

lemma visit_step:
  assumes inv: "daemon_inv d" and k: "k < length (dm_pools d)"
    and e: "ensure (int (count_live (table_at d k)) + 1) ee (table_at (pause_all pz d) k) = (er, t)"
    and d'_def: "d' = pause_all pz' (set_table k t (pause_all pz d))"
  shows "daemon_inv d' \<and> length (dm_pools d') = length (dm_pools d) \<and> dm_max_runners d' = dm_max_runners d \<and>
    others_live k d' \<le> others_live k d \<and> count_live (table_at d' k) \<le> Suc (count_live (table_at d k))"
proof -
  let ?d2 = "pause_all pz d" and ?d3 = "set_table k t (pause_all pz d)"
  have k2: "k < length (dm_pools ?d2)" and k3: "k < length (dm_pools ?d3)" using k by simp_all
  have i2: "daemon_inv ?d2" using inv by (rule daemon_inv_pause)
  have "table_inv t" using slots.ensure_inv [OF daemon_invD [OF i2 k2]] e by (metis snd_conv)
  with i2 have i3: "daemon_inv ?d3" by (rule daemon_inv_set_table)
  have "others_live k d' \<le> others_live k ?d3" unfolding d'_def using pause_lowers(2) [OF i3 k3] .
  also have "\<dots> = others_live k ?d2" by (rule others_live_set_table [OF k2])
  also have "\<dots> \<le> others_live k d" using pause_lowers(2) [OF inv k] .
  finally have o: "others_live k d' \<le> others_live k d" .
  have "table_at ?d2 k = run (pa_asyncs pz k) (table_at d k)" "table_at d' k = run (pa_asyncs pz' k) t"
    using k by (simp_all add: d'_def pause_all_nth set_table_at)
  then have "count_live (table_at d' k) \<le> Suc (count_live (table_at d k))"
    using slots.visit_one_more(2) [OF daemon_invD [OF inv k], of "pa_asyncs pz' k" ee "pa_asyncs pz k"] e by simp
  with o show ?thesis using daemon_inv_pause [OF i3, of pz'] by (simp add: d'_def)
qed

text \<open>One iteration skips the pool, or ends as its call of \<open>Ensure\<close> does.\<close>

lemma grow_one_cases:
  assumes "grow_one v d = (err, gain, d')"
  defines "k \<equiv> dm_cursor d mod length (dm_pools d)"
    and "d1 \<equiv> d\<lparr>dm_cursor := (dm_cursor d + 1) mod length (dm_pools d)\<rparr>"
  obtains (skip) "\<not> err" "gain = None" "d' = pause_all (vi_before v) d1"
  | (visit) t where
      "ensure (int (count_live (table_at d1 k)) + 1) (vi_ensure v) (table_at (pause_all (vi_before v) d1) k) = (err, t)"
      "d' = pause_all (vi_after v) (set_table k t (pause_all (vi_before v) d1))"
      "gain = (if err \<or> count_live (table_at d' k) \<le> count_live (table_at d1 k) then None
               else Some (count_live (table_at d' k) - count_live (table_at d1 k)))"
proof -
  obtain er t where e: "ensure (int (count_live (table_at d1 k)) + 1) (vi_ensure v)
      (table_at (pause_all (vi_before v) d1) k) = (er, t)" by fastforce
  have n: "dm_cursor d mod length (dm_pools d) = k" by (simp add: k_def)
  have "\<not> err \<and> gain = None \<and> d' = pause_all (vi_before v) d1 \<or>
      err = er \<and> d' = pause_all (vi_after v) (set_table k t (pause_all (vi_before v) d1)) \<and>
      gain = (if err \<or> count_live (table_at d' k) \<le> count_live (table_at d1 k) then None
              else Some (count_live (table_at d' k) - count_live (table_at d1 k)))"
    using assms(1) e unfolding grow_one_def Let_def n d1_def [symmetric] length_active
    by (auto split: if_splits)
  with e skip visit show thesis by blast
qed

lemma grow_one_step:
  assumes inv: "daemon_inv d" and ne: "dm_pools d \<noteq> []" and b: "host_live d \<le> host_total"
    and g: "grow_one v d = (err, gain, d')"
  shows "daemon_inv d' \<and> length (dm_pools d') = length (dm_pools d) \<and> dm_max_runners d' = dm_max_runners d \<and>
    host_live d' \<le> (if err then Suc host_total else case gain of None \<Rightarrow> host_total | Some x \<Rightarrow> host_total + x) \<and>
    (gain = None \<or> gain = Some 1)"
proof -
  define k where "k = dm_cursor d mod length (dm_pools d)"
  define d1 where "d1 = d\<lparr>dm_cursor := (dm_cursor d + 1) mod length (dm_pools d)\<rparr>"
  have k: "k < length (dm_pools d1)" using ne by (simp add: k_def d1_def)
  have i1: "daemon_inv d1" using inv by (simp add: d1_def daemon_inv_def)
  have h1: "host_live d1 \<le> host_total" using b by (simp add: d1_def host_live_def)
  from g show ?thesis
  proof (cases rule: grow_one_cases)
    case skip
    with daemon_inv_pause [OF i1] pause_lowers(1) [OF i1, of "vi_before v"] h1 show ?thesis
      by (simp add: d1_def)
  next
    case (visit t)
    note visit = visit [folded k_def d1_def]
    note st = visit_step [OF i1 k visit(1,2)]
    have "host_live d' = others_live k d' + count_live (table_at d' k)"
      using st k by (intro host_live_split) simp
    moreover have "others_live k d1 + count_live (table_at d1 k) \<le> host_total"
      using host_live_split [OF k] h1 by simp
    ultimately show ?thesis using st visit(3) by (auto simp: d1_def)
  qed
qed

lemma grow_bound:
  "daemon_inv d \<Longrightarrow> dm_pools d \<noteq> [] \<Longrightarrow> int (host_live d) \<le> host_total \<Longrightarrow>
   daemon_inv (snd (grow vs host_total wp d)) \<and>
   int (host_live (snd (grow vs host_total wp d))) \<le> max host_total (dm_max_runners d) \<and>
   dm_max_runners (snd (grow vs host_total wp d)) = dm_max_runners d"
proof (induction vs arbitrary: host_total wp d)
  case Nil
  then show ?case by (simp add: grow.simps [of "[]"] le_max_iff_disj)
next
  case (Cons v vs)
  show ?case
  proof (cases "host_total < dm_max_runners d \<and> wp < length (dm_pools d) \<and> \<not> vi_ctx_err v")
    case False
    with Cons.prems show ?thesis by (auto simp: grow.simps [of "v # vs"] le_max_iff_disj)
  next
    case True
    obtain err gain d1 where g: "grow_one v d = (err, gain, d1)" by (metis prod_cases3)
    have "host_live d \<le> nat host_total" using Cons.prems(3) by linarith
    from grow_one_step [OF Cons.prems(1,2) this g] have st: "daemon_inv d1"
      "length (dm_pools d1) = length (dm_pools d)" "dm_max_runners d1 = dm_max_runners d"
      "host_live d1 \<le> (if err then Suc (nat host_total) else case gain of None \<Rightarrow> nat host_total | Some x \<Rightarrow> nat host_total + x)"
      "gain = None \<or> gain = Some 1" by auto
    have ne: "dm_pools d1 \<noteq> []" using st(2) Cons.prems(2) by auto
    have tot: "int (nat host_total) = host_total" using Cons.prems(3) by simp
    show ?thesis
    proof (cases err)
      case err: True
      with st(4) have "host_live d1 \<le> Suc (nat host_total)" by simp
      with tot have "int (host_live d1) \<le> host_total + 1" by linarith
      with True have "int (host_live d1) \<le> dm_max_runners d" by simp
      with err True st(1,3) g show ?thesis by (simp add: grow.simps [of "v # vs"] le_max_iff_disj)
    next
      case noerr: False
      from st(5) consider (none) "gain = None" | (one) "gain = Some 1" by blast
      then show ?thesis
      proof cases
        case none
        then have "host_live d1 \<le> nat host_total" using st(4) noerr by simp
        then have "int (host_live d1) \<le> host_total" using tot by linarith
        from Cons.IH [OF st(1) ne this, of "wp + 1"] none noerr g st(3) True show ?thesis
          by (simp add: grow.simps [of "v # vs"])
      next
        case one
        then have "host_live d1 \<le> nat host_total + 1" using st(4) noerr by simp
        then have "int (host_live d1) \<le> host_total + 1" using tot by linarith
        from Cons.IH [OF st(1) ne this, of 0] one noerr g st(3) True show ?thesis
          by (simp add: grow.simps [of "v # vs"])
      qed
    qed
  qed
qed

lemma reconcile_pools_bound:
  assumes "daemon_inv d"
  shows "daemon_inv (snd (reconcile_pools ms vs d)) \<and>
    int (host_live (snd (reconcile_pools ms vs d))) \<le> max (int (host_live d)) (dm_max_runners d) \<and>
    dm_max_runners (snd (reconcile_pools ms vs d)) = dm_max_runners d"
proof -
  obtain err d1 where m: "maintain ms [0..<length (dm_pools d)] d = (err, d1)" by fastforce
  have st: "daemon_inv d1 \<and> host_live d1 \<le> host_live d \<and> dm_max_runners d1 = dm_max_runners d"
    using maintain_step [OF assms, of "[0..<length (dm_pools d)]" ms] m by simp
  show ?thesis
  proof (cases "err \<or> int (host_live d1) \<ge> dm_max_runners d1 \<or> dm_pools d1 = []")
    case True
    with m st show ?thesis by (cases err) (auto simp: reconcile_pools_def length_all_active)
  next
    case False
    with grow_bound [of d1 "int (host_live d1)" vs 0] st m show ?thesis
      by (auto simp: reconcile_pools_def length_all_active le_max_iff_disj)
  qed
qed


end
