(* ===== verification/Scheduler_Properties.thy ===== *)
theory Scheduler_Properties
  imports Scheduler
begin

text \<open>Properties of the host scheduler, the admission gate and the retry timer.\<close>

definition demo_pool_of :: "string \<Rightarrow> pool" where
  "demo_pool_of pid = (new_pool_runtime pid 0 4 (new_table ''/s'' ''/j'' [] 1 []))\<lparr>pl_desired := 3, pl_built := True\<rparr>"

definition demo_daemon :: daemon where
  "demo_daemon = \<lparr>dm_pools = [demo_pool_of ''a'', demo_pool_of ''b''], dm_cursor = 0, dm_max_runners = 2\<rparr>"

definition no_pause :: pause where
  "no_pause = \<lparr>pa_asyncs = (\<lambda>_. []), pa_desired = (\<lambda>_. None), pa_failures = (\<lambda>_. [])\<rparr>"

definition demo_visit :: visit where
  "demo_visit = \<lparr>vi_before = no_pause, vi_ensure = demo_ensure, vi_after = no_pause, vi_now = 1, vi_ctx_err = False\<rparr>"

lemma demo_daemon_facts [simp]:
  "daemon_inv demo_daemon" "host_live demo_daemon = 0" "dm_max_runners demo_daemon = 2"
  "length (dm_pools demo_daemon) = 2" "dm_pools demo_daemon \<noteq> []"
  by (simp_all add: daemon_inv_def demo_daemon_def demo_pool_of_def new_pool_runtime_def host_live_def)

section \<open>The host ceiling\<close>

text \<open>C2: The host never exceeds its ceiling: however the pools' desired counts change, jobs arrive,
  runners exit and starts fail while the scheduler runs, it leaves at most as many live slots on the
  host as there were before or as the configured maximum, and every pool's table well formed.\<close>

theorem host_ceiling:
  assumes "daemon_inv d"
  shows "daemon_inv (snd (reconcile_pools ms vs d)) \<and>
    int (length (all_active (snd (reconcile_pools ms vs d)))) \<le>
      max (int (length (all_active d))) (dm_max_runners d)"
  using reconcile_pools_bound [OF assms, of ms vs] by (simp add: length_all_active)

theorem host_ceiling_witness:
  "length (all_active (snd (reconcile_pools (\<lambda>_. demo_visit) [demo_visit, demo_visit, demo_visit] demo_daemon))) \<le> 2"
  using host_ceiling [OF demo_daemon_facts(1), of "\<lambda>_. demo_visit" "[demo_visit, demo_visit, demo_visit]"]
  by (simp add: length_all_active)

section \<open>Termination\<close>

lemma grow_ends:
  "daemon_inv d \<Longrightarrow> dm_pools d \<noteq> [] \<Longrightarrow> int (host_live d) \<le> host_total \<Longrightarrow>
   nat (dm_max_runners d - host_total) * length (dm_pools d) \<le> length vs + wp \<Longrightarrow>
   fst (grow vs host_total wp d) \<noteq> SchedUnfinished"
proof (induction vs arbitrary: host_total wp d)
  case Nil
  have "\<not> (host_total < dm_max_runners d \<and> wp < length (dm_pools d))"
  proof
    assume a: "host_total < dm_max_runners d \<and> wp < length (dm_pools d)"
    then have "1 \<le> nat (dm_max_runners d - host_total)" by linarith
    then have "length (dm_pools d) \<le> nat (dm_max_runners d - host_total) * length (dm_pools d)" by simp
    with Nil.prems(4) a show False by simp
  qed
  then show ?case by (simp add: grow.simps [of "[]"])
next
  case (Cons v vs)
  show ?case
  proof (cases "host_total < dm_max_runners d \<and> wp < length (dm_pools d) \<and> \<not> vi_ctx_err v")
    case False
    then show ?thesis by (auto simp: grow.simps [of "v # vs"])
  next
    case True
    obtain err gain d1 where g: "grow_one v d = (err, gain, d1)" by (metis prod_cases3)
    have "host_live d \<le> nat host_total" and tot: "int (nat host_total) = host_total"
      using Cons.prems(3) by linarith+
    from grow_one_step [OF Cons.prems(1,2) this(1) g] have st: "daemon_inv d1"
      "length (dm_pools d1) = length (dm_pools d)" "dm_max_runners d1 = dm_max_runners d"
      "host_live d1 \<le> (if err then Suc (nat host_total) else case gain of None \<Rightarrow> nat host_total | Some x \<Rightarrow> nat host_total + x)"
      "gain = None \<or> gain = Some 1" by auto
    have ne: "dm_pools d1 \<noteq> []" using st(2) Cons.prems(2) by auto
    consider (err) "err" | (none) "\<not> err" "gain = None" | (one) "\<not> err" "gain = Some 1" using st(5) by blast
    then show ?thesis
    proof cases
      case err
      with True g show ?thesis by (simp add: grow.simps [of "v # vs"])
    next
      case none
      then have "host_live d1 \<le> nat host_total" using st(4) by simp
      then have b: "int (host_live d1) \<le> host_total" using tot by linarith
      have "nat (dm_max_runners d1 - host_total) * length (dm_pools d1) \<le> length vs + (wp + 1)"
        using Cons.prems(4) st(2,3) by simp
      from Cons.IH [OF st(1) ne b this] none g True show ?thesis by (simp add: grow.simps [of "v # vs"])
    next
      case one
      then have "host_live d1 \<le> nat host_total + 1" using st(4) by simp
      then have b: "int (host_live d1) \<le> host_total + 1" using tot by linarith
      have "nat (dm_max_runners d - host_total) = Suc (nat (dm_max_runners d - (host_total + 1)))"
        using True by linarith
      then have "nat (dm_max_runners d1 - (host_total + 1)) * length (dm_pools d1) \<le> length vs + 0"
        using Cons.prems(4) st(2,3) True by simp
      from Cons.IH [OF st(1) ne b this] one g True show ?thesis by (simp add: grow.simps [of "v # vs"])
    qed
  qed
qed

text \<open>C17: The scheduler always finishes: it visits pools at most (maximum of the host) times (number of
  pools) times, whatever the other goroutines do; with that many visits allowed it never stops for
  want of one.\<close>

theorem scheduler_terminates:
  assumes "daemon_inv d" "nat (dm_max_runners d) * length (dm_pools d) \<le> length vs"
  shows "fst (reconcile_pools ms vs d) \<noteq> SchedUnfinished"
proof -
  obtain err d1 where m: "maintain ms [0..<length (dm_pools d)] d = (err, d1)" by fastforce
  have st: "daemon_inv d1" "length (dm_pools d1) = length (dm_pools d)" "dm_max_runners d1 = dm_max_runners d"
    using maintain_step [OF assms(1), of "[0..<length (dm_pools d)]" ms] m by simp_all
  show ?thesis
  proof (cases "err \<or> int (host_live d1) \<ge> dm_max_runners d1 \<or> dm_pools d1 = []")
    case True
    with m show ?thesis by (cases err) (auto simp: reconcile_pools_def length_all_active)
  next
    case False
    have "nat (dm_max_runners d1 - int (host_live d1)) * length (dm_pools d1) \<le>
        nat (dm_max_runners d) * length (dm_pools d)"
      unfolding st(2,3) by (rule mult_le_mono1) simp
    with assms(2) have "nat (dm_max_runners d1 - int (host_live d1)) * length (dm_pools d1) \<le> length vs + 0"
      by simp
    from grow_ends [OF st(1) _ order_refl this] False m show ?thesis
      by (auto simp: reconcile_pools_def length_all_active)
  qed
qed

theorem scheduler_terminates_witness:
  "fst (reconcile_pools (\<lambda>_. demo_visit) (replicate 4 demo_visit) demo_daemon) \<noteq> SchedUnfinished"
  using scheduler_terminates [of demo_daemon "replicate 4 demo_visit" "\<lambda>_. demo_visit"] by simp

section \<open>The admission gate\<close>

text \<open>What the gate charges, as exact sums over the live slots.\<close>

definition live_of :: "slot list \<Rightarrow> slot list" where
  "live_of ss = filter (\<lambda>s. live (s_state s)) ss"

definition memory_sum :: "store \<Rightarrow> pool \<Rightarrow> float64 \<times> u64 \<Rightarrow> slot list \<Rightarrow> nat" where
  "memory_sum h p cand ss = sum_list (map (\<lambda>s. unat (snd (charge h p cand s))) (live_of ss))"

lemma charge_all_cores:
  "fst (charge_all h p cand ss acc) = fst acc + sum_list (map (\<lambda>s. fst (charge h p cand s)) (live_of ss))"
  by (induction h p cand ss acc rule: charge_all.induct) (simp_all add: live_of_def)

lemma charge_all_memory:
  "unat (snd acc) + memory_sum h p cand ss < 2 ^ 64 \<Longrightarrow>
   unat (snd (charge_all h p cand ss acc)) = unat (snd acc) + memory_sum h p cand ss"
proof (induction h p cand ss acc rule: charge_all.induct)
  case (1 h p cand acc)
  then show ?case by (simp add: memory_sum_def live_of_def)
next
  case (2 h p cand s ss acc)
  show ?case
  proof (cases "live (s_state s)")
    case False
    with 2 show ?thesis by (simp add: memory_sum_def live_of_def)
  next
    case True
    let ?m = "snd (charge h p cand s)"
    have ms: "memory_sum h p cand (s # ss) = unat ?m + memory_sum h p cand ss"
      using True by (simp add: memory_sum_def live_of_def)
    have "unat (snd acc + ?m) = unat (snd acc) + unat ?m"
      using "2.prems" ms by (subst unat_plus_simple [THEN iffD1]) (simp_all add: word_le_nat_alt unat_word_ariths)
    with "2.IH"(2) [OF _] "2.prems" True ms show ?thesis by simp
  qed
qed

text \<open>
  The specification of the gate, without \<open>charge\<close>: the live runners fall into three groups. A busy runner needs what its
  workflow is predicted to use; an unclaimed one of the candidate's pool the larger of its reservation and the
  candidate's estimate; an unclaimed one of another pool its reservation. Of the memory a runner needs, what it uses
  now is in the free memory's figure already and does not count again.
\<close>

definition busy_runners :: "slot list \<Rightarrow> slot list" where
  "busy_runners ss = filter (\<lambda>s. s_state s = StateBusy) ss"

definition own_unclaimed :: "pool \<Rightarrow> slot list \<Rightarrow> slot list" where
  "own_unclaimed p ss = filter (\<lambda>s. s_state s \<in> {StateStarting, StateIdle} \<and> s_pool s = pl_id p) ss"

definition other_unclaimed :: "pool \<Rightarrow> slot list \<Rightarrow> slot list" where
  "other_unclaimed p ss = filter (\<lambda>s. s_state s \<in> {StateStarting, StateIdle} \<and> s_pool s \<noteq> pl_id p) ss"

definition cores_needed :: "store \<Rightarrow> pool \<Rightarrow> float64 \<Rightarrow> slot list \<Rightarrow> float64" where
  "cores_needed h p cores ss =
     cores + (\<Sum>s\<leftarrow>busy_runners ss. fst (predict_cores h (s_pool s) (s_workflow_ref s))) +
     (\<Sum>s\<leftarrow>own_unclaimed p ss. max (s_reserved_cores s) cores) +
     (\<Sum>s\<leftarrow>other_unclaimed p ss. s_reserved_cores s)"

definition memory_needed :: "store \<Rightarrow> pool \<Rightarrow> u64 \<Rightarrow> slot list \<Rightarrow> nat" where
  "memory_needed h p mem ss =
     unat mem + (\<Sum>s\<leftarrow>busy_runners ss. unat (fst (predict_mem h (s_pool s) (s_workflow_ref s))) - unat (s_current_mem s)) +
     (\<Sum>s\<leftarrow>own_unclaimed p ss. max (unat (s_reserved_mem s)) (unat mem) - unat (s_current_mem s)) +
     (\<Sum>s\<leftarrow>other_unclaimed p ss. unat (s_reserved_mem s) - unat (s_current_mem s))"

lemma unat_net: "unat (if m > c then m - c else 0) = unat m - unat c" for m c :: u64
  by (simp add: unat_sub word_less_nat_alt word_le_nat_alt)

lemma unat_max: "unat (max m n) = max (unat m) (unat n)" for m n :: u64
  by (simp add: max_def word_le_nat_alt)

lemma charge_memory:
  "unat (snd (charge h p cand s)) =
     (if s_state s = StateBusy then unat (fst (predict_mem h (s_pool s) (s_workflow_ref s)))
      else if s_pool s = pl_id p then max (unat (s_reserved_mem s)) (unat (snd cand)) else unat (s_reserved_mem s)) -
     unat (s_current_mem s)"
  by (simp add: charge_def Let_def unat_net [simplified] unat_max)

lemma cores_partition:
  "cand_cores + sum_list (map (\<lambda>s. fst (charge h p (cand_cores, m) s)) (live_of ss)) = cores_needed h p cand_cores ss"
proof (induction ss)
  case (Cons s ss)
  then show ?case
    by (cases "s_state s")
      (auto simp: cores_needed_def live_of_def busy_runners_def own_unclaimed_def other_unclaimed_def charge_def Let_def)
qed (simp add: cores_needed_def live_of_def busy_runners_def own_unclaimed_def other_unclaimed_def)

lemma memory_partition: "unat (snd cand) + memory_sum h p cand ss = memory_needed h p (snd cand) ss"
proof (induction ss)
  case (Cons s ss)
  then show ?case
    by (cases "s_state s")
      (auto simp: memory_sum_def memory_needed_def live_of_def busy_runners_def own_unclaimed_def other_unclaimed_def
        charge_memory)
qed (simp add: memory_sum_def memory_needed_def live_of_def busy_runners_def own_unclaimed_def other_unclaimed_def)

text \<open>C18: The admission gate is exact. Without a history, or when no runner is live, it admits every start. Otherwise it
  admits a start exactly when the cores of the candidate and of all live runners fit the CPU target, and, if the free
  memory can be read, their memory fits what is free less the margin; an unreadable figure leaves only the CPU test.
  The needs are those of the specification above: predictions for the busy runners, and reservations for the unclaimed
  ones, raised to the candidate's estimate in its own pool. The memory needed is assumed to stay below 2^64 bytes, where
  the code's sum would wrap.\<close>

theorem gate_exact:
  assumes "(cand, p1) = candidate_estimate (Some h) now p" "memory_needed h p (snd cand) lives < 2 ^ 64"
  shows "fst (admission_gate None gl now p lives) \<and>
    (fst (admission_gate (Some h) gl now p lives) \<longleftrightarrow>
       lives = [] \<or>
       cores_needed h p (fst cand) lives \<le> real_of_int (gl_num_cpu gl) * real_of_int (gl_cpu_percent gl) / 100 \<and>
       (case gl_mem_available gl of
          None \<Rightarrow> True
        | Some avail \<Rightarrow>
            memory_needed h p (snd cand) lives \<le>
              unat (u64_of_float (float_of_u64 avail * real_of_int (100 - gl_mem_margin gl) / 100))))"
proof -
  have c: "fst (charge_all h p cand lives cand) = cores_needed h p (fst cand) lives"
    using cores_partition [of "fst cand" h p "snd cand" lives] by (simp add: charge_all_cores)
  have m: "unat (snd (charge_all h p cand lives cand)) = memory_needed h p (snd cand) lives"
    using charge_all_memory [of cand h p cand lives] assms(2) by (simp add: memory_partition)
  have "fst (admission_gate None gl now p lives)" by (simp add: admission_gate_def)
  moreover have "fst (admission_gate (Some h) gl now p lives)" if "lives = []"
    using that by (simp add: admission_gate_def)
  moreover have "fst (admission_gate (Some h) gl now p lives) \<longleftrightarrow>
      cores_needed h p (fst cand) lives \<le> real_of_int (gl_num_cpu gl) * real_of_int (gl_cpu_percent gl) / 100 \<and>
      (case gl_mem_available gl of
         None \<Rightarrow> True
       | Some avail \<Rightarrow>
           memory_needed h p (snd cand) lives \<le>
             unat (u64_of_float (float_of_u64 avail * real_of_int (100 - gl_mem_margin gl) / 100)))"
    if "lives \<noteq> []"
    using that c m
    by (cases "gl_mem_available gl")
      (simp_all add: admission_gate_def assms(1) [symmetric] word_le_nat_alt not_less linorder_not_less)
  ultimately show ?thesis by blast
qed

definition demo_live :: slot where
  "demo_live = zero_slot\<lparr>s_pool := ''a'', s_state := StateIdle, s_reserved_cores := 1, s_reserved_mem := 5\<rparr>"

theorem gate_exact_witness:
  "fst (admission_gate (Some empty_store) \<lparr>gl_num_cpu = 2, gl_cpu_percent = 100, gl_mem_available = Some 100, gl_mem_margin = 0\<rparr>
     1 (demo_pool_of ''a'') [demo_live])"
proof -
  have ce: "((0, 0), demo_pool_of ''a'') = candidate_estimate (Some empty_store) 1 (demo_pool_of ''a'')"
    by (simp add: candidate_estimate_def expire_queued_def demo_pool_of_def new_pool_runtime_def Let_def
        predict_cores_def predict_mem_def sampled_def usable_rate_def empty_store_def zero_stats_def)
  have lv: "busy_runners [demo_live] = []" "own_unclaimed (demo_pool_of ''a'') [demo_live] = [demo_live]"
    "other_unclaimed (demo_pool_of ''a'') [demo_live] = []"
    by (simp_all add: busy_runners_def own_unclaimed_def other_unclaimed_def demo_live_def zero_slot_def
        demo_pool_of_def new_pool_runtime_def)
  have n: "cores_needed empty_store (demo_pool_of ''a'') 0 [demo_live] = 1"
    "memory_needed empty_store (demo_pool_of ''a'') 0 [demo_live] = 5"
    by (simp_all add: cores_needed_def memory_needed_def lv) (simp_all add: demo_live_def zero_slot_def)
  have u: "u64_of_float (float_of_u64 100 * real_of_int (100 - 0) / 100) = 100"
    by (simp add: u64_of_float_def float_of_u64_def)
  show ?thesis
    using gate_exact [OF ce, of "[demo_live]" "\<lparr>gl_num_cpu = 2, gl_cpu_percent = 100, gl_mem_available = Some 100, gl_mem_margin = 0\<rparr>"]
    by (simp add: n u [simplified])
qed

section \<open>The retry timer\<close>

text \<open>The positive waits of the pools that are short of their desired count.\<close>

definition due_waits :: "(pool \<times> time) list \<Rightarrow> duration list" where
  "due_waits ps = filter (\<lambda>w. 0 < w) (map (\<lambda>(p, now). acquire_retry_wait now p)
     (filter (\<lambda>(p, now). int (length (active (pl_table p))) < pl_desired p) ps))"

lemma next_retry_wait_fold:
  "0 \<le> e \<Longrightarrow>
   foldl (\<lambda>earliest (p, now).
       if int (length (active (pl_table p))) \<ge> pl_desired p then earliest
       else let wait = acquire_retry_wait now p
            in if wait \<le> 0 then earliest
               else if earliest = 0 \<or> wait < earliest then wait else earliest) e ps =
   (if due_waits ps = [] then e else if e = 0 then Min (set (due_waits ps)) else min e (Min (set (due_waits ps))))"
proof (induction ps arbitrary: e)
  case Nil
  then show ?case by (simp add: due_waits_def)
next
  case (Cons pn ps)
  obtain p now where pn: "pn = (p, now)" by fastforce
  let ?w = "acquire_retry_wait now p"
  show ?case
  proof (cases "int (length (active (pl_table p))) < pl_desired p \<and> 0 < ?w")
    case False
    then have "due_waits (pn # ps) = due_waits ps" by (auto simp: due_waits_def pn)
    with False Cons show ?thesis by (auto simp: pn Let_def)
  next
    case True
    then have d: "due_waits (pn # ps) = ?w # due_waits ps" by (simp add: due_waits_def pn)
    have pos: "\<forall>x \<in> set (due_waits ps). 0 < x" by (auto simp: due_waits_def)
    have m: "Min (set (?w # due_waits ps)) = (if due_waits ps = [] then ?w else min ?w (Min (set (due_waits ps))))"
      by simp
    show ?thesis
      using True Cons.prems Cons.IH [of "if e = 0 \<or> ?w < e then ?w else e"]
      unfolding d m by (auto simp: pn Let_def min_def)
  qed
qed

text \<open>The retry timer is set to the earliest retry that can help: zero when no pool short of its
  desired count waits for a retry, else the smallest such wait.\<close>

lemma retry_timer_earliest:
  "next_retry_wait ps = (if due_waits ps = [] then 0 else Min (set (due_waits ps)))"
  using next_retry_wait_fold [of 0 ps] by (simp add: next_retry_wait_def)

end
