(* ===== verification/Scheduler_Progress.thy ===== *)
theory Scheduler_Progress
  imports Scheduler_Properties Slot_Properties
begin

text \<open>
  The scheduler gives the host away: when the starts succeed and nobody interferes, one round of \<open>reconcilePools\<close>
  brings the host to the pools' demand or to its ceiling, whichever is less. The round robin is followed by what it
  has visited since its last progress.
\<close>

section \<open>Undisturbed visits\<close>

definition smooth_visit :: "visit \<Rightarrow> bool" where
  "smooth_visit v \<longleftrightarrow>
     vi_before v = no_pause \<and> vi_after v = no_pause \<and> \<not> vi_ctx_err v \<and>
     ee_acquired (vi_ensure v) \<and> ee_cleanups (vi_ensure v) = [] \<and>
     (\<exists>se. ee_starts (vi_ensure v) = [([], se)] \<and> smooth_start se) \<and>
     ee_before_stop (vi_ensure v) = [] \<and> \<not> ee_ctx_err (vi_ensure v)"

text \<open>A table that can start as many slots as there is room for.\<close>

definition able :: "nat \<Rightarrow> table \<Rightarrow> bool" where
  "able room t \<longleftrightarrow>
     table_inv t \<and> \<not> t_closed t \<and> dirs_owned t \<and> length (t_slots t) + room \<le> max_slot_id"

lemma able_less: "able room t \<Longrightarrow> room' \<le> room \<Longrightarrow> able room' t"
  by (simp add: able_def)

lemma able_Suc: "able (Suc room) t \<Longrightarrow> able room t"
  by (simp add: able_def)

lemma able_set_desired [simp]: "able room (set_desired n t) = able room t"
  by (simp add: able_def set_desired_def dirs_owned_def slot_dir_def)

lemma pause_nothing [simp]: "pause_all no_pause d = d"
proof -
  have "pause_pool no_pause k p = p" for k p by (simp add: pause_pool_def no_pause_def)
  then have "map (\<lambda>(k, p). pause_pool no_pause k p) (List.enumerate 0 (dm_pools d)) = map snd (List.enumerate 0 (dm_pools d))"
    by (intro map_cong) auto
  then show ?thesis by (simp add: pause_all_def)
qed

lemma ensure_enough:
  assumes "smooth_visit v" "n \<le> int (count_live t)" "int (count_live t) \<le> n"
  shows "ensure n (vi_ensure v) t = (False, t)"
proof -
  from assms(1) obtain se where "ee_starts (vi_ensure v) = [([], se)]" by (auto simp: smooth_visit_def)
  then have "ensure_loop n (ee_starts (vi_ensure v)) t = (False, t)" using assms(2) by simp
  moreover have "stop_surplus n False (ee_stops (vi_ensure v)) t = t"
    using assms(3) by (simp add: stop_surplus_def candidates_none)
  ultimately show ?thesis using assms(1) by (simp add: ensure_def smooth_visit_def)
qed

lemma ensure_starts_one:
  assumes "smooth_visit v" "able (Suc room) t"
  shows "\<exists>t'. ensure (int (count_live t) + 1) (vi_ensure v) t = (False, t') \<and>
    count_live t' = Suc (count_live t) \<and> able room t'"
proof -
  from assms(1) obtain se where se: "ee_starts (vi_ensure v) = [([], se)]" "smooth_start se"
    by (auto simp: smooth_visit_def)
  note a = assms(2) [unfolded able_def]
  from a obtain i where i: "next_id t = Some i" using next_id_exists [of t] by fastforce
  from start_one_smooth [OF _ se(2) _ i] a obtain t1 where
    t1: "start_one se t = (Some i, t1)" "count_live t1 = Suc (count_live t)" "\<not> t_closed t1"
      "length (t_slots t1) = Suc (length (t_slots t))" "dirs_owned t1" by blast
  have "table_inv t1" using start_step_invD [OF start_step_start_one, of t se] a t1(1) by simp
  then have "able room t1" using t1 a by (simp add: able_def)
  moreover have "ensure_loop (int (count_live t) + 1) (ee_starts (vi_ensure v)) t = (False, t1)"
    using se t1 a by simp
  moreover have "stop_surplus (int (count_live t) + 1) False (ee_stops (vi_ensure v)) t1 = t1"
    using t1(2) by (simp add: stop_surplus_def candidates_none)
  ultimately show ?thesis using assms(1) t1(2) by (simp add: ensure_def smooth_visit_def)
qed

section \<open>The state of the round\<close>

text \<open>Every pool can still be served, none is past its demand, none waits for a retry.\<close>

definition served :: "nat \<Rightarrow> daemon \<Rightarrow> bool" where
  "served room d \<longleftrightarrow>
     (\<forall>p \<in> set (dm_pools d). able room (pl_table p) \<and> int (count_live (pl_table p)) \<le> pl_desired p)"

definition retries_due :: "visit list \<Rightarrow> daemon \<Rightarrow> bool" where
  "retries_due vs d \<longleftrightarrow> (\<forall>v \<in> set vs. \<forall>p \<in> set (dm_pools d). pl_retry_after p \<le> vi_now v)"

definition demand :: "daemon \<Rightarrow> int" where
  "demand d = sum_list (map pl_desired (dm_pools d))"

definition hungry :: "nat \<Rightarrow> daemon \<Rightarrow> bool" where
  "hungry k d \<longleftrightarrow> int (count_live (table_at d k)) < pl_desired (dm_pools d ! k)"

lemma cursor_frame [simp]:
  "served room (d\<lparr>dm_cursor := c\<rparr>) = served room d" "retries_due vs (d\<lparr>dm_cursor := c\<rparr>) = retries_due vs d"
  "demand (d\<lparr>dm_cursor := c\<rparr>) = demand d" "hungry k (d\<lparr>dm_cursor := c\<rparr>) = hungry k d"
  "host_live (d\<lparr>dm_cursor := c\<rparr>) = host_live d" "others_live k (d\<lparr>dm_cursor := c\<rparr>) = others_live k d"
  by (simp_all add: served_def retries_due_def demand_def hungry_def host_live_def others_live_def)

text \<open>The pools visited since the last progress are the last ones of a full turn from the cursor on.\<close>

definition visited_full :: "nat \<Rightarrow> daemon \<Rightarrow> bool" where
  "visited_full wp d \<longleftrightarrow>
     (\<forall>i < length (dm_pools d). length (dm_pools d) \<le> i + wp \<longrightarrow> \<not> hungry ((dm_cursor d + i) mod length (dm_pools d)) d)"

lemma visited_full_turn:
  assumes "visited_full wp d" "length (dm_pools d) \<le> wp" "k < length (dm_pools d)"
  shows "\<not> hungry k d"
proof -
  let ?n = "length (dm_pools d)" and ?c = "dm_cursor d mod length (dm_pools d)"
  define i where "i = (k + (?n - ?c)) mod ?n"
  have c: "?c < ?n" using assms(3) by (intro mod_less_divisor) linarith
  have "(dm_cursor d + i) mod ?n = (?c + (k + (?n - ?c))) mod ?n" by (simp add: i_def mod_simps)
  also have "\<dots> = (k + ?n) mod ?n" using c by (intro arg_cong [of _ _ "\<lambda>x. x mod ?n"]) linarith
  also have "\<dots> = k" using assms(3) by simp
  finally have "(dm_cursor d + i) mod ?n = k" .
  moreover have "i < ?n" using assms(3) unfolding i_def by (intro mod_less_divisor) linarith
  ultimately show ?thesis using assms(1,2) by (auto simp: visited_full_def)
qed

lemma visited_full_skip:
  assumes "visited_full wp d" "\<not> hungry (dm_cursor d mod length (dm_pools d)) d"
  shows "visited_full (wp + 1) (d\<lparr>dm_cursor := (dm_cursor d + 1) mod length (dm_pools d)\<rparr>)"
  unfolding visited_full_def
proof (intro allI impI)
  let ?n = "length (dm_pools d)" and ?d = "d\<lparr>dm_cursor := (dm_cursor d + 1) mod length (dm_pools d)\<rparr>"
  fix i assume i: "i < length (dm_pools ?d)" "length (dm_pools ?d) \<le> i + (wp + 1)"
  have m: "(dm_cursor ?d + i) mod length (dm_pools ?d) = (dm_cursor d + (i + 1)) mod ?n"
    by (simp add: mod_simps)
  show "\<not> hungry ((dm_cursor ?d + i) mod length (dm_pools ?d)) ?d"
  proof (cases "i + 1 < ?n")
    case True
    have "?n \<le> (i + 1) + wp" using i(2) by simp
    with assms(1) True have "\<not> hungry ((dm_cursor d + (i + 1)) mod ?n) d" unfolding visited_full_def by blast
    then show ?thesis unfolding m by simp
  next
    case False
    with i have "i + 1 = ?n" by simp
    then show ?thesis unfolding m using assms(2) by simp
  qed
qed

section \<open>One visit\<close>

lemma grow_one_smooth:
  assumes v: "smooth_visit v" and ne: "dm_pools d \<noteq> []" and s: "served (Suc room) d" and r: "retries_due [v] d"
  defines "n \<equiv> length (dm_pools d)" and "k \<equiv> dm_cursor d mod length (dm_pools d)"
  shows "if hungry k d
    then \<exists>t'. grow_one v d = (False, Some 1, set_table k t' (d\<lparr>dm_cursor := (dm_cursor d + 1) mod n\<rparr>)) \<and>
      count_live t' = Suc (count_live (table_at d k)) \<and> able room t'
    else grow_one v d = (False, None, d\<lparr>dm_cursor := (dm_cursor d + 1) mod n\<rparr>)"
proof -
  let ?d = "d\<lparr>dm_cursor := (dm_cursor d + 1) mod n\<rparr>"
  have k: "k < length (dm_pools d)" using ne by (simp add: k_def)
  then have p: "dm_pools d ! k \<in> set (dm_pools d)" by simp
  have w: "acquire_retry_wait (vi_now v) (dm_pools d ! k) = 0"
    using r p by (auto simp: retries_due_def acquire_retry_wait_def max_def)
  have nn: "length (dm_pools d) = n" and kn: "dm_cursor d mod n = k" by (simp_all add: n_def k_def)
  have vb: "vi_before v = no_pause" "vi_after v = no_pause" using v by (simp_all add: smooth_visit_def)
  show ?thesis
  proof (cases "hungry k d")
    case False
    then show ?thesis using w vb
      by (simp add: grow_one_def Let_def length_active hungry_def nn kn)
  next
    case True
    from s p have "able (Suc room) (table_at d k)" by (auto simp: served_def)
    from ensure_starts_one [OF v this] obtain t' where
      t': "ensure (int (count_live (table_at d k)) + 1) (vi_ensure v) (table_at d k) = (False, t')"
        "count_live t' = Suc (count_live (table_at d k))" "able room t'" by blast
    have at: "table_at (set_table k t' ?d) k = t'" using k by (intro set_table_at) simp
    have "grow_one v d = (False, Some 1, set_table k t' ?d)"
      using True w vb t' at by (simp add: grow_one_def Let_def length_active hungry_def nn kn)
    with True t' show ?thesis by auto
  qed
qed

section \<open>The round\<close>

lemma served_set_table:
  assumes "served (Suc room) d" "k < length (dm_pools d)" "able room t'"
    and "int (count_live t') \<le> pl_desired (dm_pools d ! k)"
  shows "served room (set_table k t' d)"
  unfolding served_def
proof
  fix p assume "p \<in> set (dm_pools (set_table k t' d))"
  then have "p = (dm_pools d ! k)\<lparr>pl_table := t'\<rparr> \<or> p \<in> set (dm_pools d)"
    using set_update_subset_insert [of "dm_pools d" k] by (auto simp: set_table_def)
  then show "able room (pl_table p) \<and> int (count_live (pl_table p)) \<le> pl_desired p"
    using assms by (auto simp: served_def dest: able_Suc)
qed

lemma pools_set_table:
  assumes "k < length (dm_pools d)"
  shows "map pl_desired (dm_pools (set_table k t d)) = map pl_desired (dm_pools d)"
    "map pl_retry_after (dm_pools (set_table k t d)) = map pl_retry_after (dm_pools d)"
  using assms by (simp_all add: set_table_def map_update list_update_id [symmetric] del: list_update_id)
    (metis list_update_id nth_map)+

lemma retries_due_map:
  "map pl_retry_after (dm_pools d') = map pl_retry_after (dm_pools d) \<Longrightarrow> retries_due vs d' = retries_due vs d"
proof -
  have "retries_due vs d \<longleftrightarrow> (\<forall>v \<in> set vs. \<forall>a \<in> set (map pl_retry_after (dm_pools d)). a \<le> vi_now v)" for d
    by (simp add: retries_due_def)
  then show "map pl_retry_after (dm_pools d') = map pl_retry_after (dm_pools d) \<Longrightarrow> ?thesis" by presburger
qed

lemma host_live_le_demand: "served room d \<Longrightarrow> int (host_live d) \<le> demand d"
  unfolding served_def host_live_def demand_def
  by (simp add: sum_list_of_nat [symmetric] comp_def) (rule sum_list_mono, simp)

lemma host_live_demand:
  assumes "served room d" "\<forall>k < length (dm_pools d). \<not> hungry k d"
  shows "int (host_live d) = demand d"
proof -
  have "int (count_live (pl_table p)) = pl_desired p" if "p \<in> set (dm_pools d)" for p
    using assms that by (force simp: served_def hungry_def in_set_conv_nth)
  then show ?thesis
    unfolding host_live_def demand_def by (simp add: sum_list_of_nat [symmetric] comp_def cong: map_cong)
qed

text \<open>When the second loop stops, the host is full or every pool was visited in vain.\<close>

lemma grow_stop:
  assumes "served room d" "int (host_live d) = host_total" "visited_full wp d" "host_total \<le> dm_max_runners d"
    and "\<not> (host_total < dm_max_runners d \<and> wp < length (dm_pools d))"
  shows "int (host_live d) = min (dm_max_runners d) (demand d)"
proof (cases "host_total < dm_max_runners d")
  case True
  with assms(5) have "length (dm_pools d) \<le> wp" by simp
  then have "int (host_live d) = demand d"
    using visited_full_turn [OF assms(3)] by (intro host_live_demand [OF assms(1)]) blast
  with True assms(2) show ?thesis by simp
next
  case False
  with assms(2,4) host_live_le_demand [OF assms(1)] show ?thesis by simp
qed

lemma grow_smooth:
  "served (nat (dm_max_runners d - host_total)) d \<Longrightarrow> dm_pools d \<noteq> [] \<Longrightarrow> int (host_live d) = host_total \<Longrightarrow>
   \<forall>v \<in> set vs. smooth_visit v \<Longrightarrow> retries_due vs d \<Longrightarrow> visited_full wp d \<Longrightarrow>
   nat (dm_max_runners d - host_total) * length (dm_pools d) \<le> length vs + wp \<Longrightarrow>
   host_total \<le> dm_max_runners d \<Longrightarrow>
   fst (grow vs host_total wp d) = SchedOk \<and>
   int (host_live (snd (grow vs host_total wp d))) = min (dm_max_runners d) (demand d)"
proof (induction vs arbitrary: host_total wp d)
  case Nil
  have "\<not> (host_total < dm_max_runners d \<and> wp < length (dm_pools d))"
  proof
    assume a: "host_total < dm_max_runners d \<and> wp < length (dm_pools d)"
    then have "1 \<le> nat (dm_max_runners d - host_total)" by linarith
    then have "length (dm_pools d) \<le> nat (dm_max_runners d - host_total) * length (dm_pools d)" by simp
    with Nil.prems(7) a show False by simp
  qed
  then show ?case using grow_stop [OF Nil.prems(1,3,6,8)] by (simp add: grow.simps [of "[]"])
next
  case (Cons v vs)
  let ?n = "length (dm_pools d)" and ?k = "dm_cursor d mod length (dm_pools d)"
  let ?d1 = "d\<lparr>dm_cursor := (dm_cursor d + 1) mod ?n\<rparr>"
  show ?case
  proof (cases "host_total < dm_max_runners d \<and> wp < ?n")
    case False
    then show ?thesis using grow_stop [OF Cons.prems(1,3,6,8) False] by (auto simp: grow.simps [of "v # vs"])
  next
    case True
    have sv: "smooth_visit v" "\<not> vi_ctx_err v" "retries_due [v] d" "retries_due vs d"
      using Cons.prems(4,5) by (simp_all add: smooth_visit_def retries_due_def)
    have room: "nat (dm_max_runners d - host_total) = Suc (nat (dm_max_runners d - (host_total + 1)))"
      using True by linarith
    have k: "?k < ?n" using Cons.prems(2) by simp
    note g = grow_one_smooth [OF sv(1) Cons.prems(2) Cons.prems(1) [unfolded room] sv(3)]
    show ?thesis
    proof (cases "hungry ?k d")
      case False
      with g have g1: "grow_one v d = (False, None, ?d1)" by simp
      have "served (nat (dm_max_runners ?d1 - host_total)) ?d1" "int (host_live ?d1) = host_total" "retries_due vs ?d1"
        "demand ?d1 = demand d"
        using Cons.prems(1,3) sv(4) by simp_all
      with Cons.IH [of ?d1 host_total "wp + 1"] visited_full_skip [OF Cons.prems(6) False] Cons.prems(2,4,7,8) True g1 sv(2)
      show ?thesis by (simp add: grow.simps [of "v # vs"])
    next
      case eager: True
      with g obtain t' where g1: "grow_one v d = (False, Some 1, set_table ?k t' ?d1)"
        "count_live t' = Suc (count_live (table_at d ?k))" "able (nat (dm_max_runners d - (host_total + 1))) t'" by auto
      let ?d2 = "set_table ?k t' ?d1"
      have k1: "?k < length (dm_pools ?d1)" using k by simp
      have "served (nat (dm_max_runners ?d2 - (host_total + 1))) ?d2"
        using served_set_table [OF _ k1, of "nat (dm_max_runners d - (host_total + 1))" t'] Cons.prems(1) [unfolded room] g1 eager
        by (simp add: hungry_def)
      moreover have "int (host_live ?d2) = host_total + 1"
        using host_live_set_table [OF k1, of t'] host_live_split [OF k] g1(2) Cons.prems(3)
        by simp
      moreover have "retries_due vs ?d2" "demand ?d2 = demand d"
        using pools_set_table [OF k1, of t'] sv(4) retries_due_map [of ?d2 d vs] by (simp_all add: demand_def)
      moreover have "dm_pools ?d2 \<noteq> []" using Cons.prems(2) by (simp add: set_table_def)
      moreover have "visited_full 0 ?d2" by (simp add: visited_full_def)
      moreover have "nat (dm_max_runners ?d2 - (host_total + 1)) * length (dm_pools ?d2) \<le> length vs + 0"
        using Cons.prems(7) room \<open>host_total < dm_max_runners d \<and> wp < ?n\<close> by simp
      ultimately show ?thesis
        using Cons.IH [of ?d2 "host_total + 1" 0] Cons.prems(2,4) g1(1) sv(2) \<open>host_total < dm_max_runners d \<and> wp < ?n\<close>
        by (simp add: grow.simps [of "v # vs"])
    qed
  qed
qed

text \<open>The first loop finds no surplus: it only records the desired counts.\<close>

definition recorded :: "daemon \<Rightarrow> daemon \<Rightarrow> bool" where
  "recorded d d' \<longleftrightarrow>
     (\<forall>room. served room d \<longrightarrow> served room d') \<and> dm_max_runners d' = dm_max_runners d \<and>
     length (dm_pools d') = length (dm_pools d) \<and> host_live d' = host_live d \<and>
     map pl_desired (dm_pools d') = map pl_desired (dm_pools d) \<and>
     map pl_retry_after (dm_pools d') = map pl_retry_after (dm_pools d)"

lemma maintain_one_smooth:
  assumes v: "smooth_visit v" and k: "k < length (dm_pools d)" and s: "served room d"
  shows "\<exists>d'. maintain_one v k d = (False, d') \<and> recorded d d'"
proof -
  let ?p = "dm_pools d ! k"
  let ?t = "set_desired (pl_desired ?p) (pl_table ?p)"
  have p: "?p \<in> set (dm_pools d)" using k by simp
  have le: "int (count_live (pl_table ?p)) \<le> pl_desired ?p" using s p by (auto simp: served_def)
  have vb: "vi_before v = no_pause" "vi_after v = no_pause" using v by (simp_all add: smooth_visit_def)
  have c: "count_live ?t = count_live (pl_table ?p)" by (rule count_live_set_desired)
  have e: "ensure (int (count_live ?t)) (vi_ensure v) ?t = (False, ?t)" using v by (rule ensure_enough) simp_all
  have twice: "set_table k ?t (set_table k ?t d) = set_table k ?t d" using k by (simp add: set_table_def)
  have "maintain_one v k d = (False, set_table k ?t d)"
    using e c le k twice by (simp add: maintain_one_def Let_def vb set_table_at length_active min_def)
  moreover have "served r (set_table k ?t d)" if "served r d" for r
    unfolding served_def
  proof
    fix q assume "q \<in> set (dm_pools (set_table k ?t d))"
    then have "q = ?p\<lparr>pl_table := ?t\<rparr> \<or> q \<in> set (dm_pools d)"
      using set_update_subset_insert [of "dm_pools d" k] by (auto simp: set_table_def)
    then show "able r (pl_table q) \<and> int (count_live (pl_table q)) \<le> pl_desired q"
      using that p c le by (auto simp: served_def)
  qed
  moreover have "host_live (set_table k ?t d) = host_live d"
    using host_live_set_table [OF k, of ?t] host_live_split [OF k] c by simp
  ultimately show ?thesis using pools_set_table [OF k] by (auto simp: recorded_def)
qed

lemma maintain_smooth:
  "\<forall>k. smooth_visit (ms k) \<Longrightarrow> \<forall>k \<in> set ks. k < length (dm_pools d) \<Longrightarrow> served room d \<Longrightarrow>
   \<exists>d'. maintain ms ks d = (False, d') \<and> recorded d d'"
proof (induction ks arbitrary: d)
  case Nil
  then show ?case by (simp add: recorded_def)
next
  case (Cons k ks)
  from maintain_one_smooth [OF _ _ Cons.prems(3), of "ms k" k] Cons.prems obtain d1 where
    d1: "maintain_one (ms k) k d = (False, d1)" "recorded d d1" by auto
  with Cons.IH [of d1] Cons.prems obtain d2 where "maintain ms ks d1 = (False, d2)" "recorded d1 d2"
    by (auto simp: recorded_def)
  with d1 show ?case by (auto simp: recorded_def)
qed

text \<open>C16: The scheduler conserves work: when no pool has surplus or waits for a retry, its tables are open, own the
  slot directories on disk and have IDs left, and the starts succeed undisturbed, one round reports no error and
  leaves exactly as many live slots on the host as the pools want together, or as the ceiling allows, whichever is
  less; a host that is above the ceiling already, because it adopted more at boot, keeps exactly the slots it has,
  since no pool has surplus to give up. With (ceiling) times (number of pools) visits the round is never cut short.\<close>

theorem scheduler_work_conserving:
  assumes "\<forall>p \<in> set (dm_pools d). table_inv (pl_table p) \<and> \<not> t_closed (pl_table p) \<and> dirs_owned (pl_table p) \<and>
      length (t_slots (pl_table p)) + nat (dm_max_runners d) \<le> max_slot_id \<and>
      int (count_live (pl_table p)) \<le> pl_desired p"
    and "\<forall>k. smooth_visit (ms k)"
    and "\<forall>v \<in> set vs. smooth_visit v \<and> (\<forall>p \<in> set (dm_pools d). pl_retry_after p \<le> vi_now v)"
    and "nat (dm_max_runners d) * length (dm_pools d) \<le> length vs"
  shows "fst (reconcile_pools ms vs d) = SchedOk \<and>
    int (length (all_active (snd (reconcile_pools ms vs d)))) =
      max (int (length (all_active d))) (min (dm_max_runners d) (sum_list (map pl_desired (dm_pools d))))"
proof -
  have s: "served (nat (dm_max_runners d)) d" using assms(1) by (auto simp: served_def able_def)
  from maintain_smooth [OF assms(2) _ s, of "[0..<length (dm_pools d)]"] obtain d1 where
    m: "maintain ms [0..<length (dm_pools d)] d = (False, d1)" and r: "recorded d d1" by auto
  have same: "dm_max_runners d1 = dm_max_runners d" "length (dm_pools d1) = length (dm_pools d)"
    "host_live d1 = host_live d" "demand d1 = demand d" "served (nat (dm_max_runners d)) d1"
    using r s by (simp_all add: recorded_def demand_def)
  have wanted: "int (host_live d1) \<le> demand d1" by (rule host_live_le_demand [OF same(5)])
  show ?thesis
  proof (cases "int (host_live d1) \<ge> dm_max_runners d1 \<or> dm_pools d1 = []")
    case True
    have "max (int (host_live d1)) (min (dm_max_runners d1) (demand d1)) = int (host_live d1)"
      using True wanted by (auto simp: host_live_def demand_def)
    with True m same show ?thesis by (simp add: reconcile_pools_def length_all_active demand_def)
  next
    case False
    have s1: "served (nat (dm_max_runners d1 - int (host_live d1))) d1"
      using same(5) False same(1) by (auto simp: served_def intro: able_less)
    have "retries_due vs d" using assms(3) by (simp add: retries_due_def)
    then have "retries_due vs d1" using r retries_due_map [of d1 d] by (simp add: recorded_def)
    moreover have "nat (dm_max_runners d1 - int (host_live d1)) * length (dm_pools d1) \<le>
        nat (dm_max_runners d) * length (dm_pools d)"
      unfolding same by (rule mult_le_mono1) simp
    moreover have "visited_full 0 d1" by (simp add: visited_full_def)
    ultimately have "fst (grow vs (int (host_live d1)) 0 d1) = SchedOk \<and>
        int (host_live (snd (grow vs (int (host_live d1)) 0 d1))) = min (dm_max_runners d1) (demand d1)"
      using False assms(3,4) by (intro grow_smooth [OF s1 _ refl]) simp_all
    moreover have "max (int (host_live d1)) (min (dm_max_runners d1) (demand d1)) = min (dm_max_runners d1) (demand d1)"
      using False wanted by simp
    ultimately show ?thesis using False m same
      by (simp add: reconcile_pools_def length_all_active demand_def)
  qed
qed

definition smooth_demo :: visit where
  "smooth_demo = demo_visit\<lparr>vi_ensure := quiet 1\<rparr>"

lemma smooth_visit_demo: "smooth_visit smooth_demo"
  by (simp add: smooth_visit_def smooth_demo_def demo_visit_def quiet_def)

theorem scheduler_work_conserving_witness:
  "length (all_active (snd (reconcile_pools (\<lambda>_. smooth_demo) (replicate 4 smooth_demo) demo_daemon))) = 2"
proof -
  have p: "\<forall>p \<in> set (dm_pools demo_daemon). table_inv (pl_table p) \<and> \<not> t_closed (pl_table p) \<and> dirs_owned (pl_table p) \<and>
      length (t_slots (pl_table p)) + nat (dm_max_runners demo_daemon) \<le> max_slot_id \<and>
      int (count_live (pl_table p)) \<le> pl_desired p \<and> pl_retry_after p \<le> 1"
    by (simp add: demo_daemon_def demo_pool_of_def new_pool_runtime_def dirs_owned_def max_slot_id_def)
  have w: "vi_now smooth_demo = 1" by (simp add: smooth_demo_def demo_visit_def)
  have "sum_list (map pl_desired (dm_pools demo_daemon)) = 6"
    by (simp add: demo_daemon_def demo_pool_of_def)
  then show ?thesis
    using scheduler_work_conserving [of demo_daemon "\<lambda>_. smooth_demo" "replicate 4 smooth_demo"] p w smooth_visit_demo
    by (simp add: length_all_active)
qed

end
