(* ===== verification/Pool_Properties.thy ===== *)
theory Pool_Properties
  imports Pool
begin

text \<open>Properties of a pool: its queued hints, its candidate estimate and its retry backoff.\<close>

definition demo_pool :: pool where
  "demo_pool = (new_pool_runtime ''p'' 0 4 (new_table ''/s'' ''/j'' [] 1 []))
     \<lparr>pl_queued := [(''w'', 2)], pl_queued_at := [(''w'', 1)]\<rparr>"

lemma hints_ok_demo [simp]: "hints_ok demo_pool"
  by (simp add: hints_ok_def demo_pool_def new_pool_runtime_def max_queued_refs_def)

section \<open>Hints\<close>

text \<open>The memory a pool spends on queued hints is bounded: whatever workflow references arrive,
  expire or start, a pool holds at most 1024 of them, each once, with a time and a count between 1
  and 9999.\<close>

lemma hints_bounded:
  assumes "hints_ok p"
  shows "hints_ok (note_queued now refs p) \<and> hints_ok (expire_queued now p) \<and>
    hints_ok (consume_queued_ref ref p) \<and> length (pl_queued (note_queued now refs p)) \<le> 1024"
  using assms hints_ok_note_queued [OF assms, of now refs]
  by (simp add: hints_ok_expire hints_ok_consume) (simp add: hints_ok_def max_queued_refs_def)


text \<open>A hint lives as long as it is refreshed: after an expiry at some time every hint left was
  noted at most ten minutes earlier (or has no time), and every hint that young is still there with
  its count.\<close>

lemma expiry_exact:
  assumes "hints_ok p"
  shows "(ref, n) \<in> set (pl_queued (expire_queued now p)) \<longleftrightarrow>
    (ref, n) \<in> set (pl_queued p) \<and> (hint_at p ref = 0 \<or> now - hint_at p ref \<le> 10 * minute)"
  using assms by (auto simp: expire_queued_def hint_expired_def queued_hint_ttl_def hints_ok_def)


text \<open>Each started job uses up one hint: starting a job of a workflow lowers the count of its hint
  by one, removes the hint at the last one, and leaves every other hint alone.\<close>

lemma consume_one_hint:
  assumes "hints_ok p"
  shows "hint_count (consume_queued_ref ref p) r =
    (if r = ref then hint_count p ref - 1 else hint_count p r)"
proof (cases "hint_count p ref \<le> 1")
  case True
  then show ?thesis by (auto simp: consume_queued_ref_def hint_count_def map_of_del_key)
next
  case False
  then show ?thesis by (auto simp: consume_queued_ref_def hint_count_def)
qed


section \<open>The candidate estimate\<close>

lemma foldl_max_ge:
  fixes f :: "'a \<Rightarrow> 'b::linorder" and g :: "'a \<Rightarrow> 'c::linorder"
  shows "fst acc \<le> fst (foldl (\<lambda>(c, m) x. (max c (f x), max m (g x))) acc xs) \<and>
    snd acc \<le> snd (foldl (\<lambda>(c, m) x. (max c (f x), max m (g x))) acc xs) \<and>
    (\<forall>x \<in> set xs. f x \<le> fst (foldl (\<lambda>(c, m) x. (max c (f x), max m (g x))) acc xs) \<and>
       g x \<le> snd (foldl (\<lambda>(c, m) x. (max c (f x), max m (g x))) acc xs))"
proof (induction xs arbitrary: acc)
  case (Cons x xs)
  obtain c m where acc: "acc = (c, m)" by fastforce
  show ?case using Cons.IH [of "(max c (f x), max m (g x))"] unfolding acc by auto
qed simp

text \<open>The reservation of a new runner covers whatever it may pick up: the candidate estimate is at
  least the predicted cost, in cores and in memory, of every workflow whose hint has not
  expired.\<close>

lemma candidate_estimate_covers:
  assumes "(ref, n) \<in> set (pl_queued (expire_queued now p))"
  shows "fst (predict_cores h (pl_id p) ref) \<le> fst (fst (candidate_estimate (Some h) now p)) \<and>
    fst (predict_mem h (pl_id p) ref) \<le> snd (fst (candidate_estimate (Some h) now p))"
proof -
  let ?q = "pl_queued (expire_queued now p)"
  let ?f = "\<lambda>e :: string \<times> nat. fst (predict_cores h (pl_id p) (fst e))"
  let ?g = "\<lambda>e :: string \<times> nat. fst (predict_mem h (pl_id p) (fst e))"
  have "?q \<noteq> []" using assms by auto
  then have "fst (candidate_estimate (Some h) now p) =
      foldl (\<lambda>(c, m) e. (max c (?f e), max m (?g e))) (0, 0) ?q"
    by (simp add: candidate_estimate_def Let_def case_prod_unfold)
  with foldl_max_ge [of "(0, 0)" ?f ?g ?q] assms show ?thesis by force
qed


section \<open>Retry backoff\<close>

definition failures :: "(time \<times> time) list \<Rightarrow> pool \<Rightarrow> pool" where
  "failures fs p = foldl (\<lambda>p (now, now2). record_acquire_failure now now2 p) p fs"

text \<open>Failures each of which comes no later than three minutes after the retry before it was due.\<close>

fun rapid :: "(time \<times> time) list \<Rightarrow> pool \<Rightarrow> bool" where
  "rapid [] p = True"
| "rapid ((now, now2) # fs) p =
     (now - pl_retry_after p \<le> 3 * minute \<and> rapid fs (record_acquire_failure now now2 p))"

lemma failures_Cons: "failures ((now, now2) # fs) p = failures fs (record_acquire_failure now now2 p)"
  by (simp add: failures_def)

lemma rapid_delay:
  "rapid fs p \<Longrightarrow> pl_retry_delay p = min (2 ^ k) 30 * second \<Longrightarrow>
   pl_retry_delay (failures fs p) = min (2 ^ (k + length fs)) 30 * second"
proof (induction fs arbitrary: p k)
  case Nil
  then show ?case by (simp add: failures_def)
next
  case (Cons f fs)
  obtain now now2 where f: "f = (now, now2)" by fastforce
  have "0 < pl_retry_delay p" using Cons.prems(2) by (simp add: second_def)
  then have "pl_retry_delay (record_acquire_failure now now2 p) = min (2 ^ Suc k) 30 * second"
    using Cons.prems f by (auto simp: record_acquire_failure_def Let_def second_def min_def)
  with Cons.IH [of "record_acquire_failure now now2 p" "Suc k"] Cons.prems(1) f
  show ?case by (simp add: failures_Cons)
qed

lemma failures_bounds:
  assumes "fs \<noteq> []" "pl_retry_delay p = 0 \<or> second \<le> pl_retry_delay p \<and> pl_retry_delay p \<le> 30 * second"
  shows "second \<le> pl_retry_delay (failures fs p) \<and> pl_retry_delay (failures fs p) \<le> 30 * second \<and>
    pl_retry_after (failures fs p) = snd (last fs) + pl_retry_delay (failures fs p)"
  using assms
proof (induction fs arbitrary: p)
  case (Cons f fs)
  obtain now now2 where f: "f = (now, now2)" by fastforce
  let ?p = "record_acquire_failure now now2 p"
  have 1: "second \<le> pl_retry_delay ?p \<and> pl_retry_delay ?p \<le> 30 * second"
    using Cons.prems(2) by (auto simp: record_acquire_failure_def Let_def second_def)
  show ?case
  proof (cases "fs = []")
    case True
    with 1 f show ?thesis by (simp add: failures_def record_acquire_failure_def Let_def)
  next
    case False
    with Cons.IH [OF False, of ?p] 1 f show ?thesis by (simp add: failures_Cons)
  qed
qed simp

text \<open>C19: The retry backoff of a pool is exponential and capped: after one failed acquisition and any
  number of further ones in quick succession the delay is 1, 2, 4, 8, 16 and then 30 seconds;
  whatever the failures' times, the delay stays between 1 and 30 seconds and a start is allowed
  again no later than 30 seconds after the last failure.\<close>

theorem retry_backoff:
  assumes "pl_retry_delay p = 0"
  shows "(rapid fs (record_acquire_failure now now2 p) \<longrightarrow>
      pl_retry_delay (failures ((now, now2) # fs) p) = min (2 ^ length fs) 30 * second) \<and>
    second \<le> pl_retry_delay (failures ((now, now2) # fs) p) \<and>
    (\<forall>m \<ge> snd (last ((now, now2) # fs)) + 30 * second. acquire_retry_wait m (failures ((now, now2) # fs) p) = 0)"
proof -
  have "pl_retry_delay (record_acquire_failure now now2 p) = min (2 ^ 0) 30 * second"
    using assms by (simp add: record_acquire_failure_def Let_def)
  with rapid_delay [of fs "record_acquire_failure now now2 p" 0] failures_bounds [of "(now, now2) # fs" p] assms
  show ?thesis by (auto simp: failures_Cons acquire_retry_wait_def)
qed

theorem retry_backoff_witness:
  "pl_retry_delay (failures [(1, 2), (3, 4), (5, 6)] demo_pool) = 4 * second"
proof -
  have "pl_retry_delay demo_pool = 0" by (simp add: demo_pool_def new_pool_runtime_def)
  moreover have "rapid [(3, 4), (5, 6)] (record_acquire_failure 1 2 demo_pool)"
    by (simp add: record_acquire_failure_def Let_def demo_pool_def new_pool_runtime_def minute_def second_def)
  ultimately show ?thesis using retry_backoff [of demo_pool "[(3, 4), (5, 6)]" 1 2] by simp
qed

end
