(* ===== verification/History_File.thy ===== *)
theory History_File
  imports History Go_Strings
begin

text \<open>
  The history file of package \<open>history\<close> (\<open>Open\<close>, \<open>Append\<close>, \<open>rotateLocked\<close>, \<open>replayTail\<close>), at the level
  of its text: one JSON line per record. What \<open>encoding/json\<close> makes of a record and of a line are
  the parameters \<open>enc\<close> and \<open>dec\<close>; \<open>codec_ok\<close> states what it promises for given records. How the file
  calls end is the environment of an operation.
\<close>

type_synonym encoder = "hist_record \<Rightarrow> string option"
type_synonym decoder = "string \<Rightarrow> hist_record option"

definition default_rotate_lines :: int where "default_rotate_lines = 5000"
definition replay_window :: nat where "replay_window = 5000"

text \<open>The scanner's buffer limit in \<open>replayTail\<close>.\<close>

definition max_line :: nat where "max_line = 1024 * 1024"

definition decode_line :: "decoder \<Rightarrow> string \<Rightarrow> hist_record option" where
  "decode_line dec l = (let t = trim_space l in if t = [] then None else dec t)"

text \<open>\<open>replayTail\<close>: blank and malformed lines are skipped, then the newest \<open>n\<close> records are kept;
  \<open>None\<close> is the scanner's error.\<close>

definition replay_tail :: "decoder \<Rightarrow> string \<Rightarrow> nat \<Rightarrow> hist_record list option" where
  "replay_tail dec content n =
     (let (ls, ok) = scan_lines max_line content;
          out = List.map_filter (decode_line dec) ls
      in if \<not> ok then None
         else Some (if length out > n then drop (length out - n) out else out))"

text \<open>\<open>Open\<close>: the file may be missing (\<open>file = None\<close>) or unreadable; \<open>None\<close> is an error.\<close>

definition open_store :: "decoder \<Rightarrow> bool \<Rightarrow> string option \<Rightarrow> store option" where
  "open_store dec open_err file =
     (case file of None \<Rightarrow> Some empty_store
      | Some content \<Rightarrow>
          if open_err then None
          else (case replay_tail dec content replay_window of
                  None \<Rightarrow> None
                | Some rs \<Rightarrow> Some (foldl (\<lambda>s r. absorb r s) empty_store rs)))"

record append_env =
  ap_stat_err :: bool
  ap_tail_err :: bool
  ap_tmp_err :: bool
  ap_open_err :: bool
  ap_short :: "nat option"

definition calm :: append_env where
  "calm = \<lparr>ap_stat_err = False, ap_tail_err = False, ap_tmp_err = False, ap_open_err = False, ap_short = None\<rparr>"

text \<open>\<open>rotateLocked\<close>: the file afterwards, \<open>None\<close> an error. The rewritten copy replaces the file by a
  rename, so a failure leaves the file as it was; a record that cannot be encoded is left out.\<close>

definition rotate ::
  "encoder \<Rightarrow> decoder \<Rightarrow> int \<Rightarrow> append_env \<Rightarrow> string option \<Rightarrow> string option option" where
  "rotate enc dec limit ap file =
     (if limit \<le> 0 then Some file
      else case file of None \<Rightarrow> Some None
      | Some content \<Rightarrow>
          if ap_stat_err ap then None
          else if int (length content) < limit * 250 then Some file
          else if ap_tail_err ap then None
          else (case replay_tail dec content (nat (limit div 2)) of
                  None \<Rightarrow> None
                | Some rs \<Rightarrow> if ap_tmp_err ap then None
                             else Some (Some (unlines (List.map_filter enc rs)))))"

text \<open>\<open>Append\<close>: a short write leaves the first bytes of the line (\<open>ap_short\<close>); the record is absorbed
  only once its line is written.\<close>

datatype append_result = AppendOk | AppendEncodeErr | AppendRotateErr | AppendOpenErr | AppendWriteErr

definition append_record ::
  "encoder \<Rightarrow> decoder \<Rightarrow> int \<Rightarrow> append_env \<Rightarrow> hist_record \<Rightarrow> store \<Rightarrow> string option \<Rightarrow>
   append_result \<times> store \<times> string option" where
  "append_record enc dec limit ap r s file =
     (case enc r of
        None \<Rightarrow> (AppendEncodeErr, s, file)
      | Some line \<Rightarrow>
          (case rotate enc dec limit ap file of
             None \<Rightarrow> (AppendRotateErr, s, file)
           | Some f1 \<Rightarrow>
               if ap_open_err ap then (AppendOpenErr, s, f1)
               else
                 let old = (case f1 of None \<Rightarrow> [] | Some content \<Rightarrow> content);
                     new = line @ [newline]
                 in case ap_short ap of
                      Some k \<Rightarrow> (AppendWriteErr, s, Some (old @ take k new))
                    | None \<Rightarrow> (AppendOk, absorb r s, Some (old @ new))))"

section \<open>Whole lines\<close>

text \<open>What \<open>encoding/json\<close> and the scanner promise for the records \<open>rs\<close>: each is encoded as one line
  without blanks at its ends, which fits the scanner and decodes to the record.\<close>

definition codec_ok :: "encoder \<Rightarrow> decoder \<Rightarrow> hist_record list \<Rightarrow> bool" where
  "codec_ok enc dec rs \<longleftrightarrow>
     (\<forall>r \<in> set rs. \<exists>l. enc r = Some l \<and> dec l = Some r \<and> l \<noteq> [] \<and> trim_space l = l \<and> line_ok max_line l)"

definition log_text :: "encoder \<Rightarrow> hist_record list \<Rightarrow> string" where
  "log_text enc rs = unlines (List.map_filter enc rs)"

definition newest :: "nat \<Rightarrow> 'a list \<Rightarrow> 'a list" where
  "newest n xs = drop (length xs - n) xs"

lemma newest_all: "length xs \<le> n \<Longrightarrow> newest n xs = xs"
  by (simp add: newest_def)

lemma newest_newest: "m \<le> n \<Longrightarrow> newest m (newest n xs) = newest m xs"
proof -
  assume "m \<le> n"
  then have "length xs - (length xs - n + m) + (length xs - n) = length xs - m" by arith
  then show ?thesis by (simp add: newest_def)
qed

lemma newest_subset: "set (newest n xs) \<subseteq> set xs"
  by (simp add: newest_def set_drop_subset)

lemma codec_ok_subset: "set rs' \<subseteq> set rs \<Longrightarrow> codec_ok enc dec rs \<Longrightarrow> codec_ok enc dec rs'"
  by (auto simp: codec_ok_def)

lemma max_line_pos [simp]: "0 < max_line"
  by (simp add: max_line_def)

lemma map_filter_Cons_Some: "f x = Some y \<Longrightarrow> List.map_filter f (x # xs) = y # List.map_filter f xs"
  by (simp add: List.map_filter_def)

lemma map_filter_append: "List.map_filter f (xs @ ys) = List.map_filter f xs @ List.map_filter f ys"
  by (simp add: List.map_filter_def)

lemma decoded_log:
  "codec_ok enc dec rs \<Longrightarrow> List.map_filter (decode_line dec) (List.map_filter enc rs) = rs"
proof (induction rs)
  case (Cons r rs)
  then obtain l where l: "enc r = Some l" "dec l = Some r" "l \<noteq> []" "trim_space l = l"
    by (auto simp: codec_ok_def)
  then have "decode_line dec l = Some r" by (simp add: decode_line_def)
  with l Cons show ?case by (simp add: map_filter_Cons_Some codec_ok_def)
qed (simp add: List.map_filter_def)

lemma log_lines_ok: "codec_ok enc dec rs \<Longrightarrow> \<forall>l \<in> set (List.map_filter enc rs). line_ok max_line l"
  by (auto simp: codec_ok_def List.map_filter_def)

lemma scan_log:
  "codec_ok enc dec rs \<Longrightarrow>
   scan_lines max_line (log_text enc rs @ s) =
     (List.map_filter enc rs @ fst (scan_lines max_line s), snd (scan_lines max_line s))"
  unfolding log_text_def by (intro scan_unlines_append log_lines_ok)

lemma replay_log_append:
  assumes "codec_ok enc dec rs" "snd (scan_lines max_line s)"
  shows "replay_tail dec (log_text enc rs @ s) n =
    Some (newest n (rs @ List.map_filter (decode_line dec) (fst (scan_lines max_line s))))"
  using assms(2) scan_log [OF assms(1), of s]
  by (simp add: replay_tail_def map_filter_append decoded_log [OF assms(1)] newest_def Let_def)

lemma replay_log: "codec_ok enc dec rs \<Longrightarrow> replay_tail dec (log_text enc rs) n = Some (newest n rs)"
  using replay_log_append [of enc dec rs "[]" n] by (simp add: List.map_filter_def)

lemma log_text_snoc: "enc r = Some l \<Longrightarrow> log_text enc (rs @ [r]) = log_text enc rs @ l @ [newline]"
  by (simp add: log_text_def List.map_filter_def)

lemma log_text_Nil [simp]: "log_text enc [] = []"
  by (simp add: log_text_def List.map_filter_def)

text \<open>A log whose size has reached the limit is rewritten with its newest half.\<close>

lemma rotate_log:
  assumes "codec_ok enc dec rs" "0 < limit" "limit * 250 \<le> int (length (log_text enc rs))"
  shows "rotate enc dec limit calm (Some (log_text enc rs)) = Some (Some (log_text enc (newest (nat (limit div 2)) rs)))"
  using assms(2, 3) replay_log [OF assms(1), of "nat (limit div 2)"]
  by (simp add: rotate_def calm_def log_text_def)

text \<open>\<open>Append\<close>, once per record, all file calls succeeding.\<close>

fun append_all ::
  "encoder \<Rightarrow> decoder \<Rightarrow> int \<Rightarrow> hist_record list \<Rightarrow> store \<Rightarrow> string option \<Rightarrow> store \<times> string option" where
  "append_all enc dec limit [] s file = (s, file)"
| "append_all enc dec limit (r # rs) s file =
     (let (res, s1, f1) = append_record enc dec limit calm r s file in append_all enc dec limit rs s1 f1)"

definition file_of :: "encoder \<Rightarrow> hist_record list \<Rightarrow> string option" where
  "file_of enc rs = (if rs = [] then None else Some (log_text enc rs))"

lemma append_small:
  assumes "codec_ok enc dec (rs @ [r])"
    and "int (length (log_text enc rs)) < limit * 250 \<or> limit \<le> 0"
  shows "append_record enc dec limit calm r s (file_of enc rs) = (AppendOk, absorb r s, file_of enc (rs @ [r]))"
proof -
  obtain l where l: "enc r = Some l" using assms(1) by (auto simp: codec_ok_def)
  have "rotate enc dec limit calm (file_of enc rs) = Some (file_of enc rs)"
    using assms(2) by (auto simp: rotate_def calm_def file_of_def)
  then show ?thesis
    by (cases "rs = []") (simp_all add: append_record_def l calm_def file_of_def log_text_snoc
        log_text_snoc [of enc r l "[]", simplified])
qed

lemma append_all_small:
  assumes "codec_ok enc dec (rs0 @ rs)"
    and "int (length (log_text enc (rs0 @ rs))) < limit * 250 \<or> limit \<le> 0"
  shows "append_all enc dec limit rs s (file_of enc rs0) =
    (foldl (\<lambda>s r. absorb r s) s rs, file_of enc (rs0 @ rs))"
  using assms
proof (induction rs arbitrary: rs0 s)
  case (Cons r rs)
  have "int (length (log_text enc rs0)) < limit * 250 \<or> limit \<le> 0"
    using Cons.prems(2) by (auto simp: log_text_def map_filter_append)
  moreover have "codec_ok enc dec (rs0 @ [r])" by (rule codec_ok_subset [OF _ Cons.prems(1)]) auto
  ultimately have "append_record enc dec limit calm r s (file_of enc rs0) =
      (AppendOk, absorb r s, file_of enc (rs0 @ [r]))" by (intro append_small)
  with Cons.IH [of "rs0 @ [r]" "absorb r s"] Cons.prems show ?case by simp
qed simp

section \<open>Properties\<close>

text \<open>A codec for examples: a record is written as a line of as many letters as its run number, and
  400 more.\<close>

definition demo_enc :: encoder where
  "demo_enc r = Some (replicate (400 + nat (h_run_id r)) (CHR ''x''))"

definition demo_dec :: decoder where
  "demo_dec l = Some (demo_record (length l - 400))"

lemma trim_letters: "trim_space (replicate n (CHR ''x'')) = replicate n (CHR ''x'')"
  by (cases "n = 0") (simp_all add: trim_space_id is_space_def)

lemma demo_codec: "\<forall>k \<in> set ks. k < 10 \<Longrightarrow> codec_ok demo_enc demo_dec (map demo_record ks)"
  by (auto simp: codec_ok_def demo_enc_def demo_dec_def demo_record_def max_line_def trim_letters
      line_ok_def newline_def drop_cr_def)

lemma demo_length: "length (log_text demo_enc (map demo_record ks)) = sum_list (map (\<lambda>k. k + 401) ks)"
  by (induction ks) (simp_all add: log_text_def demo_enc_def demo_record_def List.map_filter_def)

text \<open>C35: The statistics survive a restart: a store built by appending records, none of which forces
  a rotation and no more of them than the replay window, is rebuilt exactly when its file is opened
  again.\<close>

theorem open_restores_store:
  assumes "codec_ok enc dec rs" "length rs \<le> replay_window"
    and "int (length (log_text enc rs)) < limit * 250 \<or> limit \<le> 0"
    and "append_all enc dec limit rs empty_store None = (s, file)"
  shows "open_store dec False file = Some s"
proof -
  have "append_all enc dec limit rs empty_store (file_of enc []) =
      (foldl (\<lambda>s r. absorb r s) empty_store rs, file_of enc rs)"
    using append_all_small [of enc dec "[]" rs limit empty_store] assms(1, 3) by simp
  with assms(4) have "s = foldl (\<lambda>s r. absorb r s) empty_store rs" "file = file_of enc rs"
    by (simp_all add: file_of_def)
  then show ?thesis
    using replay_log [OF assms(1), of replay_window] newest_all [OF assms(2)]
    by (simp add: open_store_def file_of_def)
qed

theorem open_restores_store_witness:
  "let (s, file) = append_all demo_enc demo_dec 5000 [demo_record 1, demo_record 2] empty_store None
   in open_store demo_dec False file = Some s"
proof -
  have "codec_ok demo_enc demo_dec (map demo_record [1, 2])" by (rule demo_codec) simp
  then show ?thesis
    using open_restores_store [of demo_enc demo_dec "map demo_record [1, 2]" 5000] demo_length [of "[1, 2]"]
    by (auto simp: replay_window_def simp del: append_all.simps split: prod.split)
qed

text \<open>The file is rotated by size alone, and a rotation keeps the newest records in order: once its
  text has reached 250 bytes per line of the limit it is rewritten with the newest half-limit of its
  records. A file of fewer lines than the limit is rewritten too when its lines are long, although
  the code's comment says the exact line count is checked.\<close>

lemma rotate_by_size_alone:
  assumes "codec_ok enc dec rs" "0 < limit" "limit * 250 \<le> int (length (log_text enc rs))"
  shows "\<exists>content. rotate enc dec limit calm (Some (log_text enc rs)) = Some (Some content) \<and>
    (\<forall>n. replay_tail dec content n = Some (newest n (newest (nat (limit div 2)) rs)))"
proof (intro exI conjI allI)
  show "rotate enc dec limit calm (Some (log_text enc rs)) =
      Some (Some (log_text enc (newest (nat (limit div 2)) rs)))"
    using assms by (rule rotate_log)
  show "replay_tail dec (log_text enc (newest (nat (limit div 2)) rs)) n =
      Some (newest n (newest (nat (limit div 2)) rs))" for n
    using codec_ok_subset [OF newest_subset assms(1)] by (rule replay_log)
qed




text \<open>A failed append is harmless to the statistics and to the records on file: whatever call of
  it fails, the store is unchanged, and every record that the file held before, or the newest
  half-limit of them after a rotation, is still read back. A short
  write may leave a fragment of the line, as long as the fragment is not itself a record.\<close>

lemma failed_append_harmless:
  assumes "codec_ok enc dec rs"
    and "append_record enc dec limit ap r s (Some (log_text enc rs)) = (res, s', file')" "res \<noteq> AppendOk"
    and "\<And>l k. enc r = Some l \<Longrightarrow> ap_short ap = Some k \<Longrightarrow> newline \<notin> set l \<and> k \<le> length l \<and> k < max_line \<and>
      decode_line dec (drop_cr (take k l)) = None"
  shows "s' = s \<and> (\<exists>content. file' = Some content \<and>
    (replay_tail dec content (nat (limit div 2)) = Some (newest (nat (limit div 2)) rs)))"
proof -
  define h where "h = nat (limit div 2)"
  have rot: "\<exists>rs'. f1 = Some (log_text enc rs') \<and> codec_ok enc dec rs' \<and> newest h rs' = newest h rs"
    if "rotate enc dec limit ap (Some (log_text enc rs)) = Some f1" for f1
  proof (cases "f1 = Some (log_text enc rs)")
    case True
    with assms(1) show ?thesis by blast
  next
    case False
    with that replay_log [OF assms(1), of h] have "f1 = Some (log_text enc (newest h rs))"
      by (auto simp: rotate_def h_def log_text_def split: if_splits)
    then show ?thesis
      using codec_ok_subset [OF newest_subset assms(1)] newest_newest [of h h rs] by blast
  qed
  have tailed: "replay_tail dec (log_text enc rs' @ take k l) h = Some (newest h rs')"
    if ok: "codec_ok enc dec rs'" and l: "enc r = Some l" "ap_short ap = Some k" for rs' k l
  proof (cases "take k l = []")
    case True
    then show ?thesis unfolding True using replay_log [OF ok, of h] by simp
  next
    case False
    have "scan_lines max_line (take k l) = ([drop_cr (take k l)], True)"
      using assms(4) [OF l] False by (intro scan_line) (auto dest: in_set_takeD)
    then show ?thesis
      using replay_log_append [OF ok, of "take k l" h] assms(4) [OF l] by (simp add: List.map_filter_def)
  qed
  show ?thesis
    using assms(2, 3) replay_log [OF assms(1), of h] rot tailed assms(4)
    unfolding append_record_def h_def [symmetric] Let_def
    by (auto split: option.splits if_splits simp: replay_log)
qed


text \<open>One record whose line does not fit the scanner's 1 MiB buffer makes the whole history
  unreadable: it is appended without an error, and from then on opening the file fails, whatever
  else the file holds, and so does every append that would rotate it.\<close>

lemma long_line_blocks_history:
  assumes "codec_ok enc dec rs" "enc r = Some l" "newline \<notin> set l" "max_line \<le> length l"
    and "int (length (log_text enc rs)) < limit * 250"
  shows "\<exists>content. append_record enc dec limit calm r s (file_of enc rs) = (AppendOk, absorb r s, Some content) \<and>
    open_store dec False (Some content) = None \<and>
    (\<forall>ap r' s'. limit * 250 \<le> int (length content) \<longrightarrow> enc r' \<noteq> None \<longrightarrow>
       append_record enc dec limit ap r' s' (Some content) = (AppendRotateErr, s', Some content))"
proof (intro exI conjI allI impI)
  let ?c = "log_text enc rs @ l @ [newline]"
  have "rotate enc dec limit calm (file_of enc rs) = Some (file_of enc rs)"
    using assms(5) by (auto simp: rotate_def calm_def file_of_def)
  then show "append_record enc dec limit calm r s (file_of enc rs) = (AppendOk, absorb r s, Some ?c)"
    using assms(2) by (simp add: append_record_def calm_def file_of_def)
  have "\<not> snd (scan_lines max_line ?c)"
    using scan_long_line [OF assms(3, 4), of "[]"] scan_log [OF assms(1), of "l @ [newline]"] by simp
  then have none: "replay_tail dec ?c n = None" for n
    by (auto simp: replay_tail_def Let_def split: prod.splits)
  then show "open_store dec False (Some ?c) = None" by (simp add: open_store_def)
  fix ap r' and s' :: store
  assume "limit * 250 \<le> int (length ?c)" "enc r' \<noteq> None"
  moreover have "0 < limit" using assms(5) by linarith
  ultimately have "rotate enc dec limit ap (Some ?c) = None" by (simp add: rotate_def none)
  then show "append_record enc dec limit ap r' s' (Some ?c) = (AppendRotateErr, s', Some ?c)"
    using \<open>enc r' \<noteq> None\<close> by (auto simp: append_record_def)
qed


end
