(* ===== verification/Paths.thy ===== *)
theory Paths
  imports Go_Strings
begin

text \<open>
  More of \<open>path/filepath\<close> on Unix (\<open>Dir\<close>, \<open>Rel\<close>) and the containment tests of package \<open>config\<close>
  (\<open>pathContains\<close>, \<open>pathsOverlap\<close>, \<open>resolvePathForOverlap\<close>).
\<close>

text \<open>The elements of a cleaned path, without its leading slash.\<close>

definition path_elems :: "string \<Rightarrow> string list" where
  "path_elems p =
     (let q = (if is_abs p then drop 1 p else p)
      in if q = [] then [] else split_byte (CHR ''/'') q)"

fun strip_common :: "string list \<Rightarrow> string list \<Rightarrow> string list \<times> string list" where
  "strip_common (b # bs) (t # ts) = (if b = t then strip_common bs ts else (b # bs, t # ts))"
| "strip_common bs ts = (bs, ts)"

text \<open>\<open>filepath.Rel\<close>: \<open>None\<close> is an error.\<close>

definition rel_path :: "string \<Rightarrow> string \<Rightarrow> string option" where
  "rel_path base_path targ_path =
     (let base = clean_path base_path; targ = clean_path targ_path in
      if targ = base then Some ''.''
      else
        let base = (if base = ''.'' then [] else base) in
        if is_abs base \<noteq> is_abs targ then None
        else
          let (rb, rt) = strip_common (path_elems base) (path_elems targ)
          in if rb \<noteq> [] \<and> rt \<noteq> [] \<and> hd rb = ''..'' then None
             else Some (join (replicate (length rb) ''..'' @ rt) ''/''))"

definition path_contains :: "string \<Rightarrow> string \<Rightarrow> bool" where
  "path_contains parent child =
     (case rel_path parent child of
        None \<Rightarrow> False
      | Some r \<Rightarrow> r \<noteq> ''..'' \<and> \<not> has_prefix r ''../'')"

definition paths_overlap :: "string \<Rightarrow> string \<Rightarrow> bool" where
  "paths_overlap a b \<longleftrightarrow> path_contains a b \<or> path_contains b a"

text \<open>\<open>filepath.Dir\<close>.\<close>

definition dir_path :: "string \<Rightarrow> string" where
  "dir_path p = clean_path (case last_index_byte p (CHR ''/'') of None \<Rightarrow> [] | Some i \<Rightarrow> take (i + 1) p)"

datatype symlink_result = Resolved string | LinkNotExist | LinkErr

text \<open>\<open>resolvePathForOverlap\<close>: the fuel is the number of ancestors tried; the length of the path is
  enough, since each step shortens it. \<open>None\<close> is an error.\<close>

fun resolve_from :: "nat \<Rightarrow> (string \<Rightarrow> symlink_result) \<Rightarrow> string \<Rightarrow> string \<Rightarrow> string option" where
  "resolve_from 0 links ancestor path = None"
| "resolve_from (Suc n) links ancestor path =
     (case links ancestor of
        Resolved r \<Rightarrow> (case rel_path ancestor path of None \<Rightarrow> None | Some sfx \<Rightarrow> Some (join_path [r, sfx]))
      | LinkErr \<Rightarrow> None
      | LinkNotExist \<Rightarrow>
          if dir_path ancestor = ancestor then None else resolve_from n links (dir_path ancestor) path)"

definition resolve_path_for_overlap :: "(string \<Rightarrow> symlink_result) \<Rightarrow> string \<Rightarrow> string option" where
  "resolve_path_for_overlap links p =
     (let path = clean_path p in resolve_from (length path + 1) links path path)"

section \<open>Facts\<close>

text \<open>A clean absolute path of ordinary elements.\<close>

definition elem_ok :: "string \<Rightarrow> bool" where
  "elem_ok e \<longleftrightarrow> e \<noteq> [] \<and> e \<noteq> ''.'' \<and> e \<noteq> ''..'' \<and> CHR ''/'' \<notin> set e"

definition abs_path :: "string list \<Rightarrow> string" where
  "abs_path es = ''/'' @ join es ''/''"

lemma split_byte_Cons_sep: "split_byte c (c # s) = [] # split_byte c s"
  by simp

lemma clean_components_ok:
  "\<forall>e \<in> set es. elem_ok e \<Longrightarrow> foldl (clean_push b) st es = st @ es"
  by (induction es arbitrary: st) (auto simp: elem_ok_def)

lemma clean_abs_path:
  assumes "\<forall>e \<in> set es. elem_ok e"
  shows "clean_path (abs_path es) = abs_path es"
proof (cases "es = []")
  case True
  then show ?thesis
    by (simp add: abs_path_def clean_path_def clean_components_def is_abs_def has_prefix_def)
next
  case False
  have "split_byte (CHR ''/'') (join es ''/'') = es"
    using False assms by (intro split_byte_join) (auto simp: elem_ok_def)
  then have "clean_components True (split_byte (CHR ''/'') (abs_path es)) = es"
    using clean_components_ok [OF assms, of True "[]"]
    by (simp add: abs_path_def clean_components_def)
  moreover have "is_abs (abs_path es)" by (simp add: abs_path_def is_abs_def has_prefix_def)
  ultimately show ?thesis by (simp add: clean_path_def Let_def) (simp add: abs_path_def)
qed

lemma path_elems_abs:
  "\<forall>e \<in> set es. elem_ok e \<Longrightarrow> path_elems (abs_path es) = es"
proof -
  assume ok: "\<forall>e \<in> set es. elem_ok e"
  have "join es ''/'' = [] \<Longrightarrow> es = []"
    using ok by (cases es; cases "tl es") (auto simp: elem_ok_def)
  moreover have "es \<noteq> [] \<Longrightarrow> split_byte (CHR ''/'') (join es ''/'') = es"
    using ok by (intro split_byte_join) (auto simp: elem_ok_def)
  ultimately show ?thesis
    by (cases "es = []") (auto simp: path_elems_def abs_path_def is_abs_def has_prefix_def Let_def)
qed

lemma abs_path_inj:
  "\<forall>e \<in> set es. elem_ok e \<Longrightarrow> \<forall>e \<in> set fs. elem_ok e \<Longrightarrow> abs_path es = abs_path fs \<longleftrightarrow> es = fs"
  by (metis path_elems_abs)

lemma strip_common_prefix: "strip_common bs (bs @ ts) = ([], ts)"
proof (induction bs)
  case Nil
  then show ?case by (cases ts) simp_all
qed simp

lemma strip_common_diff:
  "\<nexists>sfx. ts = bs @ sfx \<Longrightarrow> fst (strip_common bs ts) \<noteq> []"
  by (induction bs ts rule: strip_common.induct) auto

lemma strip_common_subset:
  "set (fst (strip_common bs ts)) \<subseteq> set bs \<and> set (snd (strip_common bs ts)) \<subseteq> set ts"
  by (induction bs ts rule: strip_common.induct) auto

lemma join_Cons_prefix: "join (w # ws) sep = w @ (if ws = [] then [] else sep @ join ws sep)"
  by (cases ws) auto

text \<open>On clean absolute paths, \<open>path_contains\<close> is the prefix order of their elements.\<close>

lemma path_contains_abs:
  assumes "\<forall>e \<in> set ps. elem_ok e" "\<forall>e \<in> set cs. elem_ok e"
  shows "path_contains (abs_path ps) (abs_path cs) \<longleftrightarrow> (\<exists>sfx. cs = ps @ sfx)"
proof (cases "cs = ps")
  case True
  then show ?thesis by (simp add: path_contains_def rel_path_def has_prefix_def)
next
  case False
  have ne: "abs_path cs \<noteq> abs_path ps" using False assms by (simp add: abs_path_inj)
  have a: "is_abs (abs_path xs)" "abs_path xs \<noteq> ''.''" for xs
    by (simp_all add: abs_path_def is_abs_def has_prefix_def)
  obtain rb rt where st: "strip_common ps cs = (rb, rt)" by fastforce
  have sub: "set rb \<subseteq> set ps" "set rt \<subseteq> set cs" using strip_common_subset [of ps cs] st by auto
  have "rb \<noteq> [] \<Longrightarrow> hd rb \<noteq> ''..''" using sub assms(1) by (cases rb) (auto simp: elem_ok_def)
  then have r: "rel_path (abs_path ps) (abs_path cs) = Some (join (replicate (length rb) ''..'' @ rt) ''/'')"
    using ne a st assms by (auto simp: rel_path_def clean_abs_path path_elems_abs)
  show ?thesis
  proof (cases "\<exists>sfx. cs = ps @ sfx")
    case True
    then obtain sfx where sfx: "cs = ps @ sfx" ..
    with st have rbt: "rb = []" "rt = sfx" by (simp_all add: strip_common_prefix)
    from sfx False obtain e es where s: "sfx = e # es" by (cases sfx) auto
    have e: "elem_ok e" using assms(2) sfx s by simp
    have j: "join rt ''/'' = e @ (if es = [] then [] else ''/'' @ join es ''/'')"
      unfolding rbt s by (rule join_Cons_prefix)
    have "join rt ''/'' \<noteq> ''..''" "\<not> has_prefix (join rt ''/'') ''../''"
    proof -
      have "x \<noteq> CHR ''/''" if "x \<in> set e" for x using that e by (auto simp: elem_ok_def)
      then show "join rt ''/'' \<noteq> ''..''"
        using e unfolding j by (auto simp: elem_ok_def append_eq_Cons_conv split: if_splits)
      show "\<not> has_prefix (join rt ''/'') ''../''"
        using e unfolding j has_prefix_iff
        by (auto simp: elem_ok_def append_eq_Cons_conv append_eq_append_conv2 split: if_splits)
    qed
    with r rbt True show ?thesis by (simp add: path_contains_def)
  next
    case nope: False
    then have "rb \<noteq> []" using strip_common_diff [of cs ps] st by simp
    then obtain n where "length rb = Suc n" by (cases rb) auto
    then have "join (replicate (length rb) ''..'' @ rt) ''/'' = ''..'' @ (if replicate n ''..'' @ rt = [] then []
        else ''/'' @ join (replicate n ''..'' @ rt) ''/'')"
      by (simp only: replicate_Suc append_Cons join_Cons_prefix)
    with r nope show ?thesis by (simp add: path_contains_def has_prefix_def)
  qed
qed

section \<open>Properties\<close>

text \<open>The containment test of the configuration is exact on clean absolute paths: a path contains
  another when its elements are a prefix of the other's, so two paths overlap exactly when one is
  the other or an ancestor of it, and siblings that share a name prefix do not overlap.\<close>

lemma paths_overlap_exact:
  assumes "\<forall>e \<in> set ps. elem_ok e" "\<forall>e \<in> set qs. elem_ok e"
  shows "paths_overlap (abs_path ps) (abs_path qs) \<longleftrightarrow> (\<exists>sfx. qs = ps @ sfx) \<or> (\<exists>sfx. ps = qs @ sfx)"
  using path_contains_abs [OF assms] path_contains_abs [OF assms(2,1)] by (simp add: paths_overlap_def)


end
