(* ===== verification/Env.thy ===== *)
theory Env
  imports Go_Strings
begin

text \<open>
  Package \<open>env\<close>: the environment file of the runners and the layering of its variables over a
  process environment. A file is its text (\<open>None\<close> when it cannot be opened); the variables are an
  association list with distinct keys.
\<close>

datatype env_error = EnvOpen | EnvMalformed nat | EnvScan | EnvMissing "string list"

definition is_quote :: "char \<Rightarrow> bool" where
  "is_quote c \<longleftrightarrow> c = CHR 0x22 \<or> c = CHR 0x27"

definition unquote :: "string \<Rightarrow> string" where
  "unquote s =
     (if length s \<ge> 2 \<and> is_quote (hd s) \<and> last s = hd s then butlast (tl s) else s)"

fun parse_lines :: "nat \<Rightarrow> string list \<Rightarrow> (string \<times> string) list \<Rightarrow> env_error + (string \<times> string) list" where
  "parse_lines n [] vars = Inr vars"
| "parse_lines n (l # ls) vars =
     (let line = trim_space l in
      if line = [] \<or> has_prefix line ''#'' then parse_lines (n + 1) ls vars
      else case index_byte line (CHR ''='') of
        None \<Rightarrow> Inl (EnvMalformed (n + 1))
      | Some eq \<Rightarrow>
          parse_lines (n + 1) ls
            (put_key (trim_space (take eq line)) (unquote (trim_space (drop (eq + 1) line))) vars))"

text \<open>\<open>bufio.MaxScanTokenSize\<close>, the scanner's default buffer.\<close>

definition max_scan_token :: nat where "max_scan_token = 65536"

definition parse_file :: "string option \<Rightarrow> env_error + (string \<times> string) list" where
  "parse_file file =
     (case file of
        None \<Rightarrow> Inl EnvOpen
      | Some content \<Rightarrow>
          let (ls, ok) = scan_lines max_scan_token content in
          (case parse_lines 0 ls [] of
             Inl e \<Rightarrow> Inl e
           | Inr vars \<Rightarrow> if ok then Inr vars else Inl EnvScan))"

text \<open>A read of a missing key is the empty string.\<close>

definition lookup_var :: "(string \<times> string) list \<Rightarrow> string \<Rightarrow> string" where
  "lookup_var vars k = (case map_of vars k of None \<Rightarrow> [] | Some v \<Rightarrow> v)"

definition validate_env :: "(string \<times> string) list \<Rightarrow> env_error option" where
  "validate_env vars =
     (let missing = filter (\<lambda>k. trim_space (lookup_var vars k) = []) [''PATH'', ''HOME'']
      in if missing \<noteq> [] then Some (EnvMissing missing) else None)"

text \<open>The key of an entry: what is before its first \<open>=\<close>, or all of it.\<close>

definition entry_key :: "string \<Rightarrow> string" where
  "entry_key kv = (case index_byte kv (CHR ''='') of None \<Rightarrow> kv | Some i \<Rightarrow> take i kv)"

definition render_var :: "string \<Rightarrow> string \<Rightarrow> string" where
  "render_var k v = k @ ''='' @ v"

definition apply_env :: "string list \<Rightarrow> (string \<times> string) list \<Rightarrow> string list" where
  "apply_env environ vars =
     (let out = map (\<lambda>kv. case map_of vars (entry_key kv) of
                       Some v \<Rightarrow> render_var (entry_key kv) v | None \<Rightarrow> kv) environ;
          seen = map entry_key environ;
          keys = sort (filter (\<lambda>k. k \<notin> set seen) (map fst vars))
      in out @ map (\<lambda>k. render_var k (lookup_var vars k)) keys)"

section \<open>Facts\<close>

lemma entry_key_render: "CHR ''='' \<notin> set k \<Longrightarrow> entry_key (render_var k v) = k"
  by (simp add: entry_key_def render_var_def index_byte_append)

lemma entry_key_no_eq: "CHR ''='' \<notin> set (entry_key kv)"
  by (auto simp: entry_key_def index_byte_None dest: index_byte_Some split: option.splits)

lemma trim_space_subset: "set (trim_space s) \<subseteq> set s"
  by (auto simp: trim_space_def dest!: set_dropWhileD)

lemma unquote_quoted: "is_quote q \<Longrightarrow> unquote (q # v @ [q]) = v"
  by (simp add: unquote_def)

lemma not_space_quote: "is_quote q \<Longrightarrow> \<not> is_space q"
  by (auto simp: is_quote_def is_space_def)

text \<open>A key that a file can carry: trimmed, nonempty, without \<open>=\<close> and not read as a comment.\<close>

definition key_ok :: "string \<Rightarrow> bool" where
  "key_ok k \<longleftrightarrow> k \<noteq> [] \<and> \<not> is_space (hd k) \<and> \<not> is_space (last k) \<and> CHR ''='' \<notin> set k \<and> hd k \<noteq> CHR ''#''"

definition quoted_line :: "string \<times> string \<Rightarrow> string" where
  "quoted_line kv = fst kv @ ''='' @ [CHR 0x22] @ snd kv @ [CHR 0x22]"

lemma parse_quoted_line:
  assumes "key_ok k"
  shows "parse_lines n (quoted_line (k, v) # ls) vars = parse_lines (n + 1) ls (put_key k v vars)"
proof -
  let ?l = "quoted_line (k, v)"
  have l: "?l = k @ CHR ''='' # (CHR 0x22 # v @ [CHR 0x22])" by (simp add: quoted_line_def)
  have hd: "hd ?l = hd k" using assms by (simp add: l key_ok_def)
  have "last ?l = CHR 0x22" by (simp add: l)
  moreover have "\<not> is_space (CHR 0x22)" by (simp add: is_space_def)
  ultimately have t: "trim_space ?l = ?l" using assms hd by (intro trim_space_id) (simp add: key_ok_def)
  have ne: "?l \<noteq> []" by (simp add: l)
  have "take (Suc 0) ?l = [hd ?l]" using ne by (cases ?l) auto
  then have "\<not> has_prefix ?l ''#''"
    using assms hd by (simp add: has_prefix_def key_ok_def)
  moreover have i: "index_byte ?l (CHR ''='') = Some (length k)"
    using assms by (simp add: l index_byte_append key_ok_def)
  moreover have "trim_space k = k" using assms by (intro trim_space_id) (simp add: key_ok_def)
  moreover have "trim_space (CHR 0x22 # v @ [CHR 0x22]) = CHR 0x22 # v @ [CHR 0x22]"
    by (intro trim_space_id) (simp add: is_space_def)
  moreover have "unquote (CHR 0x22 # v @ [CHR 0x22]) = v" by (rule unquote_quoted) (simp add: is_quote_def)
  ultimately show ?thesis using t ne
    by (simp add: Let_def) (simp add: l)
qed

lemma put_key_fresh: "k \<notin> fst ` set xs \<Longrightarrow> put_key k v xs = xs @ [(k, v)]"
  by (induction k v xs rule: put_key.induct) auto

lemma parse_quoted_lines:
  "\<forall>kv \<in> set kvs. key_ok (fst kv) \<Longrightarrow> distinct (map fst (acc @ kvs)) \<Longrightarrow>
   parse_lines n (map quoted_line kvs) acc = Inr (acc @ kvs)"
proof (induction kvs arbitrary: n acc)
  case (Cons kv kvs)
  obtain k v where kv: "kv = (k, v)" by fastforce
  have "k \<notin> fst ` set acc" using Cons.prems(2) kv by auto
  then have "put_key k v acc = acc @ [(k, v)]" by (rule put_key_fresh)
  with Cons.IH [of "acc @ [(k, v)]" "n + 1"] Cons.prems kv show ?case
    by (simp add: parse_quoted_line del: parse_lines.simps)
qed simp

lemma filter_map_same:
  "(\<And>x. x \<in> set xs \<Longrightarrow> P (f x) = P x) \<Longrightarrow> (\<And>x. x \<in> set xs \<Longrightarrow> P x \<Longrightarrow> f x = g x) \<Longrightarrow>
   filter P (map f xs) = map g (filter P xs)"
  by (induction xs) auto

section \<open>Properties\<close>

lemma quoted_line_ok:
  assumes "newline \<notin> set (fst kv)" "newline \<notin> set (snd kv)" "length (fst kv) + length (snd kv) + 3 < m"
  shows "line_ok m (quoted_line kv)"
  using assms by (auto simp: line_ok_def quoted_line_def drop_cr_def newline_def)

lemma scan_quoted_lines:
  assumes "\<forall>kv \<in> set kvs. newline \<notin> set (fst kv) \<and> newline \<notin> set (snd kv) \<and>
      length (fst kv) + length (snd kv) + 3 < max_scan_token"
  shows "scan_lines max_scan_token (unlines (map quoted_line kvs)) = (map quoted_line kvs, True)"
  using assms by (intro scan_unlines) (auto intro!: quoted_line_ok simp: max_scan_token_def)

text \<open>C37: Any variables survive a round trip through the environment file when their values are written
  in double quotes, whatever the values contain but line breaks (quotes, blanks, equals and hash
  signs included), as long as a line fits the scanner's 64 KiB buffer: parsing the file gives back
  every key with exactly its value, in order.\<close>

theorem env_round_trip:
  assumes "\<forall>kv \<in> set kvs. key_ok (fst kv) \<and> newline \<notin> set (fst kv) \<and> newline \<notin> set (snd kv) \<and>
      length (fst kv) + length (snd kv) + 3 < max_scan_token"
    and "distinct (map fst kvs)"
  shows "parse_file (Some (unlines (map quoted_line kvs))) = Inr kvs"
  using parse_quoted_lines [of kvs "[]" 0] scan_quoted_lines [of kvs] assms
  by (simp add: parse_file_def)

theorem env_round_trip_witness:
  "parse_file (Some (unlines (map quoted_line [(''PATH'', ''/bin:/usr/bin''), (''HOME'', '' # a=b '')]))) =
   Inr [(''PATH'', ''/bin:/usr/bin''), (''HOME'', '' # a=b '')]"
  by (rule env_round_trip) (simp_all add: key_ok_def is_space_def newline_def max_scan_token_def)

text \<open>Layering variables over an environment replaces and adds, and nothing else: after it every
  entry of a variable that is set has the new value and there is at least one, the entries of every
  other key are as they were and in their order, and the added entries come last, sorted by key.\<close>

lemma apply_env_layers:
  assumes "distinct (map fst vars)" "\<forall>kv \<in> set vars. CHR ''='' \<notin> set (fst kv)"
  shows "case map_of vars k of
      Some v \<Rightarrow> filter (\<lambda>e. entry_key e = k) (apply_env environ vars) =
          replicate (max 1 (length (filter (\<lambda>e. entry_key e = k) environ))) (render_var k v)
    | None \<Rightarrow> filter (\<lambda>e. entry_key e = k) (apply_env environ vars) = filter (\<lambda>e. entry_key e = k) environ"
proof -
  define f where "f kv = (case map_of vars (entry_key kv) of
      Some v \<Rightarrow> render_var (entry_key kv) v | None \<Rightarrow> kv)" for kv
  define keys where "keys = sort (filter (\<lambda>k. k \<notin> set (map entry_key environ)) (map fst vars))"
  define g where "g k = render_var k (lookup_var vars k)" for k
  have app: "apply_env environ vars = map f environ @ map g keys"
    by (simp add: apply_env_def Let_def f_def [abs_def] keys_def g_def [abs_def])
  have fk: "entry_key (f kv) = entry_key kv" for kv
    by (simp add: f_def entry_key_render entry_key_no_eq split: option.split)
  have keq: "CHR ''='' \<notin> set j" if "j \<in> set keys" for j
    using that assms(2) by (auto simp: keys_def)
  have gk: "filter (\<lambda>e. entry_key e = k) (map g keys) = map g (filter (\<lambda>j. j = k) keys)"
    using keq by (induction keys) (auto simp: g_def entry_key_render)
  have dk: "distinct keys" using assms(1) by (simp add: keys_def)
  show ?thesis
  proof (cases "map_of vars k")
    case None
    then have "k \<notin> set keys" by (auto simp: keys_def map_of_eq_None_iff)
    then have "filter (\<lambda>j. j = k) keys = []" by (auto simp: filter_empty_conv)
    moreover have "filter (\<lambda>e. entry_key e = k) (map f environ) = map (\<lambda>e. e) (filter (\<lambda>e. entry_key e = k) environ)"
      using None by (intro filter_map_same) (auto simp: fk, auto simp: f_def)
    ultimately show ?thesis using None by (simp add: app gk)
  next
    case (Some v)
    have mem: "k \<in> set (map fst vars)" using Some by (metis map_of_eq_None_iff option.distinct(1) set_map)
    let ?n = "length (filter (\<lambda>e. entry_key e = k) environ)"
    have one: "filter (\<lambda>e. entry_key e = k) (map f environ) = map (\<lambda>e. render_var k v) (filter (\<lambda>e. entry_key e = k) environ)"
      using Some by (intro filter_map_same) (auto simp: fk, auto simp: f_def)
    have two: "filter (\<lambda>j. j = k) keys = (if k \<in> set (map entry_key environ) then [] else [k])"
    proof (cases "k \<in> set keys")
      case True
      then have "filter (\<lambda>j. j = k) keys = [k]" using dk
        by (induction keys) (auto simp: filter_empty_conv)
      with True show ?thesis by (auto simp: keys_def)
    next
      case False
      then have "filter (\<lambda>j. j = k) keys = []" by (auto simp: filter_empty_conv)
      with False mem show ?thesis by (auto simp: keys_def)
    qed
    have n: "(k \<in> set (map entry_key environ)) = (0 < ?n)" by (auto simp: filter_empty_conv)
    have "g k = render_var k v" using Some by (simp add: g_def lookup_var_def)
    moreover have "map (\<lambda>e. render_var k v) (filter (\<lambda>e. entry_key e = k) environ) = replicate ?n (render_var k v)"
      by (rule map_replicate_const)
    ultimately show ?thesis
      using Some unfolding app filter_append one gk two n by (cases ?n) simp_all
  qed
qed


end
