(* ===== verification/Config.thy ===== *)
theory Config
  imports Paths Env
begin

text \<open>
  Package \<open>config\<close>: the configuration, its defaults (\<open>load.go\<close>), its validation and the directories
  of a pool (\<open>config.go\<close>). The YAML decoder is outside: this theory starts from the decoded document
  and from the tree of mapping keys, \<open>Load\<close> itself is in \<open>Command\<close>. The nested structs are flattened into one record. What validation asks the host is a record of answers.
\<close>

record pool_config =
  cp_id :: string
  cp_url :: string
  cp_client_id :: string
  cp_installation_id :: int
  cp_key_path :: string
  cp_kind :: string
  cp_owner :: string
  cp_repository :: string
  cp_set_name :: string
  cp_group :: string
  cp_labels :: "string list"
  cp_min :: int
  cp_max :: int

record config =
  cf_pools :: "pool_config list"
  cf_max_runners :: int
  cf_cpu_quota :: int
  cf_memory_max :: string
  cf_version :: string
  cf_download_url :: string
  cf_sha256 :: string
  cf_work_dir :: string
  cf_disable_update :: bool
  cf_user :: string
  cf_group :: string
  cf_env_file :: string
  cf_caches :: "string list"
  cf_families :: "string list"
  cf_job_home :: string
  cf_state_dir :: string
  cf_cache_dir :: string
  cf_log_dir :: string
  cf_backend :: string
  cf_start_timeout :: duration
  cf_stop_timeout :: duration
  cf_cleanup_timeout :: duration
  cf_acquire_grace :: duration
  cf_idle_grace :: duration
  cf_jit_dir :: string
  cf_admission :: bool
  cf_cpu_target :: int
  cf_memory_margin :: int
  cf_sample_interval :: duration
  cf_listen :: string
  cf_log_level :: string
  cf_ship_diag :: bool
  cf_diag_max_age :: duration
  cf_diag_max_bytes :: int

definition hard_cap_max_runners :: int where "hard_cap_max_runners = 32"
definition max_cpu_quota_percent :: int where "max_cpu_quota_percent = 100 * 1024"

section \<open>Patterns\<close>

definition is_alnum :: "char \<Rightarrow> bool" where
  "is_alnum c \<longleftrightarrow> is_digit c \<or> is_lower c \<or> is_upper c"

definition label_ok :: "string \<Rightarrow> bool" where
  "label_ok s \<longleftrightarrow> s \<noteq> [] \<and> (is_alnum (hd s) \<or> hd s = CHR ''_'') \<and>
     list_all (\<lambda>c. is_alnum c \<or> c = CHR ''_'' \<or> c = CHR ''.'' \<or> c = CHR ''-'') (tl s)"

definition pool_id_ok :: "string \<Rightarrow> bool" where
  "pool_id_ok s \<longleftrightarrow> s \<noteq> [] \<and> (is_lower (hd s) \<or> is_digit (hd s)) \<and> length (tl s) \<le> 31 \<and>
     list_all (\<lambda>c. is_lower c \<or> is_digit c \<or> c = CHR ''-'') (tl s)"

definition version_ok :: "string \<Rightarrow> bool" where
  "version_ok s \<longleftrightarrow> length (split_byte (CHR ''.'') s) = 3 \<and>
     list_all (\<lambda>w. w \<noteq> [] \<and> list_all is_digit w) (split_byte (CHR ''.'') s)"

definition is_hex :: "char \<Rightarrow> bool" where
  "is_hex c \<longleftrightarrow> is_digit c \<or> (CHR ''a'' \<le> c \<and> c \<le> CHR ''f'') \<or> (CHR ''A'' \<le> c \<and> c \<le> CHR ''F'')"

definition sha256_ok :: "string \<Rightarrow> bool" where
  "sha256_ok s \<longleftrightarrow> length s = 64 \<and> list_all is_hex s"

definition address_family_ok :: "string \<Rightarrow> bool" where
  "address_family_ok s \<longleftrightarrow> has_prefix s ''AF_'' \<and> drop 3 s \<noteq> [] \<and>
     list_all (\<lambda>c. is_upper c \<or> is_digit c) (drop 3 s)"

text \<open>\<open>net.SplitHostPort\<close> succeeds.\<close>

definition host_port_ok :: "string \<Rightarrow> bool" where
  "host_port_ok hp =
     (case last_index_byte hp (CHR '':'') of
        None \<Rightarrow> False
      | Some i \<Rightarrow>
          if hd hp = CHR ''['' then
            (case index_byte hp (CHR '']'') of
               None \<Rightarrow> False
             | Some e \<Rightarrow> e + 1 = i \<and> CHR ''['' \<notin> set (drop 1 hp) \<and> CHR '']'' \<notin> set (drop (e + 1) hp))
          else CHR '':'' \<notin> set (take i hp) \<and> CHR ''['' \<notin> set hp \<and> CHR '']'' \<notin> set hp)"

section \<open>Validation\<close>

datatype pool_error =
  PoolID | PoolMinNegative | PoolMaxLow | PoolMinAboveMax | PoolMaxAboveHost | PoolURL | PoolInstallation
| PoolClient | PoolKeyEmpty | PoolKeyUnreadable | PoolRepository | PoolKind | PoolOwner | PoolSetName

datatype config_error =
  MaxRunnersLow | MaxRunnersHigh | CPUQuota | MemoryMax | NoPools
| InPool nat pool_error | DuplicateID nat nat | DuplicateTarget nat nat | MinSum
| BadVersion | ShaWithoutVersion | BadSha
| EnvFileEmpty | EnvFileMissing | EnvFileBad | EnvFileIncomplete
| CacheName nat | CacheAbs nat | CacheEscapes nat | CacheDuplicate nat
| FamilyBad nat | FamilyDuplicate nat
| HomeNotClean | HomeColon | HomeUnresolved | EnvHomeUnresolved | HomeOverlapsEnvHome
| StateUnresolved | HomeOverlapsState | HomeMissing | HomeNotDir | HomeBackend | WorkUnderHome
| SystemdMissing | BadBackend | StateDirEmpty | CacheDirEmpty | LogDirEmpty
| StartTimeout | StopTimeout | CleanupTimeout | AcquireGrace | IdleGrace
| CPUTarget | MemoryMargin | SampleInterval | DiagAge | DiagBytes | BadListen | BadLogLevel

text \<open>What validation asks the host: \<open>cw_stat\<close> is \<open>None\<close> for a path that cannot be examined, else
  whether it is a directory.\<close>

record config_world =
  cw_allow_unverified :: bool
  cw_stat :: "string \<Rightarrow> bool option"
  cw_env_text :: "string \<Rightarrow> string option"
  cw_links :: "string \<Rightarrow> symlink_result"
  cw_systemd_dir :: string

definition fail_if :: "bool \<Rightarrow> 'e \<Rightarrow> 'e list" where
  "fail_if b e = (if b then [e] else [])"

definition validate_pool :: "config_world \<Rightarrow> pool_config \<Rightarrow> int \<Rightarrow> pool_error list" where
  "validate_pool cw p host_max =
     fail_if (\<not> pool_id_ok (cp_id p)) PoolID @
     fail_if (cp_min p < 0) PoolMinNegative @
     fail_if (cp_max p < 1) PoolMaxLow @
     fail_if (cp_min p > cp_max p) PoolMinAboveMax @
     fail_if (host_max > 0 \<and> cp_max p > host_max) PoolMaxAboveHost @
     fail_if (cp_url p = []) PoolURL @
     fail_if (cp_installation_id p \<le> 0) PoolInstallation @
     fail_if (cp_client_id p = []) PoolClient @
     (if cp_key_path p = [] then [PoolKeyEmpty]
      else fail_if (cw_stat cw (cp_key_path p) = None) PoolKeyUnreadable) @
     (if cp_kind p = ''organization'' then []
      else if cp_kind p = ''repository'' then fail_if (cp_repository p = []) PoolRepository
      else [PoolKind]) @
     fail_if (cp_owner p = []) PoolOwner @
     fail_if (\<not> label_ok (cp_set_name p)) PoolSetName"

definition pool_target :: "pool_config \<Rightarrow> string" where
  "pool_target p = join [cp_url p, cp_kind p, cp_owner p, cp_repository p, cp_group p, cp_set_name p] [CHR 0x00]"

text \<open>The pool loop: the IDs and targets seen so far, each with the index of its first pool.\<close>

fun validate_pools ::
  "config_world \<Rightarrow> int \<Rightarrow> nat \<Rightarrow> pool_config list \<Rightarrow> (string \<times> nat) list \<Rightarrow> (string \<times> nat) list \<Rightarrow> config_error list" where
  "validate_pools cw host_max i [] ids targets = []"
| "validate_pools cw host_max i (p # ps) ids targets =
     map (InPool i) (validate_pool cw p host_max) @
     (case map_of ids (cp_id p) of Some j \<Rightarrow> [DuplicateID i j] | None \<Rightarrow> []) @
     (case map_of targets (pool_target p) of Some j \<Rightarrow> [DuplicateTarget i j] | None \<Rightarrow> []) @
     validate_pools cw host_max (i + 1) ps
       (if map_of ids (cp_id p) = None then put_key (cp_id p) i ids else ids)
       (if map_of targets (pool_target p) = None then put_key (pool_target p) i targets else targets)"

definition validate_capacity :: "config_world \<Rightarrow> config \<Rightarrow> config_error list" where
  "validate_capacity cw c =
     fail_if (cf_max_runners c < 1) MaxRunnersLow @
     fail_if (cf_max_runners c > hard_cap_max_runners) MaxRunnersHigh @
     fail_if (cf_cpu_quota c \<le> 0 \<or> cf_cpu_quota c > max_cpu_quota_percent) CPUQuota @
     fail_if (cf_memory_max c = []) MemoryMax @
     fail_if (cf_pools c = []) NoPools @
     validate_pools cw (cf_max_runners c) 0 (cf_pools c) [] [] @
     fail_if (sum_list (map cp_min (cf_pools c)) > cf_max_runners c) MinSum"

text \<open>The runner payload and the environment file; the second component is the file's HOME when the
  file is valid.\<close>

definition validate_runner :: "config_world \<Rightarrow> config \<Rightarrow> config_error list \<times> string" where
  "validate_runner cw c =
     (let dynamic = (cf_version c = []);
          e1 = fail_if (\<not> dynamic \<and> \<not> version_ok (cf_version c)) BadVersion;
          e2 = fail_if (dynamic \<and> cf_sha256 c \<noteq> []) ShaWithoutVersion;
          e3 = fail_if (\<not> dynamic \<and> \<not> cw_allow_unverified cw \<and> \<not> sha256_ok (cf_sha256 c)) BadSha;
          (e4, home) =
            (if cf_env_file c = [] then ([EnvFileEmpty], [])
             else if cw_stat cw (cf_env_file c) = None then ([EnvFileMissing], [])
             else case parse_file (cw_env_text cw (cf_env_file c)) of
               Inl e \<Rightarrow> ([EnvFileBad], [])
             | Inr vars \<Rightarrow> if validate_env vars \<noteq> None then ([EnvFileIncomplete], [])
                           else ([], lookup_var vars ''HOME''))
      in (e1 @ e2 @ e3 @ e4, home))"

fun validate_caches :: "nat \<Rightarrow> string list \<Rightarrow> string set \<Rightarrow> config_error list" where
  "validate_caches i [] seen = []"
| "validate_caches i (p # ps) seen =
     (if p = [] \<or> p = ''.'' then [CacheName i] else fail_if (is_abs p) (CacheAbs i)) @
     map (\<lambda>_. CacheEscapes i) (filter (\<lambda>seg. seg = ''..'') (split_byte (CHR ''/'') p)) @
     fail_if (p \<in> seen) (CacheDuplicate i) @
     validate_caches (i + 1) ps (insert p seen)"

fun validate_families :: "nat \<Rightarrow> string list \<Rightarrow> string set \<Rightarrow> config_error list" where
  "validate_families i [] seen = []"
| "validate_families i (f # fs) seen =
     fail_if (\<not> address_family_ok f) (FamilyBad i) @ fail_if (f \<in> seen) (FamilyDuplicate i) @
     validate_families (i + 1) fs (insert f seen)"

text \<open>The per-job HOME, a mount point that must hide nothing a job needs.\<close>

definition overlap_errors ::
  "config_world \<Rightarrow> string \<Rightarrow> string \<Rightarrow> config_error \<Rightarrow> config_error \<Rightarrow> config_error list" where
  "overlap_errors cw resolved_home dir unresolved overlaps =
     (if is_abs dir then
        (case resolve_path_for_overlap (cw_links cw) dir of
           None \<Rightarrow> [unresolved]
         | Some r \<Rightarrow> fail_if (paths_overlap resolved_home r) overlaps)
      else [])"

definition validate_job_home :: "config_world \<Rightarrow> config \<Rightarrow> string \<Rightarrow> config_error list" where
  "validate_job_home cw c env_home =
     (let home = cf_job_home c in
      if home = [] then []
      else
        (if \<not> is_abs home \<or> clean_path home \<noteq> home \<or> home = ''/'' then [HomeNotClean]
         else
           fail_if (CHR '':'' \<in> set home \<or> CHR '':'' \<in> set (cf_state_dir c)) HomeColon @
           (case resolve_path_for_overlap (cw_links cw) home of
              None \<Rightarrow> [HomeUnresolved]
            | Some rh \<Rightarrow>
                overlap_errors cw rh env_home EnvHomeUnresolved HomeOverlapsEnvHome @
                overlap_errors cw rh (cf_state_dir c) StateUnresolved HomeOverlapsState) @
           (case cw_stat cw home of
              None \<Rightarrow> [HomeMissing]
            | Some is_dir \<Rightarrow> fail_if (\<not> is_dir) HomeNotDir)) @
        fail_if (cf_backend c \<noteq> ''systemd'') HomeBackend @
        fail_if (path_contains ''home'' (clean_path (cf_work_dir c))) WorkUnderHome)"

definition validate_runtime :: "config_world \<Rightarrow> config \<Rightarrow> config_error list" where
  "validate_runtime cw c =
     (if cf_backend c = ''systemd'' then fail_if (cw_stat cw (cw_systemd_dir cw) = None) SystemdMissing
      else if cf_backend c = ''process'' then [] else [BadBackend]) @
     fail_if (cf_state_dir c = []) StateDirEmpty @
     fail_if (cf_cache_dir c = []) CacheDirEmpty @
     fail_if (cf_log_dir c = []) LogDirEmpty @
     fail_if (cf_start_timeout c \<le> 0) StartTimeout @
     fail_if (cf_stop_timeout c \<le> 0) StopTimeout @
     fail_if (cf_cleanup_timeout c \<le> 0) CleanupTimeout @
     fail_if (cf_acquire_grace c \<le> 0) AcquireGrace @
     fail_if (cf_idle_grace c \<le> 0) IdleGrace"

definition validate_scaling :: "config \<Rightarrow> config_error list" where
  "validate_scaling c =
     (if cf_admission c then
        fail_if (cf_cpu_target c \<le> 0 \<or> cf_cpu_target c > 100) CPUTarget @
        fail_if (cf_memory_margin c < 0 \<or> cf_memory_margin c > 90) MemoryMargin @
        fail_if (cf_sample_interval c \<le> 0) SampleInterval
      else []) @
     fail_if (cf_diag_max_age c < 0) DiagAge @
     fail_if (cf_diag_max_bytes c < 0) DiagBytes @
     fail_if (\<not> host_port_ok (cf_listen c)) BadListen @
     fail_if (cf_log_level c \<notin> {''debug'', ''info'', ''warn'', ''error''}) BadLogLevel"

definition validate :: "config_world \<Rightarrow> config \<Rightarrow> config_error list" where
  "validate cw c =
     (let (e2, env_home) = validate_runner cw c
      in validate_capacity cw c @ e2 @ validate_caches 0 (cf_caches c) {} @
         validate_families 0 (cf_families c) {} @ validate_job_home cw c env_home @
         validate_runtime cw c @ validate_scaling c)"

section \<open>Defaults\<close>

definition default_shared_cache_paths :: "string list" where
  "default_shared_cache_paths = [''.cache'', ''.local/share/mise'', ''go/pkg/mod'']"

fun trim_right_byte :: "char \<Rightarrow> string \<Rightarrow> string" where
  "trim_right_byte c s = rev (dropWhile (\<lambda>x. x = c) (rev s))"

definition or_str :: "string \<Rightarrow> string \<Rightarrow> string" where
  "or_str v d = (if v = [] then d else v)"

definition or_int :: "int \<Rightarrow> int \<Rightarrow> int" where
  "or_int v d = (if v = 0 then d else v)"

definition default_pool :: "pool_config \<Rightarrow> pool_config" where
  "default_pool p = p\<lparr>cp_url := trim_right_byte (CHR ''/'') (or_str (cp_url p) ''https://github.com''),
                     cp_group := or_str (cp_group p) ''Default''\<rparr>"

definition apply_defaults :: "bool \<Rightarrow> bool \<Rightarrow> bool \<Rightarrow> bool \<Rightarrow> config \<Rightarrow> config" where
  "apply_defaults disable_update_set ship_diag_set admission_set margin_set c =
     c\<lparr>cf_pools := map default_pool (cf_pools c),
       cf_work_dir := or_str (cf_work_dir c) ''_work'',
       cf_user := or_str (cf_user c) ''gha-runner'',
       cf_disable_update := (\<not> disable_update_set \<or> cf_disable_update c),
       cf_caches := (if cf_caches c = [] then default_shared_cache_paths else cf_caches c),
       cf_state_dir := or_str (cf_state_dir c) ''/var/lib/tentacles'',
       cf_cache_dir := or_str (cf_cache_dir c) ''/var/cache/tentacles'',
       cf_log_dir := or_str (cf_log_dir c) ''/var/log/tentacles'',
       cf_backend := or_str (cf_backend c) ''systemd'',
       cf_jit_dir := or_str (cf_jit_dir c) ''/run/tentacles'',
       cf_start_timeout := or_int (cf_start_timeout c) (90 * second),
       cf_stop_timeout := or_int (cf_stop_timeout c) (30 * second),
       cf_cleanup_timeout := or_int (cf_cleanup_timeout c) (60 * second),
       cf_acquire_grace := or_int (cf_acquire_grace c) (3 * minute),
       cf_idle_grace := or_int (cf_idle_grace c) (30 * second),
       cf_listen := or_str (cf_listen c) ''127.0.0.1:9090'',
       cf_log_level := or_str (cf_log_level c) ''info'',
       cf_ship_diag := (\<not> ship_diag_set \<or> cf_ship_diag c),
       cf_diag_max_age := or_int (cf_diag_max_age c) (7 * 24 * 60 * minute),
       cf_diag_max_bytes := or_int (cf_diag_max_bytes c) (2 ^ 30),
       cf_admission := (\<not> admission_set \<or> cf_admission c),
       cf_cpu_target := or_int (cf_cpu_target c) 90,
       cf_memory_margin := (if margin_set then cf_memory_margin c else 20),
       cf_sample_interval := or_int (cf_sample_interval c) (30 * second)\<rparr>"

text \<open>The node tree of the YAML library, as far as the code looks at it.\<close>

datatype yaml_node = Mapping "(string \<times> yaml_node) list" | OtherNode

fun mapping_has_path :: "yaml_node \<Rightarrow> string list \<Rightarrow> bool" where
  "mapping_has_path node [] = False"
| "mapping_has_path node [key] =
     (case node of Mapping kvs \<Rightarrow> map_of kvs key \<noteq> None | OtherNode \<Rightarrow> False)"
| "mapping_has_path node (key # k2 # ks) =
     (case node of
        Mapping kvs \<Rightarrow> (case map_of kvs key of None \<Rightarrow> False | Some n \<Rightarrow> mapping_has_path n (k2 # ks))
      | OtherNode \<Rightarrow> False)"

text \<open>\<open>Load\<close> after the strict decoding: \<open>None\<close> when the tree was not read.\<close>

definition load_defaults :: "yaml_node option \<Rightarrow> config \<Rightarrow> config" where
  "load_defaults root_node c =
     (case root_node of
        None \<Rightarrow> apply_defaults False False False False c
      | Some n \<Rightarrow> apply_defaults (mapping_has_path n [''runner'', ''disable_update''])
                    (mapping_has_path n [''observability'', ''ship_diag''])
                    (mapping_has_path n [''scaling'', ''admission_control''])
                    (mapping_has_path n [''scaling'', ''memory_margin_percent'']) c)"

section \<open>Directories\<close>

definition pool_state_dir :: "config \<Rightarrow> string \<Rightarrow> string" where
  "pool_state_dir c i = join_path [cf_state_dir c, ''pools'', i]"

definition pool_slots_dir :: "config \<Rightarrow> string \<Rightarrow> string" where
  "pool_slots_dir c i = join_path [pool_state_dir c i, ''slots'']"

definition pool_jit_dir :: "config \<Rightarrow> string \<Rightarrow> string" where
  "pool_jit_dir c i = join_path [cf_jit_dir c, i]"

definition pool_log_dir :: "config \<Rightarrow> string \<Rightarrow> string" where
  "pool_log_dir c i = join_path [cf_log_dir c, ''pools'', i]"

text \<open>The directories \<open>EnsureDirs\<close> makes, in order, and whether each is private (mode 0700).\<close>

definition ensure_dirs_list :: "config \<Rightarrow> (string \<times> bool) list" where
  "ensure_dirs_list c =
     [(cf_state_dir c, False), (cf_cache_dir c, False), (cf_log_dir c, False),
      (join_path [cf_state_dir c, ''template''], False), (cf_jit_dir c, True)] @
     concat (map (\<lambda>p. [(pool_slots_dir c (cp_id p), False), (pool_jit_dir c (cp_id p), True),
                       (pool_log_dir c (cp_id p), False)]) (cf_pools c))"

datatype dir_error = DirEmpty | DirMkdir string | DirLstat string | DirNotDir string | DirChmod string | DirNotWritable string

text \<open>The outcome of the calls for one directory.\<close>

record dir_env =
  de_mkdir_err :: bool
  de_lstat :: "bool option"
  de_chmod_err :: bool
  de_probe_err :: bool

fun ensure_dirs :: "(string \<Rightarrow> dir_env) \<Rightarrow> (string \<times> bool) list \<Rightarrow> dir_error option" where
  "ensure_dirs env [] = None"
| "ensure_dirs env ((path, private) # ds) =
     (if path = [] then Some DirEmpty
      else if de_mkdir_err (env path) then Some (DirMkdir path)
      else if private \<and> de_lstat (env path) = None then Some (DirLstat path)
      else if private \<and> de_lstat (env path) = Some False then Some (DirNotDir path)
      else if private \<and> de_chmod_err (env path) then Some (DirChmod path)
      else if de_probe_err (env path) then Some (DirNotWritable path)
      else ensure_dirs env ds)"

section \<open>Facts\<close>

lemma fail_if_Nil [simp]: "fail_if b e = [] \<longleftrightarrow> \<not> b"
  by (simp add: fail_if_def)

lemma validate_pools_Nil:
  "validate_pools cw host_max i ps ids targets = [] \<Longrightarrow>
   (\<forall>p \<in> set ps. validate_pool cw p host_max = []) \<and> distinct (map cp_id ps) \<and>
   distinct (map pool_target ps) \<and>
   cp_id ` set ps \<inter> fst ` set ids = {} \<and> pool_target ` set ps \<inter> fst ` set targets = {}"
proof (induction cw host_max i ps ids targets rule: validate_pools.induct)
  case (2 cw host_max i p ps ids targets)
  from "2.prems" have n: "map_of ids (cp_id p) = None" "map_of targets (pool_target p) = None"
    by (auto split: option.splits)
  with "2.prems" have rest: "validate_pools cw host_max (i + 1) ps (put_key (cp_id p) i ids)
      (put_key (pool_target p) i targets) = []" and vp: "validate_pool cw p host_max = []" by simp_all
  from "2.IH" rest n have ih: "(\<forall>p \<in> set ps. validate_pool cw p host_max = []) \<and> distinct (map cp_id ps) \<and>
     distinct (map pool_target ps) \<and>
     cp_id ` set ps \<inter> fst ` set (put_key (cp_id p) i ids) = {} \<and>
     pool_target ` set ps \<inter> fst ` set (put_key (pool_target p) i targets) = {}" by simp
  then have d: "cp_id p \<notin> cp_id ` set ps" "pool_target p \<notin> pool_target ` set ps"
    "cp_id ` set ps \<inter> fst ` set ids = {}" "pool_target ` set ps \<inter> fst ` set targets = {}"
    unfolding fst_put_key by blast+
  have "cp_id p \<notin> fst ` set ids" "pool_target p \<notin> fst ` set targets" using n by (simp_all add: map_of_eq_None_iff)
  with ih vp d show ?case by auto
qed simp

end
