(* ===== verification/Systemd.thy ===== *)
theory Systemd
  imports Slot_Types Slot_Table Env
begin

text \<open>
  Package \<open>systemd\<close>: the backend that runs slots as transient units. The commands it runs
  (\<open>systemd-run\<close>, \<open>systemctl\<close>, \<open>mkdir\<close>) are outside; what they print and whether they fail is the
  environment of an operation, and the calls made are recorded in order.
\<close>

record sd_options =
  so_run_bin :: string
  so_ctl_bin :: string
  so_stop_timeout :: duration
  so_namespace :: string
  so_cache_subdirs :: "string list"
  so_extra_families :: "string list"
  so_job_home :: string

record backend =
  sb_run_bin :: string
  sb_ctl_bin :: string
  sb_namespace :: string
  sb_stop_timeout :: duration
  sb_cache_subdirs :: "string list"
  sb_extra_families :: "string list"
  sb_job_home :: string
  sb_started :: "string list"

definition runner_cache_subdirs :: "string list" where
  "runner_cache_subdirs = [''.cache'', ''.local/share/mise'', ''go/pkg/mod'']"

definition base_address_families :: "string list" where
  "base_address_families = [''AF_UNIX'', ''AF_INET'', ''AF_INET6'']"

definition new_backend :: "sd_options \<Rightarrow> backend" where
  "new_backend so =
     \<lparr>sb_run_bin = (if so_run_bin so = [] then ''systemd-run'' else so_run_bin so),
      sb_ctl_bin = (if so_ctl_bin so = [] then ''systemctl'' else so_ctl_bin so),
      sb_namespace = (if so_namespace so = [] then ''default'' else so_namespace so),
      sb_stop_timeout = (if so_stop_timeout so \<le> 0 then 30 * second else so_stop_timeout so),
      sb_cache_subdirs = (if so_cache_subdirs so = [] then runner_cache_subdirs else so_cache_subdirs so),
      sb_extra_families = so_extra_families so, sb_job_home = so_job_home so, sb_started = []\<rparr>"

section \<open>Unit names\<close>

fun namespace_chars :: "bool \<Rightarrow> string \<Rightarrow> bool" where
  "namespace_chars first [] = True"
| "namespace_chars first (c # cs) =
     ((is_digit c \<or> is_lower c \<or> (\<not> first \<and> c = CHR ''-'')) \<and> namespace_chars False cs)"

definition valid_namespace :: "string \<Rightarrow> bool" where
  "valid_namespace ns \<longleftrightarrow> ns \<noteq> [] \<and> length ns \<le> 32 \<and> namespace_chars True ns"

definition namespace_from_unit :: "string \<Rightarrow> string option" where
  "namespace_from_unit unit =
     (if \<not> has_prefix unit ''tentacle-'' \<or> \<not> has_suffix unit ''.service'' then None
      else let body = trim_suffix (trim_prefix unit ''tentacle-'') ''.service'' in
        case last_index_byte body (CHR ''-'') of
          None \<Rightarrow> None
        | Some sep \<Rightarrow>
            if sep = 0 \<or> sep = length body - 1 then None
            else if \<not> valid_namespace (take sep body) then None
            else if list_all is_digit (drop (sep + 1) body) then Some (take sep body) else None)"

definition valid_unit :: "string \<Rightarrow> string \<Rightarrow> bool" where
  "valid_unit ns unit \<longleftrightarrow> namespace_from_unit unit = Some ns"

section \<open>The argument vector\<close>

text \<open>\<open>quotePath\<close> with the replacer of backslashes and double quotes.\<close>

definition quote_char :: "char \<Rightarrow> string" where
  "quote_char c = (if c = CHR 0x5C \<or> c = CHR 0x22 then [CHR 0x5C, c] else [c])"

definition quote_path :: "string \<Rightarrow> string" where
  "quote_path v = CHR 0x22 # concat (map quote_char v) @ [CHR 0x22]"

definition address_families :: "string list \<Rightarrow> string" where
  "address_families extra =
     join (foldl (\<lambda>fs f. if f \<in> set fs then fs else fs @ [f]) base_address_families extra) '' ''"

definition cache_paths :: "backend \<Rightarrow> string \<Rightarrow> string list" where
  "cache_paths b home = map (\<lambda>sub. join_path [home, sub]) (sb_cache_subdirs b)"

text \<open>\<open>strconv.FormatFloat(d.Seconds(), 'f', -1, 64)\<close> for a non-negative duration.\<close>

definition strip_zeros :: "string \<Rightarrow> string" where
  "strip_zeros s = rev (dropWhile (\<lambda>c. c = CHR ''0'') (rev s))"

definition fmt_seconds :: "duration \<Rightarrow> string" where
  "fmt_seconds d =
     (let whole = nat (d div second); frac = digits_of (nat (d mod second));
          f = strip_zeros (replicate (9 - length frac) (CHR ''0'') @ frac)
      in digits_of whole @ (if f = [] then [] else ''.'' @ f))"

definition credential_script :: string where
  "credential_script = ''jit=$(cat '' @ [CHR 0x22] @ ''$CREDENTIALS_DIRECTORY/jit'' @ [CHR 0x22] @
     '') || exit; exec ./run.sh --jitconfig '' @ [CHR 0x22] @ ''$jit'' @ [CHR 0x22]"

definition credential_script_with_home :: string where
  "credential_script_with_home = ''HOME=$1; export HOME; '' @ credential_script"

definition job_home_subdir :: string where "job_home_subdir = ''home''"

definition prop_arg :: "string \<Rightarrow> string list" where
  "prop_arg kv = [''-p'', kv]"

definition add_prop :: "string \<Rightarrow> string \<Rightarrow> string list" where
  "add_prop key v = (if v = [] then [] else prop_arg (key @ ''='' @ v))"

definition start_args :: "backend \<Rightarrow> runner_spec \<Rightarrow> string list \<Rightarrow> string list" where
  "start_args b spec caches =
     (let jh = sb_job_home b;
          paths = map quote_path ([sp_slot_dir spec, ''/tmp''] @ caches @ (if jh \<noteq> [] then [jh] else []))
      in [''--collect'', ''--expand-environment=no'', ''--unit'', sp_unit_name spec,
          ''--description'', ''GitHub Actions runner slot''] @ prop_arg ''Type=exec'' @
         add_prop ''User'' (sp_user spec) @ add_prop ''Group'' (sp_group spec) @
         add_prop ''WorkingDirectory'' (sp_slot_dir spec) @
         add_prop ''EnvironmentFile'' (sp_env_file spec) @
         add_prop ''LoadCredential'' (''jit:'' @ sp_jit_path spec) @
         add_prop ''CPUQuota'' (sp_cpu_quota spec) @ add_prop ''MemoryMax'' (sp_memory_max spec) @
         prop_arg ''Nice=5'' @ prop_arg ''KillMode=mixed'' @
         prop_arg (''TimeoutStopSec='' @ fmt_seconds (sb_stop_timeout b)) @
         prop_arg ''TasksMax=4096'' @ prop_arg ''PrivateTmp=yes'' @ prop_arg ''NoNewPrivileges=yes'' @
         prop_arg ''CPUAccounting=yes'' @ prop_arg ''MemoryAccounting=yes'' @ prop_arg ''ProtectSystem=strict'' @
         prop_arg ''ProtectHome=read-only'' @ prop_arg (''ReadWritePaths='' @ join paths '' '') @
         (if jh \<noteq> [] then
            prop_arg (''BindPaths='' @ quote_path (join_path [sp_slot_dir spec, job_home_subdir]) @ '':'' @ quote_path jh)
          else []) @
         prop_arg (''RestrictAddressFamilies='' @ address_families (sb_extra_families b)) @
         prop_arg ''LockPersonality=yes'' @
         (if jh \<noteq> [] then [''/bin/sh'', ''-c'', credential_script_with_home, ''sh'', jh]
          else [''/bin/sh'', ''-c'', credential_script]))"

section \<open>Start and Stop\<close>

datatype sd_call =
  MkdirAsRunner "string list"
| MkdirJobHome string
| PrepareSlot string
| SystemdRun string "string list"
| Systemctl string "string list"

record sd_start_env =
  sv_ctx_err :: bool
  sv_identity :: "(nat \<times> string) option"
  sv_env_file :: "string option"
  sv_jit_ok :: bool
  sv_mkdir_ok :: bool
  sv_job_home_ok :: bool
  sv_prepare_ok :: bool
  sv_run_ctx_err :: bool
  sv_run_ok :: bool

definition sd_start :: "sd_start_env \<Rightarrow> runner_spec \<Rightarrow> backend \<Rightarrow> start_result \<times> sd_call list \<times> backend" where
  "sd_start sv spec b =
     (if sv_ctx_err sv \<or> sp_user spec = [] then (StartNotStarted, [], b)
      else case sv_identity sv of
        None \<Rightarrow> (StartNotStarted, [], b)
      | Some (uid, account_home) \<Rightarrow>
          if uid = 0 \<or> \<not> valid_unit (sb_namespace b) (sp_unit_name spec) \<or>
             \<not> is_abs (sp_slot_dir spec) \<or> \<not> is_abs (sp_jit_path spec)
          then (StartNotStarted, [], b)
          else if sp_env_file spec \<noteq> [] \<and> \<not> is_abs (sp_env_file spec) then (StartNotStarted, [], b)
          else case (if sp_env_file spec = [] then Inr [] else parse_file (sv_env_file sv)) of
            Inl e \<Rightarrow> (StartNotStarted, [], b)
          | Inr vars \<Rightarrow>
              if \<not> sv_jit_ok sv then (StartNotStarted, [], b)
              else
                let home = (case map_of vars ''HOME'' of None \<Rightarrow> account_home | Some v \<Rightarrow> v) in
                if \<not> is_abs home then (StartNotStarted, [], b)
                else
                  let caches = cache_paths b home;
                      c1 = [MkdirAsRunner ([''-p'', ''--''] @ caches)]
                  in if \<not> sv_mkdir_ok sv then (StartNotStarted, c1, b)
                     else
                       let c2 = (if sb_job_home b \<noteq> []
                                 then c1 @ [MkdirJobHome (join_path [sp_slot_dir spec, job_home_subdir])]
                                 else c1)
                       in if sb_job_home b \<noteq> [] \<and> \<not> sv_job_home_ok sv then (StartNotStarted, c2, b)
                          else
                            let c3 = c2 @ [PrepareSlot (sp_slot_dir spec)] in
                            if \<not> sv_prepare_ok sv then (StartNotStarted, c3, b)
                            else
                              let c4 = c3 @ [SystemdRun (sb_run_bin b) (start_args b spec caches)] in
                              if sv_run_ctx_err sv \<or> \<not> sv_run_ok sv then (StartUncertain, c4, b)
                              else (StartOk, c4,
                                    b\<lparr>sb_started := sp_unit_name spec # removeAll (sp_unit_name spec) (sb_started b)\<rparr>))"

text \<open>\<open>Stop\<close>: \<open>True\<close> is an error. Its environment: whether the context ends, whether the command fails.\<close>

definition sd_stop :: "bool \<Rightarrow> bool \<Rightarrow> string \<Rightarrow> backend \<Rightarrow> bool \<times> sd_call list" where
  "sd_stop ctx_err cmd_err unit b =
     (if \<not> valid_unit (sb_namespace b) unit then (True, [])
      else (ctx_err \<or> cmd_err, [Systemctl (sb_ctl_bin b) [''stop'', unit]]))"

section \<open>Observations\<close>

text \<open>The key and value lines of \<open>systemctl show\<close>, each key once.\<close>

fun state_values :: "string list \<Rightarrow> (string \<times> string) list \<Rightarrow> (string \<times> string) list option" where
  "state_values [] vs = Some vs"
| "state_values (l # ls) vs =
     (case cut_byte l (CHR ''='') of
        None \<Rightarrow> None
      | Some (key, v) \<Rightarrow>
          if (key \<noteq> ''LoadState'' \<and> key \<noteq> ''ActiveState'') \<or> map_of vs key \<noteq> None then None
          else state_values ls (vs @ [(key, v)]))"

definition load_states :: "string list" where
  "load_states = [''loaded'', ''not-found'', ''error'', ''masked'', ''bad-setting'', ''merged'', ''stub'']"

definition active_states :: "string list" where
  "active_states = [''active'', ''reloading'', ''inactive'', ''failed'', ''activating'', ''deactivating'',
     ''maintenance'', ''refreshing'']"

text \<open>\<open>isActive\<close> on the output of the command (\<open>None\<close>: it failed or the context ended).\<close>

definition is_active :: "string option \<Rightarrow> string option" where
  "is_active out =
     (case out of None \<Rightarrow> None
      | Some s \<Rightarrow>
          case state_values (split_byte (CHR 0x0A) (trim_space s)) [] of
            None \<Rightarrow> None
          | Some vs \<Rightarrow>
              if lookup_var vs ''LoadState'' \<notin> set load_states then None
              else if lookup_var vs ''ActiveState'' \<notin> set active_states then None
              else Some (lookup_var vs ''ActiveState''))"

text \<open>\<open>Wait\<close>: the outputs of successive queries; \<open>None\<close> while it has not returned (or its context
  ended), \<open>Some True\<close> a confirmed exit, \<open>Some False\<close> an error.\<close>

fun wait_loop :: "string option list \<Rightarrow> bool option" where
  "wait_loop [] = None"
| "wait_loop (out # outs) =
     (case is_active out of
        None \<Rightarrow> Some False
      | Some st \<Rightarrow> if st = ''inactive'' \<or> st = ''failed'' then Some True else wait_loop outs)"

definition sd_wait :: "backend \<Rightarrow> string \<Rightarrow> string option list \<Rightarrow> bool option" where
  "sd_wait b unit outs = (if \<not> valid_unit (sb_namespace b) unit then Some False else wait_loop outs)"

definition unit_states :: "string list" where
  "unit_states = [''active'', ''activating'', ''deactivating'', ''reloading'', ''maintenance'', ''refreshing'',
     ''inactive'', ''failed'']"

fun active_units :: "string \<Rightarrow> string list \<Rightarrow> string list option" where
  "active_units ns [] = Some []"
| "active_units ns (l # ls) =
     (let fs = Go_Strings.fields l in
      if fs = [] then active_units ns ls
      else if length fs < 4 then None
      else case namespace_from_unit (fs ! 0) of
        None \<Rightarrow> None
      | Some ns' \<Rightarrow>
          if ns' \<noteq> ns then active_units ns ls
          else if fs ! 2 \<in> set unit_states
          then (case active_units ns ls of None \<Rightarrow> None | Some us \<Rightarrow> Some (fs ! 0 # us))
          else None)"

definition sd_active :: "string option \<Rightarrow> backend \<Rightarrow> string list option \<times> backend" where
  "sd_active out b =
     (case out of None \<Rightarrow> (None, b)
      | Some s \<Rightarrow>
          case active_units (sb_namespace b) (split_byte (CHR 0x0A) s) of
            None \<Rightarrow> (None, b)
          | Some us \<Rightarrow> (Some us, b\<lparr>sb_started := filter (\<lambda>u. u \<in> set us) (sb_started b)\<rparr>))"

definition usage_line :: "usage \<Rightarrow> string \<Rightarrow> usage" where
  "usage_line u l =
     (case cut_byte (trim_space l) (CHR ''='') of
        None \<Rightarrow> u
      | Some (name, v) \<Rightarrow>
          if name = ''CPUUsageNSec'' then
            (case parse_int64 v of
               Some ns \<Rightarrow> if ns > 0 then u\<lparr>u_cpu_seconds := real_of_int ns / 1000000000\<rparr> else u
             | None \<Rightarrow> u)
          else if name = ''MemoryCurrent'' then
            (case parse_uint64 v of Some n \<Rightarrow> u\<lparr>u_current_mem := of_nat n\<rparr> | None \<Rightarrow> u)
          else if name = ''MemoryPeak'' then
            (case parse_uint64 v of Some n \<Rightarrow> u\<lparr>u_peak_mem := of_nat n\<rparr> | None \<Rightarrow> u)
          else u)"

definition sd_usage :: "backend \<Rightarrow> string \<Rightarrow> string option \<Rightarrow> usage option" where
  "sd_usage b unit out =
     (if \<not> valid_unit (sb_namespace b) unit then None
      else case out of None \<Rightarrow> None
      | Some s \<Rightarrow> Some (foldl usage_line zero_usage (split_byte (CHR 0x0A) s)))"

definition tail :: "string \<Rightarrow> string" where
  "tail out = trim_space (drop (length out - 2048) out)"

section \<open>Notification and version\<close>

definition notify_address :: "string \<Rightarrow> string" where
  "notify_address sock = (if has_prefix sock ''@'' then CHR 0x00 # drop 1 sock else sock)"

text \<open>\<open>CheckSupport\<close> on the output of \<open>systemd-run --version\<close>; \<open>True\<close> is an error.\<close>

definition check_support :: "string option \<Rightarrow> bool" where
  "check_support out =
     (case out of None \<Rightarrow> True
      | Some s \<Rightarrow>
          (let fs = Go_Strings.fields s in
           if length fs < 2 \<or> fs ! 0 \<noteq> ''systemd'' then True
           else case parse_int64 (fs ! 1) of None \<Rightarrow> True | Some v \<Rightarrow> v < 254))"

end
