(* ===== verification/Systemd_Properties.thy ===== *)
theory Systemd_Properties
  imports Systemd
begin

text \<open>
  Properties of the systemd backend: whose units it touches, how it quotes, when a start is known
  not to have happened, and when an exit is confirmed.
\<close>

section \<open>Unit names\<close>

lemma namespace_of_unit_name:
  assumes "valid_namespace ns" "valid_id i"
  shows "namespace_from_unit (unit_name ns i) = Some ns"
proof -
  let ?body = "ns @ CHR ''-'' # i"
  have u: "unit_name ns i = ''tentacle-'' @ (?body @ ''.service'')" by (simp add: unit_name_def)
  have hs: "has_suffix (unit_name ns i) ''.service''"
    unfolding has_suffix_iff by (rule exI [of _ "''tentacle-'' @ ?body"]) (simp add: unit_name_def)
  have d: "list_all is_digit i" "length i = 4" using assms(2) by (simp_all add: valid_id_def)
  then have "CHR ''-'' \<notin> set i" by (auto simp: list_all_iff is_digit_def less_eq_char_def)
  then have l: "last_index_byte ?body (CHR ''-'') = Some (length ns)" by (rule last_index_byte_append)
  have ne: "ns \<noteq> []" using assms(1) by (simp add: valid_namespace_def)
  show ?thesis
    using hs assms(1) d ne unfolding namespace_from_unit_def
    by (simp only: u has_prefix_append trim_prefix_append trim_suffix_append Let_def l) simp
qed

text \<open>C20: The backend of a pool recognises exactly its own slot units: for valid pool IDs the unit of a
  slot is a valid unit of a backend when, and only when, the backend's pool is the slot's, even when
  one pool's ID is a prefix of the other's, as with org-a and org-a-b.\<close>

theorem unit_owned_by_one_pool:
  assumes "valid_namespace ns" "valid_namespace ns'" "valid_id i"
  shows "valid_unit ns' (unit_name ns i) \<longleftrightarrow> ns' = ns"
  using namespace_of_unit_name [OF assms(1,3)] by (auto simp: valid_unit_def)

lemma valid_namespaces [simp]: "valid_namespace ''org-a''" "valid_namespace ''org-a-b''"
  by (simp_all add: valid_namespace_def is_lower_def is_digit_def less_eq_char_def)

lemma valid_id_0001 [simp]: "valid_id ''0001''"
  by (simp add: valid_id_def is_digit_def digit_val_def decimal_value_def max_slot_id_def less_eq_char_def)

lemma unit_owned_lemma: "valid_unit ''org-a'' (unit_name ''org-a'' ''0001'')"
  by (simp add: valid_unit_def namespace_of_unit_name)

theorem unit_owned_by_one_pool_witness:
  "\<not> valid_unit ''org-a'' (unit_name ''org-a-b'' ''0001'')"
  using unit_owned_by_one_pool [of "''org-a-b''" "''org-a''" "''0001''"] by simp

section \<open>Quoting\<close>

text \<open>A reader of quoted words: a backslash takes the next character as it is, the quote ends the
  word, and words are separated by one blank.\<close>

fun read_word :: "string \<Rightarrow> (string \<times> string) option" where
  "read_word [] = None"
| "read_word (c # cs) =
     (if c = CHR 0x22 then Some ([], cs)
      else if c = CHR 0x5C then
        (case cs of [] \<Rightarrow> None | x # ds \<Rightarrow> map_option (\<lambda>(w, rest). (x # w, rest)) (read_word ds))
      else map_option (\<lambda>(w, rest). (c # w, rest)) (read_word cs))"

lemma read_word_quoted: "read_word (concat (map quote_char v) @ CHR 0x22 # rest) = Some (v, rest)"
  by (induction v) (auto simp: quote_char_def)

fun read_words :: "nat \<Rightarrow> string \<Rightarrow> string list option" where
  "read_words 0 s = None"
| "read_words (Suc n) s =
     (case s of
        c # cs \<Rightarrow>
          if c = CHR 0x22 then
            (case read_word cs of
               None \<Rightarrow> None
             | Some (w, rest) \<Rightarrow>
                 (case rest of [] \<Rightarrow> Some [w]
                  | sp # rest' \<Rightarrow> if sp = CHR '' '' then map_option (\<lambda>ws. w # ws) (read_words n rest') else None))
          else None
      | [] \<Rightarrow> None)"

lemma read_words_joined:
  "ps \<noteq> [] \<Longrightarrow> length ps \<le> n \<Longrightarrow> read_words n (join (map quote_path ps) '' '') = Some ps"
proof (induction ps arbitrary: n)
  case (Cons p ps)
  obtain m where n: "n = Suc m" using Cons.prems(2) by (cases n) auto
  show ?case
  proof (cases ps)
    case Nil
    then show ?thesis using read_word_quoted [of p "[]"] by (simp add: n quote_path_def)
  next
    case (Cons q qs)
    have "join (map quote_path (p # ps)) '' '' = quote_path p @ CHR '' '' # join (map quote_path ps) '' ''"
      by (simp add: Cons)
    then show ?thesis
      using Cons.IH [of m] \<open>length (p # ps) \<le> n\<close> Cons
        read_word_quoted [of p "CHR '' '' # join (map quote_path ps) '' ''"]
      by (simp add: n quote_path_def [of p])
  qed
qed simp

text \<open>C34: The paths of a unit reach systemd unchanged: reading the quoted, blank-separated list back
  gives exactly the paths it was built from, whatever blanks, quotes and backslashes they
  contain.\<close>

theorem quoted_paths_round_trip:
  assumes "ps \<noteq> []"
  shows "read_words (length ps) (join (map quote_path ps) '' '') = Some ps"
  using assms by (simp add: read_words_joined)

theorem quoted_paths_round_trip_witness:
  "read_words 2 (join (map quote_path [''/a b'', [CHR 0x5C, CHR 0x22]]) '' '') = Some [''/a b'', [CHR 0x5C, CHR 0x22]]"
  using quoted_paths_round_trip [of "[''/a b'', [CHR 0x5C, CHR 0x22]]"] by (simp add: numeral_2_eq_2)

section \<open>Starting\<close>

text \<open>A start says that nothing was started exactly when systemd-run was never called; every error
  after that call leaves the outcome open. And systemd-run is only ever called for a unit of the
  backend's own pool, an absolute slot directory and a runner account other than root, as the last
  call, right after the slot was handed over.\<close>

lemma start_outcome_honest:
  assumes "sd_start sv spec b = (res, calls, b')"
  shows "(res = StartNotStarted \<longleftrightarrow> (\<forall>bin args. SystemdRun bin args \<notin> set calls)) \<and>
    (res \<noteq> StartNotStarted \<longrightarrow>
       valid_unit (sb_namespace b) (sp_unit_name spec) \<and> is_abs (sp_slot_dir spec) \<and> sp_user spec \<noteq> [] \<and>
       (\<exists>uid home cs caches. sv_identity sv = Some (uid, home) \<and> uid \<noteq> 0 \<and>
          calls = cs @ [PrepareSlot (sp_slot_dir spec), SystemdRun (sb_run_bin b) (start_args b spec caches)])) \<and>
    (res \<noteq> StartOk \<longrightarrow> b' = b) \<and> (res = StartOk \<longrightarrow> sp_unit_name spec \<in> set (sb_started b'))"
  using assms
  by (auto simp: sd_start_def Let_def split: if_splits option.splits sum.splits prod.splits)

definition demo_spec :: runner_spec where
  "demo_spec = \<lparr>sp_slot_dir = ''/s/0001'', sp_jit_path = ''/j/0001.jit'', sp_env_file = [], sp_user = ''u'',
     sp_group = [], sp_cpu_quota = [], sp_memory_max = [], sp_unit_name = unit_name ''org-a'' ''0001''\<rparr>"

definition demo_backend :: backend where
  "demo_backend = new_backend \<lparr>so_run_bin = [], so_ctl_bin = [], so_stop_timeout = 0, so_namespace = ''org-a'',
     so_cache_subdirs = [], so_extra_families = [], so_job_home = []\<rparr>"

definition demo_start_env :: sd_start_env where
  "demo_start_env = \<lparr>sv_ctx_err = False, sv_identity = Some (1000, ''/home/u''), sv_env_file = None,
     sv_jit_ok = True, sv_mkdir_ok = True, sv_job_home_ok = True, sv_prepare_ok = True,
     sv_run_ctx_err = False, sv_run_ok = False\<rparr>"

lemma demo_start:
  "fst (sd_start demo_start_env demo_spec demo_backend) = StartUncertain"
  using unit_owned_lemma
  by (simp add: sd_start_def demo_start_env_def demo_spec_def demo_backend_def new_backend_def Let_def
      is_abs_def has_prefix_def)


section \<open>Observing\<close>

lemma wait_loop_exit:
  "wait_loop outs = Some True \<longleftrightarrow>
   (\<exists>k < length outs. (is_active (outs ! k) = Some ''inactive'' \<or> is_active (outs ! k) = Some ''failed'') \<and>
      (\<forall>j < k. \<exists>st. is_active (outs ! j) = Some st \<and> st \<noteq> ''inactive'' \<and> st \<noteq> ''failed''))"
proof (induction outs)
  case (Cons out outs)
  show ?case
  proof (cases "is_active out")
    case None
    then show ?thesis by (auto simp: less_Suc_eq_0_disj nth_Cons' split: if_splits)
  next
    case (Some st)
    show ?thesis
    proof (cases "st = ''inactive'' \<or> st = ''failed''")
      case True
      with Some show ?thesis by (intro iffI exI [of _ 0]) auto
    next
      case False
      have "(\<exists>k < length (out # outs). (is_active ((out # outs) ! k) = Some ''inactive'' \<or> is_active ((out # outs) ! k) = Some ''failed'') \<and>
          (\<forall>j < k. \<exists>st. is_active ((out # outs) ! j) = Some st \<and> st \<noteq> ''inactive'' \<and> st \<noteq> ''failed'')) \<longleftrightarrow>
        (\<exists>k < length outs. (is_active (outs ! k) = Some ''inactive'' \<or> is_active (outs ! k) = Some ''failed'') \<and>
          (\<forall>j < k. \<exists>st. is_active (outs ! j) = Some st \<and> st \<noteq> ''inactive'' \<and> st \<noteq> ''failed''))"
        using Some False by (simp add: Ex_less_Suc2 All_less_Suc2)
      with Some False Cons.IH show ?thesis by simp
    qed
  qed
qed simp

lemma state_values_keys:
  "state_values ls vs = Some ws \<Longrightarrow>
   \<exists>kvs. ws = vs @ kvs \<and> map (\<lambda>(k, v). k @ ''='' @ v) kvs = ls \<and> set (map fst kvs) \<subseteq> {''LoadState'', ''ActiveState''}"
proof (induction ls arbitrary: vs)
  case (Cons l ls)
  then obtain k v where c: "cut_byte l (CHR ''='') = Some (k, v)" "k = ''LoadState'' \<or> k = ''ActiveState''"
    "state_values ls (vs @ [(k, v)]) = Some ws"
    by (auto split: option.splits if_splits)
  from Cons.IH [OF c(3)] obtain kvs where kvs: "ws = (vs @ [(k, v)]) @ kvs"
    "map (\<lambda>(k, v). k @ ''='' @ v) kvs = ls" "set (map fst kvs) \<subseteq> {''LoadState'', ''ActiveState''}" by blast
  from c(1) obtain i where "index_byte l (CHR ''='') = Some i" "k = take i l" "v = drop (Suc i) l"
    by (auto simp: cut_byte_def split: option.splits)
  with index_byte_Some [of l "CHR ''=''" i] have "l = k @ ''='' @ v" by simp
  with kvs c(2) show ?case by (intro exI [of _ "(k, v) # kvs"]) auto
qed simp

text \<open>An exit is never inferred from a failed or malformed observation: waiting reports a confirmed
  exit exactly when some query, and no query before it failed or was malformed, shows a known load
  state and the state inactive or failed; and a query that shows anything has only those two
  properties in its output.\<close>

lemma wait_confirms_exit:
  assumes "valid_unit (sb_namespace b) u"
  shows "(sd_wait b u outs = Some True \<longleftrightarrow>
      (\<exists>k < length outs. (is_active (outs ! k) = Some ''inactive'' \<or> is_active (outs ! k) = Some ''failed'') \<and>
        (\<forall>j < k. \<exists>st. is_active (outs ! j) = Some st \<and> st \<noteq> ''inactive'' \<and> st \<noteq> ''failed''))) \<and>
    (is_active out = Some st \<longrightarrow>
      (\<exists>s kvs. out = Some s \<and> split_byte (CHR 0x0A) (trim_space s) = map (\<lambda>(k, v). k @ ''='' @ v) kvs \<and>
         set (map fst kvs) \<subseteq> {''LoadState'', ''ActiveState''} \<and> lookup_var kvs ''ActiveState'' = st \<and>
         lookup_var kvs ''LoadState'' \<in> set load_states))"
proof -
  have "\<exists>s kvs. out = Some s \<and> split_byte (CHR 0x0A) (trim_space s) = map (\<lambda>(k, v). k @ ''='' @ v) kvs \<and>
         set (map fst kvs) \<subseteq> {''LoadState'', ''ActiveState''} \<and> lookup_var kvs ''ActiveState'' = st \<and>
         lookup_var kvs ''LoadState'' \<in> set load_states" if a: "is_active out = Some st"
  proof -
    from a obtain s kvs where s: "out = Some s" "state_values (split_byte (CHR 0x0A) (trim_space s)) [] = Some kvs"
      "lookup_var kvs ''LoadState'' \<in> set load_states" "lookup_var kvs ''ActiveState'' = st"
      by (auto simp: is_active_def split: option.splits if_splits)
    from state_values_keys [OF s(2)] have "map (\<lambda>(k, v). k @ ''='' @ v) kvs = split_byte (CHR 0x0A) (trim_space s)"
      "set (map fst kvs) \<subseteq> {''LoadState'', ''ActiveState''}" by auto
    with s show ?thesis by (intro exI [of _ s] exI [of _ kvs]) simp
  qed
  then show ?thesis using assms wait_loop_exit [of outs] by (simp add: sd_wait_def)
qed


text \<open>Adoption sees this pool's units only: what the backend lists as active are units of its own
  namespace, exactly the first fields of the listing's lines that name one, in order; a listing
  with a line it cannot read is an error.\<close>

lemma active_lists_own_units:
  assumes "sd_active (Some s) b = (Some us, b')"
  shows "us = filter (valid_unit (sb_namespace b)) (map hd (filter (\<lambda>fs. fs \<noteq> []) (map Go_Strings.fields (split_byte (CHR 0x0A) s)))) \<and>
    (\<forall>fs \<in> set (map Go_Strings.fields (split_byte (CHR 0x0A) s)). fs \<noteq> [] \<longrightarrow> length fs \<ge> 4 \<and> namespace_from_unit (hd fs) \<noteq> None) \<and>
    set (sb_started b') \<subseteq> set us"
proof -
  have gen: "us = filter (valid_unit ns) (map hd (filter (\<lambda>fs. fs \<noteq> []) (map Go_Strings.fields ls))) \<and>
    (\<forall>fs \<in> set (map Go_Strings.fields ls). fs \<noteq> [] \<longrightarrow> length fs \<ge> 4 \<and> namespace_from_unit (hd fs) \<noteq> None)"
    if "active_units ns ls = Some us" for ns ls us
    using that
  proof (induction ns ls arbitrary: us rule: active_units.induct)
    case (2 ns l ls)
    show ?case
    proof (cases "Go_Strings.fields l = []")
      case True
      with 2 show ?thesis by simp
    next
      case False
      with "2.prems" obtain ns' where ns': "length (Go_Strings.fields l) \<ge> 4"
        "namespace_from_unit (Go_Strings.fields l ! 0) = Some ns'"
        by (auto simp: Let_def split: if_splits option.splits)
      have hd: "hd (Go_Strings.fields l) = Go_Strings.fields l ! 0" using False by (simp add: hd_conv_nth)
      show ?thesis
      proof (cases "ns' = ns")
        case True
        with "2.prems" False ns' obtain us' where us': "active_units ns ls = Some us'" "us = Go_Strings.fields l ! 0 # us'"
          by (auto simp: Let_def split: if_splits option.splits)
        with "2.IH"(3) [OF refl False _ ns'(2)] True ns' False hd "2.prems" show ?thesis
          by (auto simp: valid_unit_def Let_def split: if_splits)
      next
        case ne: False
        with "2.prems" False ns' have "active_units ns ls = Some us"
          by (auto simp: Let_def split: if_splits)
        with "2.IH"(2) [OF refl False _ ns'(2)] ne ns' False hd show ?thesis
          by (auto simp: valid_unit_def)
      qed
    qed
  qed simp
  from assms have "active_units (sb_namespace b) (split_byte (CHR 0x0A) s) = Some us"
    and "sb_started b' = filter (\<lambda>u. u \<in> set us) (sb_started b)"
    by (auto simp: sd_active_def split: option.splits)
  with gen show ?thesis by auto
qed


end
