(* ===== verification/Config_Properties.thy ===== *)
theory Config_Properties
  imports Config Systemd_Properties
begin

text \<open>Properties of the configuration: what a valid one guarantees to the scheduler and the backend.\<close>

lemma pool_id_namespace: "pool_id_ok s \<longleftrightarrow> valid_namespace s"
proof (cases s)
  case Nil
  then show ?thesis by (simp add: pool_id_ok_def valid_namespace_def)
next
  case (Cons c cs)
  have "namespace_chars False cs \<longleftrightarrow> list_all (\<lambda>c. is_lower c \<or> is_digit c \<or> c = CHR ''-'') cs"
    by (induction cs) auto
  then show ?thesis using Cons by (auto simp: pool_id_ok_def valid_namespace_def)
qed

text \<open>A valid configuration keeps every capacity in bounds: the host maximum is between 1 and 32,
  every pool's window is non-empty, starts at zero or more and fits the host, the minimums together
  fit the host, and no two pools share an ID or a GitHub target.\<close>

lemma valid_config_capacity:
  assumes "validate cw c = []"
  shows "1 \<le> cf_max_runners c \<and> cf_max_runners c \<le> 32 \<and> cf_pools c \<noteq> [] \<and>
    (\<forall>p \<in> set (cf_pools c). 0 \<le> cp_min p \<and> cp_min p \<le> cp_max p \<and> 1 \<le> cp_max p \<and> cp_max p \<le> cf_max_runners c) \<and>
    sum_list (map cp_min (cf_pools c)) \<le> cf_max_runners c \<and>
    distinct (map cp_id (cf_pools c)) \<and> distinct (map pool_target (cf_pools c))"
proof -
  have cap: "validate_capacity cw c = []" using assms by (simp add: validate_def Let_def split: prod.splits)
  then have vp: "validate_pools cw (cf_max_runners c) 0 (cf_pools c) [] [] = []"
    and m: "1 \<le> cf_max_runners c" "cf_max_runners c \<le> 32" "cf_pools c \<noteq> []"
      "sum_list (map cp_min (cf_pools c)) \<le> cf_max_runners c"
    by (simp_all add: validate_capacity_def hard_cap_max_runners_def not_less)
  have "0 \<le> cp_min p \<and> cp_min p \<le> cp_max p \<and> 1 \<le> cp_max p \<and> cp_max p \<le> cf_max_runners c"
    if "p \<in> set (cf_pools c)" for p
    using validate_pools_Nil [OF vp] that m(1) by (auto simp: validate_pool_def not_less)
  with validate_pools_Nil [OF vp] m show ?thesis by simp
qed

definition demo_config_pool :: pool_config where
  "demo_config_pool = \<lparr>cp_id = ''org-a'', cp_url = ''u'', cp_client_id = ''c'', cp_installation_id = 1,
     cp_key_path = ''k'', cp_kind = ''organization'', cp_owner = ''o'', cp_repository = [], cp_set_name = ''s'',
     cp_group = ''g'', cp_labels = [], cp_min = 1, cp_max = 2\<rparr>"

definition demo_config :: config where
  "demo_config = apply_defaults False False False False
     \<lparr>cf_pools = [demo_config_pool], cf_max_runners = 4, cf_cpu_quota = 100, cf_memory_max = ''8G'', cf_version = [],
      cf_download_url = [], cf_sha256 = [], cf_work_dir = [], cf_disable_update = False, cf_user = [],
      cf_group = [], cf_env_file = ''e'', cf_caches = [''c''], cf_families = [], cf_job_home = [], cf_state_dir = [],
      cf_cache_dir = [], cf_log_dir = [], cf_backend = ''process'', cf_start_timeout = 0, cf_stop_timeout = 0,
      cf_cleanup_timeout = 0, cf_acquire_grace = 0, cf_idle_grace = 0, cf_jit_dir = [], cf_admission = False,
      cf_cpu_target = 0, cf_memory_margin = 0, cf_sample_interval = 0, cf_listen = [], cf_log_level = [],
      cf_ship_diag = False, cf_diag_max_age = 0, cf_diag_max_bytes = 0\<rparr>"

definition demo_world :: config_world where
  "demo_world = \<lparr>cw_allow_unverified = False, cw_stat = (\<lambda>_. Some False),
     cw_env_text = (\<lambda>_. Some (unlines (map quoted_line [(''PATH'', ''/bin''), (''HOME'', ''/h'')]))),
     cw_links = (\<lambda>p. Resolved p), cw_systemd_dir = ''/run/systemd/system''\<rparr>"

lemma demo_config_valid: "validate demo_world demo_config = []"
proof -
  define vars where "vars = [(''PATH'', ''/bin''), (''HOME'', ''/h'')]"
  have "parse_lines 0 (map quoted_line vars) [] = Inr vars"
    using parse_quoted_lines [of vars "[]" 0] by (simp add: vars_def key_ok_def is_space_def)
  moreover have "scan_lines max_scan_token (unlines (map quoted_line vars)) = (map quoted_line vars, True)"
    by (rule scan_quoted_lines) (simp add: vars_def newline_def max_scan_token_def)
  ultimately have "parse_file (Some (unlines (map quoted_line vars))) = Inr vars"
    by (simp add: parse_file_def)
  then have e: "parse_file (Some (unlines (map quoted_line [(''PATH'', ''/bin''), (''HOME'', ''/h'')]))) =
      Inr [(''PATH'', ''/bin''), (''HOME'', ''/h'')]" by (simp only: vars_def)
  have v: "validate_env [(''PATH'', ''/bin''), (''HOME'', ''/h'')] = None"
    by (simp add: validate_env_def lookup_var_def trim_space_def is_space_def)
  have r: "validate_runner demo_world demo_config = ([], ''/h'')"
    by (simp add: validate_runner_def demo_world_def demo_config_def apply_defaults_def e [simplified] v Let_def
        lookup_var_def fail_if_def)
  have c: "validate_capacity demo_world demo_config = []"
    by (simp add: validate_capacity_def demo_world_def demo_config_def apply_defaults_def demo_config_pool_def
        default_pool_def or_str_def hard_cap_max_runners_def max_cpu_quota_percent_def fail_if_def validate_pool_def
        pool_id_namespace label_ok_def is_alnum_def is_lower_def less_eq_char_def)
  have h: "validate_runtime demo_world demo_config = []" "validate_scaling demo_config = []"
    by (simp_all add: validate_runtime_def validate_scaling_def demo_config_def apply_defaults_def or_str_def
        or_int_def second_def minute_def fail_if_def host_port_ok_def)
  have k: "validate_caches 0 (cf_caches demo_config) {} = []" "validate_families 0 (cf_families demo_config) {} = []"
    "validate_job_home demo_world demo_config x = []" for x
    by (simp_all add: demo_config_def apply_defaults_def fail_if_def is_abs_def has_prefix_def validate_job_home_def)
  show ?thesis by (simp add: validate_def r c h k)
qed


text \<open>The configuration and the backend agree on pool IDs: the pattern that validation imposes on a
  pool ID accepts exactly the namespaces the systemd backend accepts in a unit name.\<close>

lemma pool_id_is_namespace:
  "pool_id_ok s = valid_namespace s"
  by (rule pool_id_namespace)

text \<open>In a valid configuration every slot unit belongs to one pool: the unit of any slot of one pool
  is recognised by that pool's backend and by no other configured pool's.\<close>

lemma valid_config_units:
  assumes "validate cw c = []" "p \<in> set (cf_pools c)" "q \<in> set (cf_pools c)" "valid_id i"
  shows "valid_unit (cp_id q) (unit_name (cp_id p) i) \<longleftrightarrow> cp_id q = cp_id p"
proof -
  have "validate_capacity cw c = []" using assms(1) by (simp add: validate_def Let_def split: prod.splits)
  then have "validate_pools cw (cf_max_runners c) 0 (cf_pools c) [] [] = []" by (simp add: validate_capacity_def)
  from validate_pools_Nil [OF this] assms(2) have "pool_id_ok (cp_id p)" by (auto simp: validate_pool_def)
  then have "namespace_from_unit (unit_name (cp_id p) i) = Some (cp_id p)"
    using assms(4) by (intro namespace_of_unit_name) (simp_all add: pool_id_namespace)
  then show ?thesis by (auto simp: valid_unit_def)
qed


lemma or_idem [simp]: "or_str (or_str v d) d = or_str v d" "or_int (or_int k e) e = or_int k e"
  by (simp_all add: or_str_def or_int_def)

lemma trim_right_idem: "trim_right_byte c (trim_right_byte c s) = trim_right_byte c s"
proof -
  have "dropWhile P (dropWhile P xs) = dropWhile P xs" for P and xs :: string
    by (induction xs) auto
  then show ?thesis by simp
qed

text \<open>Defaults fill what is missing and nothing else: applying them twice with the same presence
  flags is applying them once, a written false or zero margin survives, and an omitted switch
  becomes true.\<close>

lemma defaults_stable:
  assumes "\<forall>p \<in> set (cf_pools c). trim_right_byte (CHR ''/'') (cp_url p) \<noteq> [] \<or> cp_url p = []"
  shows "apply_defaults a b m n (apply_defaults a b m n c) = apply_defaults a b m n c \<and>
    (cf_disable_update (apply_defaults a b m n c) = (cf_disable_update c \<or> \<not> a)) \<and>
    (cf_ship_diag (apply_defaults a b m n c) = (cf_ship_diag c \<or> \<not> b)) \<and>
    (cf_admission (apply_defaults a b m n c) = (cf_admission c \<or> \<not> m)) \<and>
    (n \<longrightarrow> cf_memory_margin (apply_defaults a b m n c) = cf_memory_margin c)"
proof -
  have "default_pool (default_pool p) = default_pool p" if "p \<in> set (cf_pools c)" for p
  proof -
    have "trim_right_byte (CHR ''/'') (or_str (cp_url p) ''https://github.com'') \<noteq> []"
      using assms that by (auto simp: or_str_def)
    then have "or_str (trim_right_byte (CHR ''/'') (or_str (cp_url p) ''https://github.com'')) ''https://github.com'' =
        trim_right_byte (CHR ''/'') (or_str (cp_url p) ''https://github.com'')" by (simp only: or_str_def if_False)
    then show ?thesis by (simp add: default_pool_def trim_right_idem del: trim_right_byte.simps)
  qed
  then have "map default_pool (map default_pool (cf_pools c)) = map default_pool (cf_pools c)" by simp
  then show ?thesis
    by (auto simp: apply_defaults_def default_shared_cache_paths_def simp del: map_map)
qed


end
