(* ===== verification/Runner_Host.thy ===== *)
theory Runner_Host
  imports Slot_Table Env
begin

text \<open>
  Package \<open>runner\<close> on the host side: resolving the account a job runs as (\<open>identity.go\<close>), handing a
  fresh slot over to it (\<open>PrepareSlot\<close>), reading the private JIT source (\<open>ReadJIT\<close>), the command line
  (\<open>cmd.go\<close>), and the removal of credential files (package \<open>cleanup\<close>). The user database and the file
  system are outside; what they answer is the environment of an operation.
\<close>

section \<open>Accounts\<close>

record account =
  au_uid :: string
  au_gid :: string
  au_home :: string

record user_db =
  ub_current :: "account option"
  ub_by_id :: "string \<Rightarrow> account option"
  ub_by_name :: "string \<Rightarrow> account option"
  ub_group :: "string \<Rightarrow> string option"
  ub_euid :: int
  ub_egid :: int
  ub_groups :: "account \<Rightarrow> string list option"

record credential =
  cr_uid :: nat
  cr_gid :: nat
  cr_groups :: "nat list"

record identity =
  id_uid :: int
  id_gid :: int
  id_home :: string
  id_cred :: "credential option"

text \<open>\<open>strconv.ParseUint(s, 10, 32)\<close>, and the conversion of an \<open>int\<close> to a \<open>uint32\<close>.\<close>

definition parse_uint32 :: "string \<Rightarrow> nat option" where
  "parse_uint32 s = (case parse_uint64 s of None \<Rightarrow> None | Some n \<Rightarrow> if n < 2 ^ 32 then Some n else None)"

definition uint32_of :: "int \<Rightarrow> nat" where
  "uint32_of n = nat (n mod 2 ^ 32)"

definition lookup_account :: "user_db \<Rightarrow> string \<Rightarrow> account option" where
  "lookup_account ub name =
     (if name = [] then ub_current ub
      else if parse_uint32 name \<noteq> None then ub_by_id ub name
      else ub_by_name ub name)"

definition lookup_gid :: "user_db \<Rightarrow> account \<Rightarrow> string \<Rightarrow> string option" where
  "lookup_gid ub au grp =
     (if grp = [] then Some (au_gid au)
      else if parse_uint32 grp \<noteq> None then Some grp
      else ub_group ub grp)"

fun parse_groups :: "string list \<Rightarrow> nat list option" where
  "parse_groups [] = Some []"
| "parse_groups (g # gs) =
     (case parse_uint32 g of None \<Rightarrow> None
      | Some n \<Rightarrow> (case parse_groups gs of None \<Rightarrow> None | Some ns \<Rightarrow> Some (n # ns)))"

text \<open>\<open>ResolveIdentity\<close>; \<open>None\<close> is an error.\<close>

definition resolve_identity :: "user_db \<Rightarrow> string \<Rightarrow> string \<Rightarrow> identity option" where
  "resolve_identity ub name grp =
     (case lookup_account ub name of None \<Rightarrow> None
      | Some au \<Rightarrow>
        (case parse_int64 (au_uid au) of None \<Rightarrow> None
         | Some uid \<Rightarrow>
           (case lookup_gid ub au grp of None \<Rightarrow> None
            | Some gid_text \<Rightarrow>
              (case parse_int64 gid_text of None \<Rightarrow> None
               | Some gid \<Rightarrow>
                   let idn = \<lparr>id_uid = uid, id_gid = gid, id_home = au_home au, id_cred = None\<rparr> in
                   if ub_euid ub \<noteq> 0 then
                     (if uid \<noteq> ub_euid ub \<or> gid \<noteq> ub_egid ub then None else Some idn)
                   else
                     (case ub_groups ub au of None \<Rightarrow> None
                      | Some gs \<Rightarrow>
                        (case parse_groups gs of None \<Rightarrow> None
                         | Some ns \<Rightarrow> Some (idn\<lparr>id_cred :=
                             Some \<lparr>cr_uid = uint32_of uid, cr_gid = uint32_of gid, cr_groups = ns\<rparr>\<rparr>)))))))"

section \<open>Handing a slot over\<close>

datatype file_kind = RegularFile | Directory | SymbolicLink | SpecialFile









section \<open>The JIT source\<close>

record jit_file =
  jf_kind :: file_kind
  jf_mode :: nat
  jf_links :: nat
  jf_uid :: int
  jf_size :: nat
  jf_data :: "string option"

text \<open>\<open>ReadJIT\<close>: \<open>None\<close> for the file is a failed open, which a final symbolic link causes.\<close>

definition read_jit :: "int \<Rightarrow> jit_file option \<Rightarrow> string option" where
  "read_jit euid file =
     (case file of None \<Rightarrow> None
      | Some f \<Rightarrow>
          if jf_kind f \<noteq> RegularFile \<or> jf_mode f \<noteq> 6 * 64 \<or> jf_links f \<noteq> 1 \<or> jf_uid f \<noteq> euid then None
          else if jf_size f > 1024 * 1024 then None
          else jf_data f)"

text \<open>\<open>WriteJIT\<close>: a temporary sibling is written and renamed over the path; it is removed on failure.\<close>

datatype jit_write = CreateTemp string | WriteTemp string | RenameTemp string string | RemoveTemp string

record write_env =
  wj_temp :: "string option"
  wj_write_err :: bool
  wj_close_err :: bool
  wj_rename_err :: bool

definition write_jit :: "write_env \<Rightarrow> string \<Rightarrow> string \<Rightarrow> bool \<times> jit_write list" where
  "write_jit wj path encoded =
     (case wj_temp wj of None \<Rightarrow> (False, [])
      | Some tmp \<Rightarrow>
          if wj_write_err wj \<or> wj_close_err wj
          then (False, [CreateTemp tmp, WriteTemp encoded, RemoveTemp tmp])
          else if wj_rename_err wj
          then (False, [CreateTemp tmp, WriteTemp encoded, RemoveTemp tmp, RemoveTemp tmp])
          else (True, [CreateTemp tmp, WriteTemp encoded, RenameTemp tmp path, RemoveTemp tmp]))"

section \<open>The command line\<close>

definition jit_script :: string where
  "jit_script = ''jit=$(cat -- '' @ [CHR 0x22] @ ''$1'' @ [CHR 0x22] @ '') || exit; exec ./run.sh --jitconfig '' @
     [CHR 0x22] @ ''$jit'' @ [CHR 0x22]"

definition build_command :: "string \<Rightarrow> string list" where
  "build_command jit_file_path = [''/bin/sh'', ''-c'', jit_script, ''--'', jit_file_path]"

section \<open>Credential removal\<close>

definition credential_files :: "string list" where
  "credential_files = [''.runner'', ''.credentials'', ''.credentials_rsaparams'']"

datatype unlink_result = Unlinked | UnlinkMissing | UnlinkFailed

text \<open>\<open>ShredCredentials\<close>: \<open>opened\<close> is \<open>None\<close> for a failed open other than a missing slot. The names that
  could not be removed are returned; \<open>None\<close> is the failed open.\<close>

definition shred_credentials :: "bool option \<Rightarrow> (string \<Rightarrow> unlink_result) \<Rightarrow> string list option" where
  "shred_credentials opened unlink =
     (case opened of None \<Rightarrow> None
      | Some present \<Rightarrow>
          Some (if present then filter (\<lambda>n. unlink n = UnlinkFailed) credential_files else []))"

section \<open>Facts\<close>



section \<open>Properties\<close>






text \<open>Resolving an identity fails closed: an unprivileged supervisor only ever yields its own user
  and group and never a credential change; a privileged one always yields an explicit credential
  for the resolved user and group.\<close>

lemma identity_fails_closed:
  assumes "resolve_identity ub name grp = Some idn"
  shows "(\<exists>au. lookup_account ub name = Some au \<and> parse_int64 (au_uid au) = Some (id_uid idn) \<and> id_home idn = au_home au) \<and>
    (if ub_euid ub \<noteq> 0 then id_uid idn = ub_euid ub \<and> id_gid idn = ub_egid ub \<and> id_cred idn = None
     else \<exists>c. id_cred idn = Some c \<and> cr_uid c = uint32_of (id_uid idn) \<and> cr_gid c = uint32_of (id_gid idn))"
  using assms unfolding resolve_identity_def
  by (auto simp: Let_def split: option.splits if_splits)

definition demo_users :: user_db where
  "demo_users = \<lparr>ub_current = None, ub_by_id = (\<lambda>_. None),
     ub_by_name = (\<lambda>n. if n = ''u'' then Some \<lparr>au_uid = ''1000'', au_gid = ''1000'', au_home = ''/home/u''\<rparr> else None),
     ub_group = (\<lambda>_. None), ub_euid = 0, ub_egid = 0, ub_groups = (\<lambda>_. Some [''4''])\<rparr>"


end
