(* ===== verification/Process.thy ===== *)
theory Process
  imports Runner_Host Slot_Handlers
begin

text \<open>
  Package \<open>process\<close>: the backend that runs slots as plain child processes. A unit is a process group
  with a flag for the closing of its \<open>exited\<close> channel. The semaphore \<open>starting\<close> lets one \<open>Start\<close> or
  \<open>Stop\<close> run at a time; the goroutine of a unit (\<open>proc_exit\<close>) may mark it exited at any moment, which
  an operation sees as one of the answers it waits for.
\<close>

record proc_unit =
  pu_pid :: int
  pu_exited :: bool

record pbackend =
  pb_env :: "env_error + (string \<times> string) list"
  pb_stop :: duration
  pb_units :: "(string \<times> proc_unit) list"

text \<open>\<open>New\<close>: the environment file is parsed once; a parse error is kept for \<open>Start\<close>.\<close>

definition new_process :: "string \<Rightarrow> string option \<Rightarrow> duration option \<Rightarrow> pbackend" where
  "new_process env_path content stop_timeout =
     \<lparr>pb_env = (if env_path = [] then Inr [] else parse_file content),
      pb_stop = (case stop_timeout of None \<Rightarrow> 30 * second | Some d \<Rightarrow> d), pb_units = []\<rparr>"

definition lookup_unit :: "string \<Rightarrow> pbackend \<Rightarrow> proc_unit option" where
  "lookup_unit name b = map_of (pb_units b) name"

definition unit_running :: "string \<Rightarrow> pbackend \<Rightarrow> bool" where
  "unit_running name b = (case lookup_unit name b of None \<Rightarrow> False | Some u \<Rightarrow> \<not> pu_exited u)"

definition running_units :: "pbackend \<Rightarrow> string set" where
  "running_units b = {name. unit_running name b}"

lemma unit_running_iff: "unit_running name b \<longleftrightarrow> name \<in> running_units b"
  by (simp add: running_units_def)

lemma running_units_iff: "name \<in> running_units b \<longleftrightarrow> (\<exists>u. lookup_unit name b = Some u \<and> \<not> pu_exited u)"
  by (simp add: running_units_def unit_running_def split: option.split)

section \<open>Start\<close>

record proc_start_env =
  pv_ctx_err :: bool
  pv_env_text :: "string option"
  pv_identity :: "identity option"
  pv_sem_ctx :: bool
  pv_jit :: "string option"
  pv_credential :: "string option"
  pv_write_err :: bool
  pv_close_err :: bool
  pv_prepare_ok :: bool
  pv_ctx_err2 :: bool
  pv_pid :: "int option"
  pv_environ :: "string list"

datatype proc_call =
  CreateCredential string
| WriteCredential string string
| RemoveCredential string
| PrepareProc string
| StartProcess "string list" "string list"

definition proc_start ::
  "proc_start_env \<Rightarrow> runner_spec \<Rightarrow> pbackend \<Rightarrow> start_result \<times> proc_call list \<times> pbackend" where
  "proc_start pv spec b =
     (if pv_ctx_err pv \<or> trim_space (sp_unit_name spec) = [] then (StartNotStarted, [], b)
      else case pb_env b of Inl e \<Rightarrow> (StartNotStarted, [], b)
      | Inr base \<Rightarrow>
        case (if sp_env_file spec = [] then Inr base else parse_file (pv_env_text pv)) of
          Inl e \<Rightarrow> (StartNotStarted, [], b)
        | Inr vars \<Rightarrow>
          if pv_identity pv = None \<or> pv_sem_ctx pv \<or> unit_running (sp_unit_name spec) b
          then (StartNotStarted, [], b)
          else case (pv_jit pv, pv_credential pv) of
            (Some jit, Some cred) \<Rightarrow>
              let c1 = [CreateCredential cred, WriteCredential cred jit] in
              if pv_write_err pv \<or> pv_close_err pv then (StartNotStarted, c1 @ [RemoveCredential cred], b)
              else
                let c2 = c1 @ [PrepareProc (sp_slot_dir spec)] in
                if \<not> pv_prepare_ok pv \<or> pv_ctx_err2 pv then (StartNotStarted, c2 @ [RemoveCredential cred], b)
                else case pv_pid pv of
                  None \<Rightarrow> (StartNotStarted,
                    c2 @ [StartProcess (build_command cred) (apply_env (pv_environ pv) vars), RemoveCredential cred], b)
                | Some pid \<Rightarrow> (StartOk,
                    c2 @ [StartProcess (build_command cred) (apply_env (pv_environ pv) vars)],
                    b\<lparr>pb_units := put_key (sp_unit_name spec) \<lparr>pu_pid = pid, pu_exited = False\<rparr> (pb_units b)\<rparr>)
          | _ \<Rightarrow> (StartNotStarted, [], b))"

section \<open>Exit\<close>

text \<open>The goroutine of a unit, once its process group is gone: it closes the channel of its own entry.\<close>

definition proc_exit :: "string \<Rightarrow> int \<Rightarrow> pbackend \<Rightarrow> pbackend" where
  "proc_exit name pid b =
     (case lookup_unit name b of
        None \<Rightarrow> b
      | Some u \<Rightarrow> if pu_pid u = pid then b\<lparr>pb_units := put_key name (u\<lparr>pu_exited := True\<rparr>) (pb_units b)\<rparr> else b)"

text \<open>\<open>waitForGroupExit\<close>: one observation is whether the signal probe finds no such group, and the output
  of \<open>ps\<close> (\<open>None\<close>: it failed). Lines are read until a malformed one.\<close>

fun ps_lines :: "int \<Rightarrow> string list \<Rightarrow> bool \<Rightarrow> bool \<times> bool" where
  "ps_lines pgid [] alive = (alive, True)"
| "ps_lines pgid (l # ls) alive =
     (let fs = Go_Strings.fields l in
      if length fs \<noteq> 2 then (alive, False)
      else case parse_int64 (fs ! 0) of
        None \<Rightarrow> (alive, False)
      | Some g \<Rightarrow> ps_lines pgid ls (alive \<or> (g = pgid \<and> \<not> has_prefix (fs ! 1) ''Z'')))"

definition group_gone :: "int \<Rightarrow> bool \<times> string option \<Rightarrow> bool" where
  "group_gone pgid obs =
     (fst obs \<or>
      (case snd obs of None \<Rightarrow> False
       | Some out \<Rightarrow>
           let (alive, valid) = ps_lines pgid (split_byte newline (trim_space out)) False in valid \<and> \<not> alive))"

text \<open>\<open>None\<close> while the loop has not returned.\<close>

fun wait_for_group_exit :: "int \<Rightarrow> (bool \<times> string option) list \<Rightarrow> nat option" where
  "wait_for_group_exit pgid [] = None"
| "wait_for_group_exit pgid (ob # obs) =
     (if group_gone pgid ob then Some 0
      else case wait_for_group_exit pgid obs of None \<Rightarrow> None | Some n \<Rightarrow> Some (Suc n))"

section \<open>Active, Wait and Stop\<close>

definition proc_active :: "bool \<Rightarrow> pbackend \<Rightarrow> string list option" where
  "proc_active ctx_err b =
     (if ctx_err then None else Some (sort (map fst (filter (\<lambda>(name, u). \<not> pu_exited u) (pb_units b)))))"

text \<open>What a \<open>select\<close> on a unit's channel, the stop timer and the context answers.\<close>

datatype pick = PickExited | PickTimer | PickContext

datatype proc_result = ProcOk | ProcUnknown | ProcCtx | ProcSignalErr

text \<open>\<open>Wait\<close>. When the channel is picked, the goroutine has marked the unit exited by then.\<close>

definition proc_wait :: "pick \<Rightarrow> string \<Rightarrow> pbackend \<Rightarrow> proc_result \<times> pbackend" where
  "proc_wait pk name b =
     (case lookup_unit name b of
        None \<Rightarrow> (ProcUnknown, b)
      | Some u \<Rightarrow> if pu_exited u then (ProcOk, b)
                  else if pk = PickExited then (ProcOk, proc_exit name (pu_pid u) b)
                  else (ProcCtx, b))"

datatype proc_signal = SigTerm int | SigKill int
datatype kill_result = KillOk | KillNoGroup | KillErr

record proc_stop_env =
  pk_ctx_err :: bool
  pk_sem_ctx :: bool
  pk_term :: kill_result
  pk_first :: pick
  pk_kill :: kill_result
  pk_second :: pick

definition proc_stop :: "proc_stop_env \<Rightarrow> string \<Rightarrow> pbackend \<Rightarrow> proc_result \<times> proc_signal list \<times> pbackend" where
  "proc_stop pk name b =
     (if pk_ctx_err pk \<or> pk_sem_ctx pk then (ProcCtx, [], b)
      else case lookup_unit name b of
        None \<Rightarrow> (ProcOk, [], b)
      | Some u \<Rightarrow>
          if pu_exited u then (ProcOk, [], b)
          else
            let pgid = pu_pid u; gone = proc_exit name pgid b in
            if pk_term pk = KillErr then (ProcSignalErr, [SigTerm pgid], b)
            else case pk_first pk of
              PickExited \<Rightarrow> (ProcOk, [SigTerm pgid], gone)
            | PickContext \<Rightarrow> (ProcCtx, [SigTerm pgid, SigKill pgid], b)
            | PickTimer \<Rightarrow>
                if pk_kill pk = KillErr then (ProcSignalErr, [SigTerm pgid, SigKill pgid], b)
                else if pk_second pk = PickExited then (ProcOk, [SigTerm pgid, SigKill pgid], gone)
                else (ProcCtx, [SigTerm pgid, SigKill pgid], b))"

section \<open>Facts\<close>

definition units_distinct :: "pbackend \<Rightarrow> bool" where
  "units_distinct b \<longleftrightarrow> distinct (map fst (pb_units b))"

lemma lookup_put [simp]:
  "lookup_unit n (b\<lparr>pb_units := put_key name u (pb_units b)\<rparr>) = (if n = name then Some u else lookup_unit n b)"
  by (simp add: lookup_unit_def map_of_put_key)

lemma running_put:
  "running_units (b\<lparr>pb_units := put_key name u (pb_units b)\<rparr>) =
     (if pu_exited u then running_units b - {name} else insert name (running_units b))"
  by (auto simp: set_eq_iff running_units_iff)

lemma running_proc_exit:
  "lookup_unit name b = Some u \<Longrightarrow> running_units (proc_exit name (pu_pid u) b) = running_units b - {name}"
  by (simp add: proc_exit_def running_put)

lemma units_distinct_start:
  "units_distinct b \<Longrightarrow> proc_start pv spec b = (r, calls, b') \<Longrightarrow> units_distinct b'"
  by (auto simp: proc_start_def units_distinct_def Let_def distinct_put_key
      split: if_splits sum.splits option.splits)

lemma start_running:
  assumes "proc_start pv spec b = (r, calls, b')"
  shows "r \<noteq> StartUncertain" "r = StartNotStarted \<Longrightarrow> b' = b"
    "r = StartOk \<Longrightarrow> sp_unit_name spec \<notin> running_units b \<and>
       running_units b' = insert (sp_unit_name spec) (running_units b)"
  using assms
  by (auto simp: proc_start_def Let_def running_put unit_running_iff split: if_splits sum.splits option.splits)

lemma ps_lines_valid:
  "ps_lines pgid ls alive = (a, True) \<longleftrightarrow>
     (\<forall>l \<in> set ls. length (Go_Strings.fields l) = 2 \<and> parse_int64 (Go_Strings.fields l ! 0) \<noteq> None) \<and>
     a = (alive \<or> (\<exists>l \<in> set ls. parse_int64 (Go_Strings.fields l ! 0) = Some pgid \<and>
                     \<not> has_prefix (Go_Strings.fields l ! 1) ''Z''))"
  by (induction pgid ls alive arbitrary: a rule: ps_lines.induct)
    (auto simp: Let_def split: option.splits if_splits)

section \<open>Properties\<close>

text \<open>C22: A stop that reports success leaves no process of the unit running, and it kills only after
  asking: \<open>SIGKILL\<close> follows a \<open>SIGTERM\<close> to the same group that the group outlived. A stop that fails
  keeps the unit registered, so a later one can try again.\<close>

theorem process_stop_confirms:
  assumes "proc_stop pk name b = (r, sigs, b')"
  shows "(r = ProcOk \<longrightarrow> running_units b' = running_units b - {name}) \<and>
    (r \<noteq> ProcOk \<longrightarrow> b' = b) \<and>
    (\<forall>g. SigKill g \<in> set sigs \<longrightarrow> sigs = [SigTerm g, SigKill g] \<and> pk_first pk \<noteq> PickExited \<and>
       (\<exists>u. lookup_unit name b = Some u \<and> pu_pid u = g \<and> \<not> pu_exited u))"
proof (cases "pk_ctx_err pk \<or> pk_sem_ctx pk")
  case True
  then show ?thesis using assms by (auto simp: proc_stop_def)
next
  case ctx: False
  show ?thesis
  proof (cases "\<exists>u. lookup_unit name b = Some u \<and> \<not> pu_exited u")
    case False
    then have "r = ProcOk" "sigs = []" "b' = b"
      using assms ctx by (auto simp: proc_stop_def split: option.splits if_splits)
    moreover have "running_units b - {name} = running_units b" using False by (auto simp: set_eq_iff running_units_iff)
    ultimately show ?thesis by simp
  next
    case True
    then obtain u where u: "lookup_unit name b = Some u" "\<not> pu_exited u" by blast
    have gone: "running_units (proc_exit name (pu_pid u) b) = running_units b - {name}"
      using u(1) by (rule running_proc_exit)
    have "proc_stop pk name b =
        (if pk_term pk = KillErr then (ProcSignalErr, [SigTerm (pu_pid u)], b)
         else case pk_first pk of
            PickExited \<Rightarrow> (ProcOk, [SigTerm (pu_pid u)], proc_exit name (pu_pid u) b)
          | PickContext \<Rightarrow> (ProcCtx, [SigTerm (pu_pid u), SigKill (pu_pid u)], b)
          | PickTimer \<Rightarrow>
              if pk_kill pk = KillErr then (ProcSignalErr, [SigTerm (pu_pid u), SigKill (pu_pid u)], b)
              else if pk_second pk = PickExited
                then (ProcOk, [SigTerm (pu_pid u), SigKill (pu_pid u)], proc_exit name (pu_pid u) b)
              else (ProcCtx, [SigTerm (pu_pid u), SigKill (pu_pid u)], b))"
      using u ctx by (simp add: proc_stop_def Let_def)
    then show ?thesis
      unfolding assms using u gone by (simp split: if_splits pick.splits)
  qed
qed

definition demo_backend :: pbackend where
  "demo_backend = \<lparr>pb_env = Inr [], pb_stop = 30 * second, pb_units = [(''u'', \<lparr>pu_pid = 7, pu_exited = False\<rparr>)]\<rparr>"

definition demo_stop :: proc_stop_env where
  "demo_stop = \<lparr>pk_ctx_err = False, pk_sem_ctx = False, pk_term = KillOk, pk_first = PickTimer,
     pk_kill = KillOk, pk_second = PickExited\<rparr>"

theorem process_stop_confirms_witness:
  "\<exists>b'. proc_stop demo_stop ''u'' demo_backend = (ProcOk, [SigTerm 7, SigKill 7], b') \<and>
     running_units b' = running_units demo_backend - {''u''}"
proof -
  have "proc_stop demo_stop ''u'' demo_backend =
      (ProcOk, [SigTerm 7, SigKill 7], proc_exit ''u'' 7 demo_backend)"
    by (simp add: proc_stop_def demo_stop_def demo_backend_def lookup_unit_def)
  then show ?thesis using process_stop_confirms by blast
qed

text \<open>C23: A process group is taken for gone only on proof: the signal probe found no group, or \<open>ps\<close>
  succeeded, every line of its output is well formed, and no line shows a member of the group that
  is not a zombie.\<close>

theorem group_exit_proven:
  "group_gone pgid (esrch, out) \<longleftrightarrow> esrch \<or>
     (\<exists>s. out = Some s \<and>
       (\<forall>l \<in> set (split_byte newline (trim_space s)). \<exists>g st. Go_Strings.fields l = [g, st] \<and>
          parse_int64 g \<noteq> None \<and> (parse_int64 g = Some pgid \<longrightarrow> has_prefix st ''Z'')))"
proof (cases out)
  case (Some s)
  let ?ls = "split_byte newline (trim_space s)"
  have two: "length (Go_Strings.fields l) = 2 \<longleftrightarrow> (\<exists>g st. Go_Strings.fields l = [g, st])" for l
    by (auto simp: length_Suc_conv eval_nat_numeral)
  have "group_gone pgid (esrch, out) \<longleftrightarrow> esrch \<or> ps_lines pgid ?ls False = (False, True)"
    using Some by (auto simp: group_gone_def split: prod.splits)
  also have "ps_lines pgid ?ls False = (False, True) \<longleftrightarrow>
      (\<forall>l \<in> set ?ls. \<exists>g st. Go_Strings.fields l = [g, st] \<and>
          parse_int64 g \<noteq> None \<and> (parse_int64 g = Some pgid \<longrightarrow> has_prefix st ''Z''))"
    unfolding ps_lines_valid two by fastforce
  finally show ?thesis using Some by simp
qed (simp add: group_gone_def)

theorem group_exit_proven_witness:
  "\<not> group_gone 7 (False, Some ''7 S'') \<and> group_gone 7 (False, Some ''7 Z'')"
proof -
  have f: "Go_Strings.fields ''7 S'' = [''7'', ''S'']" "Go_Strings.fields ''7 Z'' = [''7'', ''Z'']" by code_simp+
  have t: "split_byte newline (trim_space ''7 S'') = [''7 S'']" "split_byte newline (trim_space ''7 Z'') = [''7 Z'']"
    by code_simp+
  have p: "parse_int64 ''7'' = Some 7"
    by (simp add: parse_int64_def decimal_value_def digit_val_def is_digit_def has_prefix_def less_eq_char_def)
  show ?thesis
    unfolding group_exit_proven [of 7 False "Some ''7 S''"] group_exit_proven [of 7 False "Some ''7 Z''"]
    by (simp add: f t p has_prefix_def)
qed

end
