(* ===== verification/Launch.thy ===== *)
theory Launch
  imports Process Systemd_Properties Slot_Properties
begin

text \<open>
  The contract between \<open>slot.Table\<close> and a \<open>runner.Backend\<close> for launches: what the outcome of
  \<open>Backend.Start\<close> says about the units running on the host. The interface is a locale; both backends
  of the repository provide it, and the slot table, as its client, leaves no launched unit without
  a watched record.
\<close>

section \<open>Launch calls of the table\<close>

definition start_calls :: "effect list \<Rightarrow> (ptr \<times> runner_spec) list" where
  "start_calls es = concat (map (\<lambda>e. case e of BackendStart p sp \<Rightarrow> [(p, sp)] | _ \<Rightarrow> []) es)"

lemma start_calls_simps [simp]:
  "start_calls [] = []" "start_calls (es @ fs) = start_calls es @ start_calls fs"
  "start_calls (BackendStart p sp # es) = (p, sp) # start_calls es"
  "start_calls (BackendStop op u # es) = start_calls es"
  "start_calls (EmitEvent ev s # es) = start_calls es"
  "start_calls (CompletionHook p c # es) = start_calls es"
  "start_calls (StartObserved d # es) = start_calls es"
  "start_calls (DiagHook s # es) = start_calls es"
  "start_calls (UnlinkCredentials a # es) = start_calls es"
  "start_calls (RemoveJit a # es) = start_calls es"
  "start_calls (RemoveAll a # es) = start_calls es"
  by (simp_all add: start_calls_def)

lemma start_calls_wipe: "wipe we t s = (es, ok) \<Longrightarrow> start_calls es = []"
  by (auto simp: wipe_def Let_def split: if_splits)

lemma start_calls_emit [simp]: "start_calls (t_out (emit ev s t)) = start_calls (t_out t)"
  by (simp add: emit_def)

lemma start_calls_act [simp]: "start_calls (t_out (act a t)) = start_calls (t_out t)"
  by (cases a) (auto simp: set_desired_def mark_busy_def claim_def mark_result_def clean_end_def
      store_sample_def watch_exit_def observe_launched_def observe_exit_def Let_def close_table_def start_calls_wipe
      split: option.split prod.split)

lemma start_calls_run [simp]: "start_calls (t_out (run as t)) = start_calls (t_out t)"
  by (induction as arbitrary: t) simp_all

lemma start_calls_start_fail [simp]: "start_calls (t_out (start_fail p se t)) = start_calls (t_out t)"
  by (simp add: start_fail_def clean_def Let_def)

text \<open>A record the table keeps and a goroutine watches.\<close>

definition tracked :: "ptr \<Rightarrow> string \<Rightarrow> table \<Rightarrow> bool" where
  "tracked p unit t \<longleftrightarrow>
     (s_id (t_heap t p), p) \<in> set (t_slots t) \<and> live (s_state (t_heap t p)) \<and> p \<in> set (t_watch t) \<and>
     s_unit (t_heap t p) = unit"

text \<open>A launch that reaches the backend asks it for the unit of its record.\<close>

lemma launch_calls:
  assumes "start_calls (t_out (snd (launch p t0 name se t))) = start_calls (t_out t) @ [(q, spec)]"
  shows "\<not> se_write_err se \<and> q = p \<and>
    spec = spec_of (upd_rec p (\<lambda>r. r\<lparr>s_runner_name := name, s_jit_path := jit_path t (s_id r)\<rparr>) t) p"
proof -
  define t1 where "t1 = upd_rec p (\<lambda>r. r\<lparr>s_runner_name := name, s_jit_path := jit_path t (s_id r)\<rparr>) t"
  define t2 where "t2 = run (se_launch se) t1"
  have out: "start_calls (t_out t2) = start_calls (t_out t)" by (simp add: t2_def t1_def)
  have ne: "\<not> se_write_err se" using assms out
    by (auto simp: launch_def Let_def t1_def [symmetric] t2_def [symmetric])
  have "q = p \<and> spec = spec_of t1 p"
    using assms ne out by (cases "se_start se")
      (auto simp: launch_def Let_def t1_def [symmetric] t2_def [symmetric] split: if_splits)
  with ne show ?thesis by (simp add: t1_def)
qed

lemma launch_tracks:
  assumes inv: "table_inv t" and pr: "provisioning p t"
    and calls: "start_calls (t_out (snd (launch p t0 name se t))) = start_calls (t_out t) @ [(q, spec)]"
  shows "q = p \<and> (se_start se \<noteq> StartNotStarted \<longrightarrow> tracked p (sp_unit_name spec) (snd (launch p t0 name se t)))"
proof -
  define t1 where "t1 = upd_rec p (\<lambda>r. r\<lparr>s_runner_name := name, s_jit_path := jit_path t (s_id r)\<rparr>) t"
  define t2 where "t2 = run (se_launch se) t1"
  have i1: "table_inv t1" unfolding t1_def
    using inv_step_upd_rec [OF inv, of p "\<lambda>r. r\<lparr>s_runner_name := name, s_jit_path := jit_path t (s_id r)\<rparr>"]
    by (auto simp: inv_step_def rec_ok_def keeps_identity_def)
  have "provisioning p t1" using pr unfolding t1_def by (rule provisioning_name)
  then have pr2: "provisioning p t2" and pr1: "p < t_next t1"
    unfolding t2_def using i1 provisioning_run by (auto simp: provisioning_def)
  have u: "s_unit (t_heap t2 p) = s_unit (t_heap t1 p)"
    using evolves_recD [OF good_step_evolvesD [OF good_step_run [OF i1, of "se_launch se"]] pr1]
    by (simp add: t2_def rec_evolves_def)
  have ne: "\<not> se_write_err se" and "q = p \<and> spec = spec_of t1 p"
    using launch_calls [OF calls] by (simp_all add: t1_def)
  then show ?thesis
    using ne pr2 u by (cases "se_start se")
      (auto simp: launch_def Let_def t1_def [symmetric] t2_def [symmetric] tracked_def provisioning_def spec_of_def)
qed

lemma start_one_cases:
  assumes inv: "table_inv t"
  shows "start_calls (t_out (snd (start_one se t))) = start_calls (t_out t) \<or>
    (\<exists>p t0 name t4. table_inv t4 \<and> provisioning p t4 \<and> start_calls (t_out t4) = start_calls (t_out t) \<and>
       evolves t t4 \<and> s_dir (t_heap t4 p) \<in> set (t_dirs t4) \<and> start_one se t = launch p t0 name se t4)"
proof -
  define t1 where "t1 = run (se_gated se) t"
  have i1: "table_inv t1" unfolding t1_def using good_step_invD [OF good_step_run [OF inv]] .
  show ?thesis
  proof (cases "se_allowed se \<and> se_gate se (active t) \<and> \<not> t_closed t1")
    case False
    then show ?thesis by (auto simp: start_one_def Let_def t1_def)
  next
    case go: True
    show ?thesis
    proof (cases "next_id t1")
      case None
      with go show ?thesis by (simp add: start_one_def Let_def t1_def)
    next
      case (Some i)
      define r where "r = new_slot_rec (candidate_slot se t1 i) (t_now t1)"
      define t2 where "t2 = add_rec r t1"
      define t3 where "t3 = run (se_reserved se) t2"
      define t3' where "t3' = t3\<lparr>t_dirs := s_dir (t_heap t3 (t_next t1)) # t_dirs t3\<rparr>"
      define t4 where "t4 = run (se_provision se) t3'"
      have fr: "fresh_rec t1 r" unfolding r_def using Some by (rule fresh_rec_candidate)
      have i2: "table_inv t2" unfolding t2_def using i1 fr by (rule table_inv_add_rec)
      have pr2: "provisioning (t_next t1) t2"
        using fr i1 add_rec_slots [OF fr] by (auto simp: provisioning_def t2_def r_def table_inv_def watch_ok_def)
      have i3: "table_inv t3'" unfolding t3'_def t3_def using good_step_invD [OF good_step_run [OF i2]] by simp
      have pr3: "provisioning (t_next t1) t3'"
        using provisioning_run [OF i2 pr2, of "se_reserved se"] by (simp add: t3'_def t3_def provisioning_def)
      with i3 have "table_inv t4" and pr4: "provisioning (t_next t1) t4"
        unfolding t4_def using good_step_invD [OF good_step_run [OF i3]] provisioning_run by blast+
      have "evolves t3 t3'" by (rule evolves_heap_same) (simp_all add: t3'_def)
      then have "evolves t t4"
        using good_step_evolvesD [OF good_step_run [OF inv, of "se_gated se"]]
          good_step_evolvesD [OF good_step_run [OF i2, of "se_reserved se"]]
          good_step_evolvesD [OF good_step_run [OF i3, of "se_provision se"]]
          grow_step_add_rec [OF i1 fr]
        unfolding t1_def [symmetric] t2_def [symmetric] t3_def [symmetric] t4_def [symmetric] grow_step_def
        by (blast intro: evolves_trans)
      moreover have "s_dir (t_heap t4 (t_next t1)) \<in> set (t_dirs t4)"
        unfolding t4_def using i3 pr3
        by (rule provisioning_dir_run) (simp add: t3'_def)
      moreover note \<open>table_inv t4\<close> pr4
      moreover have "start_calls (t_out t4) = start_calls (t_out t)"
        by (simp add: t4_def t3'_def t3_def t2_def t1_def)
      moreover have "start_one se t = launch (t_next t1) (t_now t1) name se t4"
        if "se_jit se = Some name" "\<not> se_materialize_err se" "\<not> se_mkdir_err se"
          "s_dir (t_heap t3 (t_next t1)) \<notin> set (t_dirs t3)" for name
        using go Some that by (simp add: start_one_def Let_def t1_def [symmetric] r_def [symmetric]
            t2_def [symmetric] t3_def [symmetric] t3'_def [symmetric] t4_def [symmetric])
      moreover have "start_calls (t_out (snd (start_one se t))) = start_calls (t_out t)"
        if "se_jit se = None \<or> se_materialize_err se \<or> se_mkdir_err se \<or>
          s_dir (t_heap t3 (t_next t1)) \<in> set (t_dirs t3)"
        using go Some that by (auto simp: start_one_def Let_def t1_def [symmetric] r_def [symmetric]
            t2_def [symmetric] t3_def [symmetric]) (simp_all add: t3_def t2_def t1_def)
      ultimately show ?thesis by (metis not_Some_eq)
    qed
  qed
qed

lemma start_one_tracks:
  assumes "table_inv t" "start_calls (t_out (snd (start_one se t))) = start_calls (t_out t) @ [(p, spec)]"
    and "se_start se \<noteq> StartNotStarted"
  shows "tracked p (sp_unit_name spec) (snd (start_one se t))"
  using start_one_cases [OF assms(1), of se] assms(2,3) launch_tracks by fastforce

text \<open>A launch that does not succeed.\<close>

lemma launch_fails:
  assumes inv: "table_inv t" and pr: "provisioning p t" and dir: "s_dir (t_heap t p) \<in> set (t_dirs t)"
    and n: "n \<le> length (t_out t)" and se: "se_start se \<noteq> StartOk"
    and calls: "start_calls (t_out (snd (launch p t0 name se t))) = start_calls (t_out t) @ [(q, spec)]"
  defines "t' \<equiv> snd (launch p t0 name se t)"
  shows "q = p \<and> fst (launch p t0 name se t) = None \<and>
    sp_unit_name spec = s_unit (t_heap t' p) \<and> sp_slot_dir spec = s_dir (t_heap t' p) \<and>
    (se_start se = StartUncertain \<longrightarrow>
       minded p t' \<and> s_dir (t_heap t' p) \<in> set (t_dirs t')) \<and>
    (se_start se = StartNotStarted \<longrightarrow>
       p < t_next t' \<and> r_cleanup_pending (t_heap t' p) \<and>
       (kept p t' \<and> s_dir (t_heap t' p) \<in> set (t_dirs t') \<or> released n p t') \<and>
       (\<forall>we as. se_cleaning se = ACleanEnd p we # as \<and> wipe_succeeds we \<longrightarrow> released n p t'))"
proof -
  define t1 where "t1 = upd_rec p (\<lambda>r. r\<lparr>s_runner_name := name, s_jit_path := jit_path t (s_id r)\<rparr>) t"
  define t2 where "t2 = run (se_launch se) t1"
  define t3 where "t3 = perform [BackendStart p (spec_of t1 p)] t2"
  have i1: "table_inv t1" unfolding t1_def
    using inv_step_upd_rec [OF inv, of p "\<lambda>r. r\<lparr>s_runner_name := name, s_jit_path := jit_path t (s_id r)\<rparr>"]
    by (auto simp: inv_step_def rec_ok_def keeps_identity_def)
  have pr1: "provisioning p t1" using pr unfolding t1_def by (rule provisioning_name)
  then have p1: "p < t_next t1" by (simp add: provisioning_def)
  have i2: "table_inv t2" unfolding t2_def using good_step_invD [OF good_step_run [OF i1]] .
  then have i3: "table_inv t3" unfolding t3_def by (rule table_inv_perform) simp
  have pr2: "provisioning p t2" unfolding t2_def using i1 pr1 by (rule provisioning_run)
  have d2: "s_dir (t_heap t2 p) \<in> set (t_dirs t2)"
    unfolding t2_def using i1 pr1 by (rule provisioning_dir_run) (use dir in \<open>simp add: t1_def\<close>)
  have e2: "evolves t1 t2" unfolding t2_def using good_step_evolvesD [OF good_step_run [OF i1]] .
  have ids: "s_unit (t_heap t2 p) = s_unit (t_heap t1 p)" "s_dir (t_heap t2 p) = s_dir (t_heap t1 p)"
    using evolves_recD [OF e2 p1] by (simp_all add: rec_evolves_def)
  have n2: "n \<le> length (t_out t2)" using e2 n by (auto simp: evolves_def t1_def)
  have ne: "\<not> se_write_err se" and sp: "q = p \<and> spec = spec_of t1 p"
    using launch_calls [OF calls] by (simp_all add: t1_def)
  have k2: "kept p t2" "p < t_next t2" using pr2 i2 by (auto simp: provisioning_def kept_def slots_ok_lookup table_inv_slotsD)
  show ?thesis
  proof (cases "se_start se")
    case StartUncertain
    have l: "fst (launch p t0 name se t) = None" "t_heap t' = (t_heap t2)(p := (t_heap t2 p)\<lparr>s_state := StateBusy\<rparr>)"
      "t_slots t' = t_slots t2" "t_dirs t' = t_dirs t2" "t_watch t' = p # t_watch t2" "t_next t' = t_next t2"
      using ne StartUncertain
      by (simp_all add: t'_def launch_def Let_def t1_def [symmetric] t2_def [symmetric])
    with StartUncertain sp ids d2 k2 pr2 show ?thesis
      by (simp add: minded_def kept_def spec_of_def provisioning_def)
  next
    case StartNotStarted
    have l: "launch p t0 name se t = (None, start_fail p se t3)"
      using ne StartNotStarted
      by (simp add: launch_def Let_def t1_def [symmetric] t2_def [symmetric] t3_def)
    define t4 where "t4 = upd_rec p (\<lambda>r. r\<lparr>s_state := StateStopping\<rparr>) t3"
    define t5 where "t5 = emit EventAcquireFailure (slot.truncate (t_heap t4 p)) t4"
    have i5: "table_inv t5" unfolding t5_def t4_def
      using inv_step_upd_rec [OF i3, of p "\<lambda>r. r\<lparr>s_state := StateStopping\<rparr>"]
      by (auto simp: inv_step_def rec_ok_def keeps_identity_def)
    have h5: "s_state (t_heap t5 p) = StateStopping" "s_dir (t_heap t5 p) = s_dir (t_heap t2 p)"
      "s_unit (t_heap t5 p) = s_unit (t_heap t2 p)" "t_dirs t5 = t_dirs t2" "kept p t5" "p < t_next t5"
      "n \<le> length (t_out t5)"
      using k2 n2 by (simp_all add: t5_def t4_def t3_def kept_def)
    have t': "t' = clean p (se_cleaning se) t5" by (simp add: t'_def l start_fail_def Let_def t5_def t4_def)
    note c = clean_settles [OF i5 h5(1,5,7,6), of "se_cleaning se", folded t']
    have "rec_evolves (t_heap t5 p) (t_heap t' p)"
      using evolves_recD [OF good_step_evolvesD [OF good_step_clean [OF i5 h5(1)]] h5(6)] t' by simp
    then have "s_unit (t_heap t' p) = s_unit (t_heap t5 p)" "s_dir (t_heap t' p) = s_dir (t_heap t5 p)"
      by (simp_all add: rec_evolves_def)
    moreover have "kept p t' \<and> s_dir (t_heap t' p) \<in> set (t_dirs t') \<or> released n p t'"
      using c(1,3) d2 h5 by (auto simp: settled_def)
    moreover have "released n p t'" if "se_cleaning se = ACleanEnd p we # as" "wipe_succeeds we" for we as
      using clean_settles(4) [OF i5 h5(1,5,7,6) that] t' by simp
    ultimately show ?thesis using l sp ids h5 c(1,2) StartNotStarted
      by (simp add: spec_of_def settled_def)
  qed (use se in simp)
qed

section \<open>The interface\<close>

text \<open>\<open>launch_unit\<close> is \<open>Backend.Start\<close> over the state of a host, \<open>up\<close> the units whose processes exist.\<close>

locale launcher =
  fixes launch_unit :: "'e \<Rightarrow> runner_spec \<Rightarrow> 'b \<Rightarrow> start_result \<times> 'b"
    and up :: "'b \<Rightarrow> string set"
  assumes not_started: "launch_unit e spec b = (StartNotStarted, b') \<Longrightarrow> up b' = up b"
    and only_own_unit: "launch_unit e spec b = (r, b') \<Longrightarrow> up b' \<subseteq> insert (sp_unit_name spec) (up b) \<and> up b \<subseteq> up b'"
    and started: "launch_unit e spec b = (StartOk, b') \<Longrightarrow> sp_unit_name spec \<in> up b'"
begin

lemma new_unit: "launch_unit e spec b = (r, b') \<Longrightarrow> u \<in> up b' - up b \<Longrightarrow> u = sp_unit_name spec \<and> r \<noteq> StartNotStarted"
  using only_own_unit not_started by (cases r) fastforce+

text \<open>The client's lemma: a start of the table whose outcome is the backend's answer to its launch call
  tracks whatever came up on the host.\<close>

lemma no_orphan:
  assumes "table_inv t" "start_calls (t_out (snd (start_one se t))) = start_calls (t_out t) @ [(p, spec)]"
    and "launch_unit e spec b = (se_start se, b')" "u \<in> up b' - up b"
  shows "tracked p u (snd (start_one se t))"
  using new_unit [OF assms(3,4)] start_one_tracks [OF assms(1,2)] by simp

end

section \<open>Its providers\<close>

definition proc_launch :: "proc_start_env \<Rightarrow> runner_spec \<Rightarrow> pbackend \<Rightarrow> start_result \<times> pbackend" where
  "proc_launch pv spec b = (let (r, calls, b') = proc_start pv spec b in (r, b'))"

text \<open>A host under systemd: the backend and the units the manager runs. Whether a \<open>systemd-run\<close> that did
  not report success left its unit running is up to the manager.\<close>

definition sd_ran :: "sd_call list \<Rightarrow> bool" where
  "sd_ran calls \<longleftrightarrow> list_ex (\<lambda>c. case c of SystemdRun bin args \<Rightarrow> True | _ \<Rightarrow> False) calls"

definition sd_launch ::
  "sd_start_env \<times> bool \<Rightarrow> runner_spec \<Rightarrow> backend \<times> string set \<Rightarrow> start_result \<times> backend \<times> string set" where
  "sd_launch e spec h =
     (let (r, calls, b') = sd_start (fst e) spec (fst h)
      in (r, b', if sd_ran calls \<and> (r = StartOk \<or> snd e) then insert (sp_unit_name spec) (snd h) else snd h))"

interpretation proc: launcher proc_launch running_units
proof
  fix e spec b b' and r :: start_result
  show "proc_launch e spec b = (StartNotStarted, b') \<Longrightarrow> running_units b' = running_units b"
    "proc_launch e spec b = (StartOk, b') \<Longrightarrow> sp_unit_name spec \<in> running_units b'"
    using start_running [of e spec b] by (auto simp: proc_launch_def split: prod.splits)
  show "proc_launch e spec b = (r, b') \<Longrightarrow>
      running_units b' \<subseteq> insert (sp_unit_name spec) (running_units b) \<and> running_units b \<subseteq> running_units b'"
    using start_running [of e spec b] by (cases r) (auto simp: proc_launch_def split: prod.splits)
qed

lemma sd_start_ran:
  "sd_start sv spec b = (r, calls, b') \<Longrightarrow> sd_ran calls \<longleftrightarrow> r \<noteq> StartNotStarted"
  by (auto simp: sd_start_def sd_ran_def Let_def split: if_splits option.splits sum.splits prod.splits)

interpretation systemd: launcher sd_launch snd
  by unfold_locales (auto simp: sd_launch_def Let_def split: prod.splits if_splits dest!: sd_start_ran)

section \<open>Properties\<close>

text \<open>C4: No launch leaves an orphan: whichever backend the daemon uses, every unit that comes up on the host
  because of a start of the slot table belongs, when the start returns, to a record the table keeps
  as live and a goroutine watches, whatever the backend answered and whatever the other goroutines
  did meanwhile.\<close>

theorem no_orphan_runner:
  assumes "table_inv t" "start_calls (t_out (snd (start_one se t))) = start_calls (t_out t) @ [(p, spec)]"
  shows "(\<forall>pv b b' u. proc_launch pv spec b = (se_start se, b') \<and> u \<in> running_units b' - running_units b \<longrightarrow>
       tracked p u (snd (start_one se t))) \<and>
    (\<forall>e h b' ups u. sd_launch e spec h = (se_start se, b', ups) \<and> u \<in> ups - snd h \<longrightarrow>
       tracked p u (snd (start_one se t)))"
  using proc.no_orphan [OF assms] systemd.no_orphan [OF assms] by fastforce

definition demo_proc_env :: proc_start_env where
  "demo_proc_env = \<lparr>pv_ctx_err = False, pv_env_text = None,
     pv_identity = Some \<lparr>id_uid = 1, id_gid = 1, id_home = ''/h'', id_cred = None\<rparr>, pv_sem_ctx = False,
     pv_jit = Some ''j'', pv_credential = Some ''/s/0001/.jit-1'', pv_write_err = False, pv_close_err = False,
     pv_prepare_ok = True, pv_ctx_err2 = False, pv_pid = Some 7, pv_environ = []\<rparr>"

lemma demo_launch:
  assumes "trim_space (sp_unit_name spec) \<noteq> []" "sp_env_file spec = []"
  shows "\<exists>b'. proc_launch demo_proc_env spec (new_process [] None None) = (StartOk, b') \<and>
    sp_unit_name spec \<in> running_units b' - running_units (new_process [] None None)"
  using assms
  by (simp add: proc_launch_def proc_start_def demo_proc_env_def new_process_def Let_def running_units_iff
      unit_running_def lookup_unit_def split: option.split)

lemma trim_space_unit: "trim_space (unit_name ns i) \<noteq> []"
  by (simp add: trim_space_id unit_name_def is_space_def)

text \<open>A start on an empty table that the outside lets reach the backend.\<close>

lemma demo_start_calls:
  assumes sm: "smooth_start (se\<lparr>se_start := StartOk\<rparr>)"
  shows "\<exists>i spec. start_calls (t_out (snd (start_one se empty_table))) = start_calls (t_out empty_table) @ [(0, spec)] \<and>
    sp_unit_name spec = unit_name ''default'' i \<and> sp_env_file spec = []"
proof -
  obtain i where i: "next_id empty_table = Some i"
    using next_id_exists [of empty_table] by (auto simp: max_slot_id_def)
  define t where "t = (add_rec (new_slot_rec (candidate_slot se empty_table i) 1) empty_table)
    \<lparr>t_dirs := [slot_dir empty_table i]\<rparr>"
  obtain name where so: "start_one se empty_table = launch 0 1 name se t"
    using start_one_launch [OF sm _ i] by (auto simp: t_def)
  define spec where "spec = spec_of (upd_rec 0 (\<lambda>r. r\<lparr>s_runner_name := name, s_jit_path := jit_path t (s_id r)\<rparr>) t) 0"
  have "sp_unit_name spec = unit_name ''default'' i" "sp_env_file spec = []"
    by (simp_all add: spec_def spec_of_def t_def candidate_slot_def)
      (simp add: empty_table_def new_table_def apply_options_def default_options_def Let_def)
  moreover have "\<not> se_write_err se" "se_launch se = []" using sm by (simp_all add: smooth_start_def)
  then have "start_calls (t_out (snd (start_one se empty_table))) = start_calls (t_out empty_table) @ [(0, spec)]"
    unfolding so spec_def by (cases "se_start se") (simp_all add: launch_def Let_def t_def)
  ultimately show ?thesis by blast
qed

theorem no_orphan_runner_witness:
  "\<exists>p i. tracked p (unit_name ''default'' i) (snd (start_one smooth empty_table))"
proof -
  have sm: "smooth_start (smooth\<lparr>se_start := StartOk\<rparr>)" "se_start smooth = StartOk"
    by (simp_all add: smooth_start_def smooth_def)
  obtain i spec where calls:
    "start_calls (t_out (snd (start_one smooth empty_table))) = start_calls (t_out empty_table) @ [(0, spec)]"
    and spec: "sp_unit_name spec = unit_name ''default'' i" "sp_env_file spec = []"
    using demo_start_calls [OF sm(1)] by blast
  obtain b' where b': "proc_launch demo_proc_env spec (new_process [] None None) = (StartOk, b')"
    "sp_unit_name spec \<in> running_units b' - running_units (new_process [] None None)"
    using demo_launch spec trim_space_unit by metis
  with no_orphan_runner [OF _ calls] sm(2) have "tracked 0 (sp_unit_name spec) (snd (start_one smooth empty_table))"
    by simp
  with spec show ?thesis by metis
qed

section \<open>Starts that do not succeed\<close>

text \<open>C15: A start the backend was asked for and that did not succeed never stops anything, returns no
  slot ID, and keeps the record it made under the unit and directory it asked the backend for,
  whatever the other goroutines do at any point of it. When the backend cannot say whether the unit
  runs, the slot is kept: listed, busy, watched, not in cleanup, with its directory. When the backend
  says that the unit did not start, the slot is stopping and in cleanup, so it no longer counts as
  live; it keeps its ID as long as its directory is there, the ID is free only after a worker removed
  the directory, and both have happened when the worker ends well while the start waits for it.\<close>

theorem failed_start_kept:
  assumes "table_inv t" "start_one se t = (r, t')" "se_start se \<noteq> StartOk"
    and "start_calls (t_out t') = start_calls (t_out t) @ [(p, spec)]"
  shows "r = None \<and> stop_calls (t_out t') = stop_calls (t_out t) \<and>
    sp_unit_name spec = s_unit (t_heap t' p) \<and> sp_slot_dir spec = s_dir (t_heap t' p) \<and>
    (se_start se = StartUncertain \<longrightarrow>
       kept p t' \<and> s_state (t_heap t' p) = StateBusy \<and> p \<in> set (t_watch t') \<and>
       \<not> r_cleanup_pending (t_heap t' p) \<and> s_dir (t_heap t' p) \<in> set (t_dirs t')) \<and>
    (se_start se = StartNotStarted \<longrightarrow>
       s_state (t_heap t' p) = StateStopping \<and> r_cleanup_pending (t_heap t' p) \<and>
       (kept p t' \<and> s_dir (t_heap t' p) \<in> set (t_dirs t') \<or> released (length (t_out t)) p t') \<and>
       (\<forall>we as. se_cleaning se = ACleanEnd p we # as \<and> wipe_succeeds we \<longrightarrow>
          released (length (t_out t)) p t'))"
proof -
  have inv: "table_inv t'" using start_step_invD [OF start_step_start_one [OF assms(1), of se]] assms(2) by simp
  have st: "stop_calls (t_out t') = stop_calls (t_out t)" using stop_calls_start_one [of se t] assms(2) by simp
  from start_one_cases [OF assms(1), of se] assms(2,4) obtain q t0 name t4 where
    l: "table_inv t4" "provisioning q t4" "start_calls (t_out t4) = start_calls (t_out t)" "evolves t t4"
      "s_dir (t_heap t4 q) \<in> set (t_dirs t4)" "launch q t0 name se t4 = (r, t')" by auto
  have "length (t_out t) \<le> length (t_out t4)" using l(4) by (auto simp: evolves_def)
  from launch_fails [OF l(1,2,5) this assms(3), of t0 name p spec] l(3,6) assms(4)
    inv st table_inv_pending_stopping [OF inv, of p]
  show ?thesis by (auto simp: minded_def)
qed

definition launch_demo :: "start_result \<Rightarrow> start_env" where
  "launch_demo res = smooth\<lparr>se_start := res, se_cleaning :=
     [ACleanEnd 0 \<lparr>we_ctx1 = False, we_ctx2 = False, we_ctx3 = False, we_jit_err = False, we_remove_err = False\<rparr>]\<rparr>"

theorem failed_start_kept_witness:
  "(\<exists>r t'. start_one (launch_demo StartUncertain) empty_table = (r, t') \<and> kept 0 t' \<and>
      s_state (t_heap t' 0) = StateBusy) \<and>
   (\<exists>r t'. start_one (launch_demo StartNotStarted) empty_table = (r, t') \<and> released 0 0 t')"
proof -
  have sm: "smooth_start ((launch_demo res)\<lparr>se_start := StartOk\<rparr>)" for res
    by (simp add: launch_demo_def smooth_start_def smooth_def)
  have k: "kept 0 t' \<and> s_state (t_heap t' 0) = StateBusy"
    if so: "start_one (launch_demo StartUncertain) empty_table = (r, t')" for r t'
  proof -
    obtain spec where "start_calls (t_out (snd (start_one (launch_demo StartUncertain) empty_table))) =
        start_calls (t_out empty_table) @ [(0, spec)]" using demo_start_calls [OF sm] by blast
    from failed_start_kept [OF _ so _ this [unfolded so snd_conv]] show ?thesis by (simp add: launch_demo_def)
  qed
  have "released 0 0 t'"
    if so: "start_one (launch_demo StartNotStarted) empty_table = (r, t')" for r t'
  proof -
    obtain spec where "start_calls (t_out (snd (start_one (launch_demo StartNotStarted) empty_table))) =
        start_calls (t_out empty_table) @ [(0, spec)]" using demo_start_calls [OF sm] by blast
    from failed_start_kept [OF _ so _ this [unfolded so snd_conv]] show ?thesis by (simp add: launch_demo_def wipe_succeeds_def)
  qed
  with k show ?thesis by (metis surj_pair)
qed

end
