(* ===== verification/Archive_Names.thy ===== *)
theory Archive_Names
  imports Go_Strings
begin

text \<open>
  Names of diagnostic archives (package \<open>logship\<close>): the UTC stamp, the sanitised slot and runner names
  \<open>shipDiag\<close> composes a name from, and the pattern and the stamp by which \<open>Prune\<close> recognises and dates
  an archive.
\<close>

section \<open>Runes\<close>

text \<open>The decoding of UTF-8 that a \<open>range\<close> over a string performs: the next rune and its width; an
  invalid byte is the replacement rune of width one.\<close>

definition byte_in :: "string \<Rightarrow> nat \<Rightarrow> nat \<Rightarrow> nat \<Rightarrow> bool" where
  "byte_in s k lo hi \<longleftrightarrow> k < length s \<and> lo \<le> of_char (s ! k) \<and> of_char (s ! k) \<le> hi"

definition low6 :: "string \<Rightarrow> nat \<Rightarrow> nat" where
  "low6 s k = of_char (s ! k) mod 64"

definition decode_rune :: "string \<Rightarrow> nat \<times> nat" where
  "decode_rune s =
     (let b = of_char (hd s) in
      if b < 0x80 then (b, 1)
      else if 0xC2 \<le> b \<and> b \<le> 0xDF \<and> byte_in s 1 0x80 0xBF then ((b mod 32) * 64 + low6 s 1, 2)
      else if 0xE0 \<le> b \<and> b \<le> 0xEF \<and>
              byte_in s 1 (if b = 0xE0 then 0xA0 else 0x80) (if b = 0xED then 0x9F else 0xBF) \<and>
              byte_in s 2 0x80 0xBF
        then ((b mod 16) * 4096 + low6 s 1 * 64 + low6 s 2, 3)
      else if 0xF0 \<le> b \<and> b \<le> 0xF4 \<and>
              byte_in s 1 (if b = 0xF0 then 0x90 else 0x80) (if b = 0xF4 then 0x8F else 0xBF) \<and>
              byte_in s 2 0x80 0xBF \<and> byte_in s 3 0x80 0xBF
        then ((b mod 8) * 262144 + low6 s 1 * 4096 + low6 s 2 * 64 + low6 s 3, 4)
      else (0xFFFD, 1))"

lemma decode_rune_width: "0 < snd (decode_rune s)"
  by (simp add: decode_rune_def Let_def)

function runes :: "string \<Rightarrow> nat list" where
  "runes s = (if s = [] then [] else fst (decode_rune s) # runes (drop (snd (decode_rune s)) s))"
  by pat_completeness auto
termination
  by (relation "measure length") (auto simp: decode_rune_width)

declare runes.simps [simp del]

section \<open>Sanitised names\<close>

definition name_char :: "char \<Rightarrow> bool" where
  "name_char c \<longleftrightarrow> is_lower c \<or> is_upper c \<or> is_digit c \<or> c = CHR ''.'' \<or> c = CHR ''_'' \<or> c = CHR ''-''"

definition name_rune :: "nat \<Rightarrow> bool" where
  "name_rune r \<longleftrightarrow> r < 128 \<and> name_char (char_of r)"

definition sanitize :: "string \<Rightarrow> string \<times> bool" where
  "sanitize s =
     (map (\<lambda>r. if name_rune r then char_of r else CHR ''_'') (runes s), list_ex name_rune (runes s))"

text \<open>\<open>filepath.Base\<close>.\<close>

definition base_name :: "string \<Rightarrow> string" where
  "base_name p =
     (if p = [] then ''.''
      else let q = rev (dropWhile (\<lambda>c. c = CHR ''/'') (rev p)) in
           if q = [] then ''/''
           else case last_index_byte q (CHR ''/'') of None \<Rightarrow> q | Some k \<Rightarrow> drop (Suc k) q)"

section \<open>The stamp\<close>

text \<open>A UTC time of whole seconds, by calendar and clock.\<close>

record civil =
  cv_year :: nat
  cv_month :: nat
  cv_day :: nat
  cv_hour :: nat
  cv_min :: nat
  cv_sec :: nat

definition leap :: "nat \<Rightarrow> bool" where
  "leap y \<longleftrightarrow> 4 dvd y \<and> (\<not> 100 dvd y \<or> 400 dvd y)"

definition days_in :: "nat \<Rightarrow> nat \<Rightarrow> nat" where
  "days_in m y =
     (if m = 2 then (if leap y then 29 else 28) else if m \<in> {4, 6, 9, 11} then 30 else 31)"

definition civil_ok :: "civil \<Rightarrow> bool" where
  "civil_ok c \<longleftrightarrow>
     cv_year c \<le> 9999 \<and> 1 \<le> cv_month c \<and> cv_month c \<le> 12 \<and>
     1 \<le> cv_day c \<and> cv_day c \<le> days_in (cv_month c) (cv_year c) \<and>
     cv_hour c < 24 \<and> cv_min c < 60 \<and> cv_sec c < 60"

text \<open>Nanoseconds since the Unix epoch.\<close>

definition days_before_year :: "nat \<Rightarrow> int" where
  "days_before_year y =
     (let k = int y - 1 in 365 * k + k div 4 - k div 100 + k div 400)"

definition civil_time :: "civil \<Rightarrow> time" where
  "civil_time c =
     (let days = days_before_year (cv_year c) +
                 int (sum_list (map (\<lambda>m. days_in m (cv_year c)) [1..<cv_month c])) + int (cv_day c) - 1
                 - days_before_year 1970
      in (((days * 24 + int (cv_hour c)) * 60 + int (cv_min c)) * 60 + int (cv_sec c)) * second)"

text \<open>The last \<open>k\<close> decimal digits, most significant first.\<close>

fun pad_digits :: "nat \<Rightarrow> nat \<Rightarrow> string" where
  "pad_digits 0 n = []"
| "pad_digits (Suc k) n = pad_digits k (n div 10) @ [digit_char (n mod 10)]"

text \<open>\<open>Format("20060102T150405Z")\<close> and \<open>time.Parse\<close> with the same layout on 16 bytes.\<close>

definition format_stamp :: "civil \<Rightarrow> string" where
  "format_stamp c =
     pad_digits 4 (cv_year c) @ pad_digits 2 (cv_month c) @ pad_digits 2 (cv_day c) @ ''T'' @
     pad_digits 2 (cv_hour c) @ pad_digits 2 (cv_min c) @ pad_digits 2 (cv_sec c) @ ''Z''"

definition stamp_shape :: "string \<Rightarrow> bool" where
  "stamp_shape s \<longleftrightarrow>
     length s = 16 \<and> list_all is_digit (take 8 s) \<and> s ! 8 = CHR ''T'' \<and>
     list_all is_digit (take 6 (drop 9 s)) \<and> s ! 15 = CHR ''Z''"

definition parse_stamp :: "string \<Rightarrow> civil option" where
  "parse_stamp s =
     (let c = \<lparr>cv_year = decimal_value (take 4 s), cv_month = decimal_value (take 2 (drop 4 s)),
               cv_day = decimal_value (take 2 (drop 6 s)), cv_hour = decimal_value (take 2 (drop 9 s)),
               cv_min = decimal_value (take 2 (drop 11 s)), cv_sec = decimal_value (take 2 (drop 13 s))\<rparr>
      in if stamp_shape s \<and> civil_ok c then Some c else None)"

section \<open>Archive names\<close>

definition archive_prefix :: string where "archive_prefix = ''tentacles-diag-v1-''"
definition staging_prefix :: string where "staging_prefix = ''.tentacles-diag-staging-''"
definition archive_marker :: string where "archive_marker = ''.tentacles-archive''"
definition archive_marker_content :: string where
  "archive_marker_content = ''tentacles diagnostic archive v1'' @ [newline]"

definition hex_char :: "char \<Rightarrow> bool" where
  "hex_char c \<longleftrightarrow> is_digit c \<or> (CHR ''a'' \<le> c \<and> c \<le> CHR ''f'')"

text \<open>\<open>hex.EncodeToString\<close>.\<close>

definition hex_digit :: "nat \<Rightarrow> char" where
  "hex_digit n = (if n < 10 then digit_char n else char_of (87 + n))"

definition hex_encode :: "nat list \<Rightarrow> string" where
  "hex_encode bs = concat (map (\<lambda>b. [hex_digit (b div 16), hex_digit (b mod 16)]) bs)"

text \<open>The name \<open>shipDiag\<close> publishes an archive under.\<close>

definition archive_name :: "civil \<Rightarrow> string \<Rightarrow> string \<Rightarrow> string \<Rightarrow> string" where
  "archive_name now rid slot_dir_path runner =
     (let (slot_id, v) = sanitize (base_name (clean_path slot_dir_path));
          (name, valid) = sanitize runner
      in archive_prefix @ format_stamp now @ ''-'' @ rid @ ''-'' @ slot_id @ ''-'' @
         (if valid then name else ''unknown''))"

text \<open>\<open>archiveNamePattern\<close>, and the creation time \<open>inspectArchive\<close> reads from a name.\<close>

definition archive_name_ok :: "string \<Rightarrow> bool" where
  "archive_name_ok s \<longleftrightarrow>
     has_prefix s archive_prefix \<and>
     (let r = trim_prefix s archive_prefix in
      stamp_shape (take 16 r) \<and> length r > 50 \<and> r ! 16 = CHR ''-'' \<and>
      list_all hex_char (take 32 (drop 17 r)) \<and> r ! 49 = CHR ''-'' \<and> list_all name_char (drop 50 r))"

definition archive_created :: "string \<Rightarrow> civil option" where
  "archive_created name = parse_stamp (take 16 (trim_prefix name archive_prefix))"

section \<open>Facts\<close>

lemma length_pad_digits [simp]: "length (pad_digits k n) = k"
  by (induction k arbitrary: n) simp_all

lemma pad_digits_digits: "list_all is_digit (pad_digits k n)"
  by (induction k arbitrary: n) (simp_all add: is_digit_digit_char)

lemma decimal_value_pad_digits: "n < 10 ^ k \<Longrightarrow> decimal_value (pad_digits k n) = n"
  by (induction k arbitrary: n)
    (simp_all add: decimal_value_def digit_val_digit_char)

lemma days_in_le: "days_in m y \<le> 31"
  by (simp add: days_in_def)

lemma stamp_shape_format: "stamp_shape (format_stamp c)"
  using pad_digits_digits
  by (simp add: stamp_shape_def format_stamp_def nth_append take_append drop_append list_all_append)

lemma parse_format_stamp: "civil_ok c \<Longrightarrow> parse_stamp (format_stamp c) = Some c"
proof -
  assume c: "civil_ok c"
  then have d: "cv_day c \<le> 31" using days_in_le order_trans unfolding civil_ok_def by blast
  have parts: "take 4 (format_stamp c) = pad_digits 4 (cv_year c)"
    "take 2 (drop 4 (format_stamp c)) = pad_digits 2 (cv_month c)"
    "take 2 (drop 6 (format_stamp c)) = pad_digits 2 (cv_day c)"
    "take 2 (drop 9 (format_stamp c)) = pad_digits 2 (cv_hour c)"
    "take 2 (drop 11 (format_stamp c)) = pad_digits 2 (cv_min c)"
    "take 2 (drop 13 (format_stamp c)) = pad_digits 2 (cv_sec c)"
    by (simp_all add: format_stamp_def take_append drop_append)
  have "\<lparr>cv_year = cv_year c, cv_month = cv_month c, cv_day = cv_day c, cv_hour = cv_hour c,
      cv_min = cv_min c, cv_sec = cv_sec c\<rparr> = c" by simp
  then show ?thesis
    using c d unfolding parse_stamp_def parts
    by (simp add: decimal_value_pad_digits stamp_shape_format civil_ok_def)
qed

lemma sanitize_chars: "list_all name_char (fst (sanitize s))"
  by (auto simp: sanitize_def list_all_iff name_rune_def name_char_def)

lemma sanitize_nonempty: "snd (sanitize s) \<Longrightarrow> fst (sanitize s) \<noteq> []"
  by (auto simp: sanitize_def list_ex_iff)

lemma hex_digit_hex: "n < 16 \<Longrightarrow> hex_char (hex_digit n)"
proof -
  assume "n < 16"
  then have "n \<in> set [0..<16]" by simp
  then show ?thesis
    by (auto simp: hex_char_def hex_digit_def digit_char_def is_digit_def less_eq_char_def upt_conv_Cons)
qed

lemma hex_encode_ok: "list_all (\<lambda>b. b < 256) bs \<Longrightarrow> list_all hex_char (hex_encode bs) \<and> length (hex_encode bs) = 2 * length bs"
  by (induction bs) (auto simp: hex_encode_def hex_digit_hex)

section \<open>Properties\<close>

text \<open>Every archive that is published is one that retention recognises and dates: whatever the job
  called its slot and runner, the published name matches the pattern of \<open>Prune\<close>, and the time read
  back from it is the second of publication.\<close>

lemma shipped_archive_recognised:
  assumes "civil_ok now" "list_all (\<lambda>b. b < 256) suffix" "length suffix = 16"
  shows "archive_name_ok (archive_name now (hex_encode suffix) dir runner) \<and>
    archive_created (archive_name now (hex_encode suffix) dir runner) = Some now"
proof -
  obtain sid v name valid where s: "sanitize (base_name (clean_path dir)) = (sid, v)" "sanitize runner = (name, valid)"
    by (metis surj_pair)
  define rid where "rid = hex_encode suffix"
  define rest where "rest = sid @ ''-'' @ (if valid then name else ''unknown'')"
  have rid: "list_all hex_char rid" "length rid = 32" using hex_encode_ok [OF assms(2)] assms(3) by (simp_all add: rid_def)
  have n: "archive_name now rid dir runner = archive_prefix @ format_stamp now @ ''-'' @ rid @ ''-'' @ rest"
    by (simp add: archive_name_def s rest_def)
  have chars: "list_all name_char rest"
    using sanitize_chars [of "base_name (clean_path dir)"] sanitize_chars [of runner]
    by (simp add: s rest_def) (simp add: name_char_def is_lower_def less_eq_char_def)
  have ne: "rest \<noteq> []" by (simp add: rest_def)
  have len: "length (format_stamp now) = 16" by (simp add: format_stamp_def)
  have "archive_name_ok (archive_prefix @ format_stamp now @ ''-'' @ rid @ ''-'' @ rest)"
    unfolding archive_name_ok_def trim_prefix_append Let_def
    using stamp_shape_format rid chars ne len by (simp add: nth_append)
  moreover have "archive_created (archive_prefix @ format_stamp now @ ''-'' @ rid @ ''-'' @ rest) = Some now"
    unfolding archive_created_def trim_prefix_append using len assms(1) by (simp add: parse_format_stamp)
  ultimately show ?thesis unfolding rid_def [symmetric] n by simp
qed

definition demo_time :: civil where
  "demo_time = \<lparr>cv_year = 2024, cv_month = 2, cv_day = 29, cv_hour = 23, cv_min = 59, cv_sec = 58\<rparr>"

lemma demo_time_ok: "civil_ok demo_time"
  by (simp add: civil_ok_def demo_time_def days_in_def leap_def)


end
