(* ===== verification/Steps.thy ===== *)
theory Steps
  imports Main
begin

text \<open>
  Code that works through a sequence of calls and returns at the first error, as state transformers: a
  step yields whether it succeeded and the new state. Steps are composed with \<open>andthen\<close> and reasoned about
  with pre- and postconditions, one for success and one for an early return.
\<close>

type_synonym 's step = "'s \<Rightarrow> bool \<times> 's"

definition ok :: "'s step" where "ok c = (True, c)"
definition fail :: "'s step" where "fail c = (False, c)"

definition andthen :: "'s step \<Rightarrow> 's step \<Rightarrow> 's step" where
  "andthen f g c = (let (good, c1) = f c in if good then g c1 else (False, c1))"

definition guard :: "('s \<Rightarrow> bool) \<Rightarrow> 's step" where
  "guard P c = (P c, c)"

definition change :: "('s \<Rightarrow> 's) \<Rightarrow> 's step" where
  "change f c = (True, f c)"

section \<open>Pre- and postconditions\<close>

definition holds :: "('s \<Rightarrow> bool) \<Rightarrow> 's step \<Rightarrow> ('s \<Rightarrow> bool) \<Rightarrow> ('s \<Rightarrow> bool) \<Rightarrow> bool" where
  "holds P f Q E \<longleftrightarrow> (\<forall>c. P c \<longrightarrow> (let (good, c') = f c in if good then Q c' else E c'))"

lemma holds_andthen: "holds P f R E \<Longrightarrow> holds R g Q E \<Longrightarrow> holds P (andthen f g) Q E"
  by (fastforce simp: holds_def andthen_def Let_def split: prod.splits if_splits)

lemma holds_if:
  "(b \<Longrightarrow> holds P f Q E) \<Longrightarrow> (\<not> b \<Longrightarrow> holds P g Q E) \<Longrightarrow> holds P (if b then f else g) Q E"
  by simp

lemma holds_ok: "(\<And>c. P c \<Longrightarrow> Q c) \<Longrightarrow> holds P ok Q E"
  by (simp add: holds_def ok_def)

lemma holds_fail: "(\<And>c. P c \<Longrightarrow> E c) \<Longrightarrow> holds P fail Q E"
  by (simp add: holds_def fail_def)

lemma holds_guard: "(\<And>c. P c \<Longrightarrow> b c \<Longrightarrow> Q c) \<Longrightarrow> (\<And>c. P c \<Longrightarrow> \<not> b c \<Longrightarrow> E c) \<Longrightarrow> holds P (guard b) Q E"
  by (simp add: holds_def guard_def)

lemma holds_change: "(\<And>c. P c \<Longrightarrow> Q (f c)) \<Longrightarrow> holds P (change f) Q E"
  by (simp add: holds_def change_def)

lemma holds_weaken: "holds P f Q E \<Longrightarrow> (\<And>c. E c \<Longrightarrow> E' c) \<Longrightarrow> holds P f Q E'"
  by (fastforce simp: holds_def Let_def split: prod.splits if_splits)

lemma holdsD:
  "holds P f Q E \<Longrightarrow> P c \<Longrightarrow> f c = (good, c') \<Longrightarrow> (if good then Q c' else E c')"
  by (fastforce simp: holds_def Let_def)

end
