(* ===== verification/Logship.thy ===== *)
theory Logship
  imports Archive_Names Runner_Host Steps
begin

text \<open>
  Shipping diagnostics before a slot is wiped (\<open>logship.go\<close>): the bounded copier over a job-controlled
  tree and \<open>shipDiag\<close> with its staging directory. The source tree is a tree of entries, each with
  what the calls on it answer; the log file system answers the space probes. The copier's methods are
  steps (theory \<open>Steps\<close>).
\<close>

section \<open>Free space\<close>

record disk_space =
  ds_available :: u64
  ds_total :: u64

text \<open>\<open>availableSpace\<close> of the two block counts and the block size, with the wrap-around of \<open>uint64\<close>.\<close>

definition available_space :: "u64 \<Rightarrow> u64 \<Rightarrow> u64 \<Rightarrow> disk_space" where
  "available_space bavail blocks bsize = \<lparr>ds_available = bavail * bsize, ds_total = blocks * bsize\<rparr>"

definition space_reserve :: "disk_space \<Rightarrow> u64" where
  "space_reserve sp = max 0x10000000 (ds_total sp div 10)"

definition space_ok :: "disk_space \<Rightarrow> u64 \<Rightarrow> bool" where
  "space_ok sp bytes \<longleftrightarrow>
     \<not> (ds_available sp \<le> space_reserve sp \<or> bytes > ds_available sp - space_reserve sp)"

section \<open>The copier\<close>

datatype copy_op =
  Probed disk_space
| MakeStaging string
| MakeDir string
| MakeFile string
| WriteChunk string nat
| WriteFailed string nat
| WriteMarker
| Publish string string
| RemoveStaging string

text \<open>\<open>diagCopier\<close> with what it meets: how many checks of the context still succeed, the answers of the next
  probes, and the calls made so far, newest first.\<close>

record copier =
  cp_left :: int
  cp_entries :: nat
  cp_ctx :: nat
  cp_probes :: "disk_space option list"
  cp_ops :: "copy_op list"

definition did :: "copy_op \<Rightarrow> copier step" where
  "did x c = (True, c\<lparr>cp_ops := x # cp_ops c\<rparr>)"

definition check_ctx :: "copier step" where
  "check_ctx c = (if cp_ctx c = 0 then (False, c) else (True, c\<lparr>cp_ctx := cp_ctx c - 1\<rparr>))"

definition probe_space :: "u64 \<Rightarrow> copier step" where
  "probe_space bytes c =
     (case cp_probes c of
        Some sp # rest \<Rightarrow>
          (let c1 = c\<lparr>cp_probes := rest, cp_ops := Probed sp # cp_ops c\<rparr>
           in if cp_ctx c = 0 then (False, c1)
              else (space_ok sp bytes, c1\<lparr>cp_ctx := cp_ctx c - 1\<rparr>))
      | _ \<Rightarrow> (False, c\<lparr>cp_probes := tl (cp_probes c)\<rparr>))"

definition count_entry :: "copier step" where
  "count_entry c = (let c1 = c\<lparr>cp_entries := Suc (cp_entries c)\<rparr> in (cp_entries c1 \<le> 4096, c1))"

text \<open>An entry of the source: what \<open>fstatat\<close>, the open and \<open>fstat\<close> of the opened descriptor answer, and
  whether creating the copy, listing a directory, reading a file to its end, the last \<open>fstat\<close> or the
  close of the copy fails.\<close>

record diag_stat =
  dg_lstat_err :: bool
  dg_kind :: file_kind
  dg_links :: nat
  dg_open_err :: bool
  dg_same :: bool
  dg_opened_links :: nat
  dg_size :: int
  dg_create_err :: bool
  dg_list_err :: bool
  dg_read_err :: bool
  dg_after_links :: "nat option"
  dg_close_err :: bool

text \<open>The data of a file comes in reads of some sizes, each with whether its write succeeds.\<close>

datatype diag_entry = DiagEntry string diag_stat "(nat \<times> bool) list" "diag_entry list"

text \<open>\<open>copyFile\<close>: the loop over the reads, and the whole.\<close>

fun copy_chunks :: "string \<Rightarrow> bool \<Rightarrow> (nat \<times> bool) list \<Rightarrow> copier step" where
  "copy_chunks target read_err [] = andthen check_ctx (if read_err then fail else ok)"
| "copy_chunks target read_err ((n, written) # ns) =
     andthen check_ctx (andthen (guard (\<lambda>c. int n \<le> cp_left c))
       (andthen
         (if n = 0 then ok
          else andthen (probe_space (of_nat n))
            (if written then andthen (did (WriteChunk target n)) (change (\<lambda>c. c\<lparr>cp_left := cp_left c - int n\<rparr>))
             else andthen (did (WriteFailed target n)) fail))
         (copy_chunks target read_err ns)))"

definition copy_file :: "string \<Rightarrow> diag_stat \<Rightarrow> (nat \<times> bool) list \<Rightarrow> copier step" where
  "copy_file target st chunks =
     andthen (probe_space 4096)
       (if dg_create_err st then fail
        else andthen (did (MakeFile target))
          (andthen (copy_chunks target (dg_read_err st) chunks)
            (if dg_after_links st \<noteq> Some 1 \<or> dg_close_err st then fail else ok)))"

text \<open>\<open>copyDirectory\<close> with \<open>copyEntry\<close>. The listing comes in batches; a check of the context before a batch
  falls together with the check before its first entry, the one before the end of the listing stands
  alone.\<close>

fun copy_entries :: "string \<Rightarrow> nat \<Rightarrow> bool \<Rightarrow> diag_entry list \<Rightarrow> copier step" where
  "copy_entries relative depth list_err [] = andthen check_ctx (if list_err then fail else ok)"
| "copy_entries relative depth list_err (DiagEntry name st chunks kids # es) =
     andthen check_ctx (andthen count_entry (andthen
       (if relative = ''.'' \<and> name = archive_marker then ok
        else if dg_lstat_err st then fail
        else if dg_kind st \<noteq> Directory \<and> dg_kind st \<noteq> RegularFile then ok
        else if dg_kind st = RegularFile \<and> dg_links st \<noteq> 1 then ok
        else if dg_open_err st \<or> \<not> dg_same st then fail
        else
          let target = join_path [relative, name] in
          if dg_kind st = Directory then
            andthen (probe_space 4096)
              (if dg_create_err st then fail
               else andthen (did (MakeDir target))
                 (if Suc depth > 64 then fail else copy_entries target (Suc depth) (dg_list_err st) kids))
          else if dg_opened_links st \<noteq> 1 then ok
          else andthen (guard (\<lambda>c. dg_size st \<le> cp_left c)) (copy_file target st chunks))
       (copy_entries relative depth list_err es)))"

section \<open>Shipping\<close>

datatype diag_dir = DiagMissing | DiagOpenErr | DiagOpened
datatype ship_result = ShipErr | ShipNothing | Shipped string

record ship_env =
  sh_ctx :: nat
  sh_slot_err :: bool
  sh_diag :: diag_dir
  sh_logs_err :: bool
  sh_probes :: "disk_space option list"
  sh_random :: "nat list option"
  sh_staging_err :: bool
  sh_dest_err :: bool
  sh_list_err :: bool
  sh_entries :: "diag_entry list"
  sh_marker_err :: bool
  sh_now :: civil
  sh_rename_err :: bool

definition new_copier :: "ship_env \<Rightarrow> copier" where
  "new_copier sh =
     \<lparr>cp_left = 64 * 2 ^ 20 - int (length archive_marker_content), cp_entries = 0, cp_ctx = sh_ctx sh - 1,
      cp_probes = sh_probes sh, cp_ops = []\<rparr>"

text \<open>The part of \<open>shipDiag\<close> between the opening of the staging directory and the rename.\<close>

definition fill_staging :: "ship_env \<Rightarrow> copier step" where
  "fill_staging sh =
     andthen (if sh_dest_err sh then fail else ok)
     (andthen (copy_entries ''.'' 0 (sh_list_err sh) (sh_entries sh))
     (andthen (probe_space (of_nat (length archive_marker_content) + 4096))
     (andthen (if sh_marker_err sh then fail else did WriteMarker) check_ctx)))"

definition ship_diag :: "ship_env \<Rightarrow> string \<Rightarrow> string \<Rightarrow> string \<Rightarrow> ship_result \<times> copy_op list" where
  "ship_diag sh slot_path log_path runner =
     (if sh_ctx sh = 0 \<or> slot_path = [] \<or> log_path = [] \<or> sh_slot_err sh then (ShipErr, [])
      else case sh_diag sh of
        DiagMissing \<Rightarrow> (ShipNothing, [])
      | DiagOpenErr \<Rightarrow> (ShipErr, [])
      | DiagOpened \<Rightarrow>
          if sh_logs_err sh then (ShipErr, [])
          else
            let (space, c1) = probe_space 4096 (new_copier sh) in
            if \<not> space then (ShipErr, cp_ops c1)
            else case sh_random sh of
              None \<Rightarrow> (ShipErr, cp_ops c1)
            | Some suffix \<Rightarrow>
                let staging = staging_prefix @ hex_encode suffix;
                    completed = archive_name (sh_now sh) (hex_encode suffix) slot_path runner in
                if sh_staging_err sh then (ShipErr, cp_ops c1)
                else
                  let (filled, c2) = andthen (did (MakeStaging staging)) (fill_staging sh) c1 in
                  if \<not> filled \<or> sh_rename_err sh then (ShipErr, RemoveStaging staging # cp_ops c2)
                  else (Shipped (join_path [log_path, completed]),
                        RemoveStaging staging # Publish staging completed # cp_ops c2))"

section \<open>Bounds of an archive\<close>

fun written :: "copy_op list \<Rightarrow> int" where
  "written [] = 0"
| "written (WriteChunk t n # ops) = int n + written ops"
| "written (WriteMarker # ops) = int (length archive_marker_content) + written ops"
| "written (_ # ops) = written ops"

fun created :: "copy_op list \<Rightarrow> nat" where
  "created [] = 0"
| "created (MakeDir t # ops) = Suc (created ops)"
| "created (MakeFile t # ops) = Suc (created ops)"
| "created (_ # ops) = created ops"

text \<open>What a call that takes space needs, and that the call right before it was a probe that shows it.\<close>

fun need :: "copy_op \<Rightarrow> u64 option" where
  "need (MakeStaging t) = Some 4096"
| "need (MakeDir t) = Some 4096"
| "need (MakeFile t) = Some 4096"
| "need (WriteChunk t n) = Some (of_nat n)"
| "need (WriteFailed t n) = Some (of_nat n)"
| "need WriteMarker = Some (of_nat (length archive_marker_content) + 4096)"
| "need _ = None"

fun probed_for :: "u64 \<Rightarrow> copy_op list \<Rightarrow> bool" where
  "probed_for bytes (Probed sp # ops) = space_ok sp bytes"
| "probed_for bytes _ = False"

fun spaced :: "copy_op list \<Rightarrow> bool" where
  "spaced [] = True"
| "spaced (x # ops) = ((case need x of None \<Rightarrow> True | Some bytes \<Rightarrow> probed_for bytes ops) \<and> spaced ops)"

definition budget :: "copier \<Rightarrow> bool" where
  "budget c \<longleftrightarrow>
     0 \<le> cp_left c \<and> written (cp_ops c) = 64 * 2 ^ 20 - int (length archive_marker_content) - cp_left c \<and>
     spaced (cp_ops c)"

definition entry_inv :: "copier \<Rightarrow> bool" where
  "entry_inv c \<longleftrightarrow> budget c \<and> created (cp_ops c) \<le> cp_entries c \<and> cp_entries c \<le> 4096"

definition counted :: "copier \<Rightarrow> bool" where
  "counted c \<longleftrightarrow> budget c \<and> Suc (created (cp_ops c)) \<le> cp_entries c \<and> cp_entries c \<le> 4096"

text \<open>What holds of an abandoned copy too.\<close>

definition bounded :: "copier \<Rightarrow> bool" where
  "bounded c \<longleftrightarrow> budget c \<and> created (cp_ops c) \<le> 4096"

lemmas copier_invs = budget_def entry_inv_def counted_def bounded_def

lemma check_ctx_rules:
  "holds entry_inv check_ctx entry_inv bounded"
  by (auto simp: holds_def check_ctx_def copier_invs)

lemma count_entry_rule: "holds entry_inv count_entry counted bounded"
  by (auto simp: holds_def count_entry_def copier_invs Let_def)

definition probed_counted :: "u64 \<Rightarrow> copier \<Rightarrow> bool" where
  "probed_counted bytes c \<longleftrightarrow> counted c \<and> probed_for bytes (cp_ops c)"

definition probed_inv :: "u64 \<Rightarrow> copier \<Rightarrow> bool" where
  "probed_inv bytes c \<longleftrightarrow> entry_inv c \<and> probed_for bytes (cp_ops c)"

lemma probe_counted: "holds counted (probe_space n) (probed_counted n) bounded"
  by (auto simp: holds_def probe_space_def copier_invs probed_counted_def Let_def split: list.split option.split)

lemma probe_inv: "holds entry_inv (probe_space n) (probed_inv n) bounded"
  by (auto simp: holds_def probe_space_def copier_invs probed_inv_def Let_def split: list.split option.split)

lemma make_rule:
  "holds (probed_counted 4096) (did (MakeDir t)) entry_inv bounded"
  "holds (probed_counted 4096) (did (MakeFile t)) entry_inv bounded"
  by (auto simp: holds_def did_def copier_invs probed_counted_def)

lemma write_rule:
  "holds (\<lambda>c. probed_inv (of_nat n) c \<and> int n \<le> cp_left c)
     (andthen (did (WriteChunk t n)) (change (\<lambda>c. c\<lparr>cp_left := cp_left c - int n\<rparr>))) entry_inv bounded"
  by (auto simp: holds_def andthen_def did_def change_def copier_invs probed_inv_def Let_def)

lemma probe_left:
  "holds (\<lambda>c. entry_inv c \<and> int n \<le> cp_left c) (probe_space b) (\<lambda>c. probed_inv b c \<and> int n \<le> cp_left c) bounded"
  by (auto simp: holds_def probe_space_def copier_invs probed_inv_def Let_def split: list.split option.split)

lemma guard_left:
  "holds entry_inv (guard (\<lambda>c. int n \<le> cp_left c)) (\<lambda>c. entry_inv c \<and> int n \<le> cp_left c) bounded"
  by (auto simp: holds_def guard_def copier_invs)

lemma write_failed_rule:
  "holds (\<lambda>c. probed_inv (of_nat n) c \<and> int n \<le> cp_left c) (andthen (did (WriteFailed t n)) fail) entry_inv bounded"
  by (auto simp: holds_def andthen_def did_def fail_def copier_invs probed_inv_def Let_def)

lemma copy_chunks_rule: "holds entry_inv (copy_chunks t e ns) entry_inv bounded"
proof (induction t e ns rule: copy_chunks.induct)
  case (1 t e)
  show ?case unfolding copy_chunks.simps
    by (intro holds_andthen [OF check_ctx_rules] holds_if holds_ok holds_fail) (auto simp: copier_invs)
next
  case (2 t e n w ns)
  show ?case unfolding copy_chunks.simps
    by (rule holds_andthen [OF check_ctx_rules], rule holds_andthen [OF guard_left],
        rule holds_andthen [OF _ 2])
      (intro holds_if holds_ok holds_andthen [OF probe_left] write_rule write_failed_rule, simp)
qed

lemma copy_file_rule: "holds counted (copy_file t st ns) entry_inv bounded"
  unfolding copy_file_def
  by (rule holds_andthen [OF probe_counted], rule holds_if, rule holds_fail)
    (auto simp: probed_counted_def copier_invs
      intro!: holds_andthen [OF make_rule(2)] holds_andthen [OF copy_chunks_rule] holds_fail holds_ok)

lemma copy_entries_rule: "holds entry_inv (copy_entries rel d e es) entry_inv bounded"
proof (induction rel d e es rule: copy_entries.induct)
  case (1 rel d e)
  show ?case unfolding copy_entries.simps
    by (intro holds_andthen [OF check_ctx_rules] holds_if holds_ok holds_fail) (auto simp: copier_invs)
next
  case (2 rel d e name st chunks kids es)
  have skip: "holds counted ok entry_inv bounded" "holds counted fail entry_inv bounded"
    by (rule holds_ok holds_fail; auto simp: copier_invs)+
  have pfail: "holds (probed_counted 4096) fail entry_inv bounded" "holds entry_inv fail entry_inv bounded"
    by (rule holds_fail; auto simp: copier_invs probed_counted_def)+
  have size_guard: "holds counted (guard (\<lambda>c. dg_size st \<le> cp_left c)) counted bounded"
    by (auto simp: holds_def guard_def copier_invs)
  show ?case unfolding copy_entries.simps Let_def
    using "2.IH"
    by (intro holds_andthen [OF check_ctx_rules] holds_andthen [OF count_entry_rule] holds_andthen [of counted _ entry_inv] holds_if skip
        holds_andthen [OF probe_counted] holds_andthen [OF make_rule(1)] pfail holds_andthen [OF size_guard] copy_file_rule) auto
qed

section \<open>The whole of \<open>shipDiag\<close>\<close>

definition marker_ready :: "copier \<Rightarrow> bool" where
  "marker_ready c \<longleftrightarrow> bounded c \<and> probed_for (of_nat (length archive_marker_content) + 4096) (cp_ops c)"

text \<open>A full staging directory: the marker is in it and the budget covers it.\<close>

definition filled :: "copier \<Rightarrow> bool" where
  "filled c \<longleftrightarrow> written (cp_ops c) \<le> 64 * 2 ^ 20 \<and> created (cp_ops c) \<le> 4096 \<and> spaced (cp_ops c) \<and>
     (\<exists>rest. cp_ops c = WriteMarker # rest)"

definition abandoned :: "copier \<Rightarrow> bool" where
  "abandoned c \<longleftrightarrow> written (cp_ops c) \<le> 64 * 2 ^ 20 \<and> created (cp_ops c) \<le> 4096 \<and> spaced (cp_ops c)"

lemma bounded_abandoned: "bounded c \<Longrightarrow> abandoned c"
  by (simp add: copier_invs abandoned_def)

lemma fill_staging_rule: "holds entry_inv (fill_staging sh) filled abandoned"
proof -
  have probe: "holds entry_inv (probe_space (of_nat (length archive_marker_content) + 4096)) marker_ready abandoned"
    by (auto simp: holds_def probe_space_def copier_invs marker_ready_def abandoned_def Let_def split: list.split option.split)
  have marker: "holds marker_ready (did WriteMarker) filled abandoned"
    by (auto simp: holds_def did_def marker_ready_def copier_invs filled_def)
  have last: "holds filled check_ctx filled abandoned"
    by (auto simp: holds_def check_ctx_def filled_def abandoned_def)
  have fails: "holds marker_ready fail filled abandoned" "holds entry_inv fail entry_inv abandoned"
    by (rule holds_fail; simp add: marker_ready_def copier_invs abandoned_def)+
  show ?thesis unfolding fill_staging_def
    by (intro holds_andthen [of entry_inv _ entry_inv] holds_andthen [OF probe] holds_andthen [OF _ last] holds_if
        marker fails holds_ok holds_weaken [OF copy_entries_rule] bounded_abandoned)
qed

lemma start_inv:
  assumes "probe_space 4096 (new_copier sh) = (True, c1)"
  shows "entry_inv (c1\<lparr>cp_ops := MakeStaging s # cp_ops c1\<rparr>)"
  using assms
  by (auto simp: probe_space_def new_copier_def copier_invs archive_marker_content_def newline_def Let_def
      split: list.splits option.splits if_splits)

text \<open>What the copier does inside a staging directory.\<close>

fun inside :: "copy_op \<Rightarrow> bool" where
  "inside (MakeStaging t) = False"
| "inside (Publish t n) = False"
| "inside (RemoveStaging t) = False"
| "inside _ = True"

definition adds :: "copier step \<Rightarrow> bool" where
  "adds f \<longleftrightarrow> (\<forall>c. \<exists>xs. cp_ops (snd (f c)) = xs @ cp_ops c \<and> list_all inside xs)"

lemma adds_andthen: "adds f \<Longrightarrow> adds g \<Longrightarrow> adds (andthen f g)"
  unfolding adds_def
proof (intro allI)
  fix c assume f: "\<forall>c. \<exists>xs. cp_ops (snd (f c)) = xs @ cp_ops c \<and> list_all inside xs"
    and g: "\<forall>c. \<exists>xs. cp_ops (snd (g c)) = xs @ cp_ops c \<and> list_all inside xs"
  obtain good c1 where c1: "f c = (good, c1)" by fastforce
  from f c1 obtain xs where "cp_ops c1 = xs @ cp_ops c" "list_all inside xs" by (metis snd_conv)
  moreover from g obtain ys where "cp_ops (snd (g c1)) = ys @ cp_ops c1" "list_all inside ys" by blast
  ultimately show "\<exists>xs. cp_ops (snd (andthen f g c)) = xs @ cp_ops c \<and> list_all inside xs"
    by (cases good) (auto simp: andthen_def c1)
qed

lemma adds_did: "inside x \<Longrightarrow> adds (did x)"
  unfolding adds_def did_def by (auto intro: exI [of _ "[x]"])

lemma adds_quiet: "(\<And>c. cp_ops (snd (f c)) = cp_ops c) \<Longrightarrow> adds f"
  by (auto simp: adds_def)

lemma adds_probe: "adds (probe_space n)"
  unfolding adds_def
proof (intro allI)
  fix c
  show "\<exists>xs. cp_ops (snd (probe_space n c)) = xs @ cp_ops c \<and> list_all inside xs"
    by (cases "probe_space n c = (False, c\<lparr>cp_probes := tl (cp_probes c)\<rparr>)")
      (auto simp: probe_space_def Let_def split: list.split option.split intro: exI [of _ "[Probed sp]" for sp])
qed

lemma adds_steps: "adds ok" "adds fail" "adds check_ctx" "adds count_entry" "adds (guard P)"
  "adds (change (\<lambda>c. c\<lparr>cp_left := h c\<rparr>))"
  by (rule adds_quiet; simp add: change_def ok_def fail_def check_ctx_def count_entry_def guard_def Let_def)+

lemma adds_if: "(b \<Longrightarrow> adds f) \<Longrightarrow> (\<not> b \<Longrightarrow> adds g) \<Longrightarrow> adds (if b then f else g)"
  by simp

lemmas adds_rules = adds_andthen adds_did adds_probe adds_steps adds_if

lemma adds_copy_chunks: "adds (copy_chunks t e ns)"
  by (induction t e ns rule: copy_chunks.induct) (simp_all only: copy_chunks.simps, (intro adds_rules; simp)+)

lemma adds_copy_file: "adds (copy_file t st ns)"
  unfolding copy_file_def by (intro adds_rules adds_copy_chunks) simp

lemma adds_copy_entries: "adds (copy_entries rel d e es)"
proof (induction rel d e es rule: copy_entries.induct)
  case (1 rel d e)
  show ?case unfolding copy_entries.simps by (intro adds_rules)
next
  case (2 rel d e name st chunks kids es)
  show ?case unfolding copy_entries.simps Let_def
    by (intro adds_rules adds_copy_file) (use "2.IH" in auto)
qed

lemma adds_fill_staging: "adds (fill_staging sh)"
  unfolding fill_staging_def by (intro adds_rules adds_copy_entries) simp

definition inner :: "string \<Rightarrow> copy_op list \<Rightarrow> bool" where
  "inner s ops \<longleftrightarrow> (\<forall>x \<in> set ops. x = MakeStaging s \<or> inside x)"

text \<open>Every run, by what became of its staging directory.\<close>

lemma ship_diag_cases:
  assumes "ship_diag sh sp lp runner = (res, ops)"
  shows "(\<forall>path. res \<noteq> Shipped path) \<and> written ops = 0 \<and> created ops = 0 \<and> spaced ops \<and> (\<forall>x \<in> set ops. \<exists>d. x = Probed d) \<or>
    (\<exists>s c. abandoned c \<and> inner s (cp_ops c) \<and> res = ShipErr \<and> ops = RemoveStaging s # cp_ops c) \<or>
    (\<exists>s c n. filled c \<and> inner s (cp_ops c) \<and> res = Shipped (join_path [lp, n]) \<and> ops = RemoveStaging s # Publish s n # cp_ops c)"
proof -
  obtain space c1 where p: "probe_space 4096 (new_copier sh) = (space, c1)" by fastforce
  have c1: "written (cp_ops c1) = 0 \<and> created (cp_ops c1) = 0 \<and> spaced (cp_ops c1) \<and> (\<forall>x \<in> set (cp_ops c1). \<exists>d. x = Probed d)"
    using p by (auto simp: probe_space_def new_copier_def Let_def split: list.splits option.splits if_splits)
  show ?thesis
  proof (cases "sh_ctx sh \<noteq> 0 \<and> sp \<noteq> [] \<and> lp \<noteq> [] \<and> \<not> sh_slot_err sh \<and> sh_diag sh = DiagOpened \<and> \<not> sh_logs_err sh \<and>
      space \<and> sh_random sh \<noteq> None \<and> \<not> sh_staging_err sh")
    case False
    then show ?thesis using assms p c1 by (auto simp: ship_diag_def split: diag_dir.splits if_splits option.splits)
  next
    case True
    then obtain bs where bs: "sh_random sh = Some bs" by auto
    define staging where "staging = staging_prefix @ hex_encode bs"
    obtain good c2 where f: "andthen (did (MakeStaging staging)) (fill_staging sh) c1 = (good, c2)" by fastforce
    then have f': "fill_staging sh (c1\<lparr>cp_ops := MakeStaging staging # cp_ops c1\<rparr>) = (good, c2)"
      by (simp add: andthen_def did_def)
    have c2: "if good then filled c2 else abandoned c2"
      by (rule holdsD [OF fill_staging_rule start_inv f']) (use p True in simp)
    obtain xs where "cp_ops c2 = xs @ MakeStaging staging # cp_ops c1" "list_all inside xs"
      using adds_fill_staging [of sh] f' unfolding adds_def by (metis (no_types, lifting) copier.select_convs(5) copier.surjective copier.update_convs(5) snd_conv)
    then have "inner staging (cp_ops c2)" using c1 by (auto simp: inner_def list_all_iff)
    moreover
    from c2 have "abandoned c2" by (auto simp: filled_def abandoned_def split: if_splits)
    moreover have "ship_diag sh sp lp runner =
        (if \<not> good \<or> sh_rename_err sh then (ShipErr, RemoveStaging staging # cp_ops c2)
         else (Shipped (join_path [lp, archive_name (sh_now sh) (hex_encode bs) sp runner]),
               RemoveStaging staging # Publish staging (archive_name (sh_now sh) (hex_encode bs) sp runner) # cp_ops c2))"
      using True p bs f by (simp add: ship_diag_def Let_def staging_def [symmetric])
    ultimately show ?thesis using assms c2 by (cases "good \<and> \<not> sh_rename_err sh") auto
  qed
qed

section \<open>Properties\<close>

text \<open>C24: Whatever a job leaves in its diagnostics tree and however the file system answers, one shipment
  writes at most 64 MiB, the marker included, makes at most 4096 entries, and every call that takes
  space comes right after a probe that shows room for it above the reserve of 256 MiB or a tenth of
  the file system.\<close>

theorem ship_bounded:
  assumes "ship_diag sh slot_path log_path runner = (res, ops)"
  shows "written ops \<le> 64 * 2 ^ 20 \<and> created ops \<le> 4096 \<and> spaced ops"
  using ship_diag_cases [OF assms] by (auto simp: filled_def abandoned_def)

definition demo_stat :: diag_stat where
  "demo_stat = \<lparr>dg_lstat_err = False, dg_kind = RegularFile, dg_links = 1, dg_open_err = False, dg_same = True,
     dg_opened_links = 1, dg_size = 5, dg_create_err = False, dg_list_err = False, dg_read_err = False,
     dg_after_links = Some 1, dg_close_err = False\<rparr>"

definition demo_space :: disk_space where
  "demo_space = \<lparr>ds_available = 0x40000000, ds_total = 0x40000000\<rparr>"

definition demo_ship :: ship_env where
  "demo_ship = \<lparr>sh_ctx = 100, sh_slot_err = False, sh_diag = DiagOpened, sh_logs_err = False,
     sh_probes = [Some demo_space, Some demo_space, Some demo_space, Some demo_space],
     sh_random = Some (replicate 16 171), sh_staging_err = False, sh_dest_err = False, sh_list_err = False,
     sh_entries = [DiagEntry ''a.log'' demo_stat [(5, True)] []], sh_marker_err = False, sh_now = demo_time,
     sh_rename_err = False\<rparr>"

lemmas run_copier = ship_diag_def demo_ship_def demo_stat_def new_copier_def fill_staging_def andthen_def did_def
  change_def ok_def fail_def guard_def check_ctx_def probe_space_def count_entry_def copy_file_def space_ok_def space_reserve_def

lemma demo_shipped: "\<exists>name ops. ship_diag demo_ship ''/s/0001'' ''/l'' ''r'' = (Shipped name, ops) \<and> written ops = 37"
  by (simp add: run_copier Let_def max_def demo_space_def archive_marker_def archive_marker_content_def newline_def)

theorem ship_bounded_witness:
  "\<exists>name ops. ship_diag demo_ship ''/s/0001'' ''/l'' ''r'' = (Shipped name, ops) \<and> written ops = 37 \<and> spaced ops"
  using demo_shipped ship_bounded by blast

text \<open>C25: An archive is visible only when it is complete: a run publishes its staging directory exactly when
  it reports the archive's path, after the marker, the last thing written; a run that fails publishes
  nothing; and whatever staging directory a run made is removed at its end.\<close>

theorem ship_atomic:
  assumes "ship_diag sh slot_path log_path runner = (res, ops)"
  shows "((\<exists>s n. Publish s n \<in> set ops) \<longleftrightarrow> (\<exists>path. res = Shipped path)) \<and>
    (\<forall>path. res = Shipped path \<longrightarrow>
       (\<exists>s n rest. ops = RemoveStaging s # Publish s n # WriteMarker # rest \<and> path = join_path [log_path, n])) \<and>
    (\<forall>s. MakeStaging s \<in> set ops \<longrightarrow> hd ops = RemoveStaging s)"
proof -
  have made: "MakeStaging t \<in> set ops' \<Longrightarrow> inner s ops' \<Longrightarrow> t = s" "inner s ops' \<Longrightarrow> Publish t n \<notin> set ops'"
    for s t n ops'
    by (auto simp: inner_def)
  from ship_diag_cases [OF assms] consider
    (none) "\<forall>x \<in> set ops. \<exists>d. x = Probed d" "\<forall>path. res \<noteq> Shipped path"
  | (err) s and c :: copier where "inner s (cp_ops c)" "res = ShipErr" "ops = RemoveStaging s # cp_ops c"
  | (shipped) s n and c :: copier where "filled c" "inner s (cp_ops c)" "res = Shipped (join_path [log_path, n])"
      "ops = RemoveStaging s # Publish s n # cp_ops c"
    by blast
  then show ?thesis
  proof cases
    case none
    then show ?thesis by fastforce
  next
    case err
    with made show ?thesis by auto
  next
    case shipped
    with made show ?thesis by (auto simp: filled_def)
  qed
qed

theorem ship_atomic_witness:
  "\<exists>s n ops. Publish s n \<in> set ops \<and> hd ops = RemoveStaging s \<and> snd (ship_diag demo_ship ''/s/0001'' ''/l'' ''r'') = ops"
proof -
  obtain name ops where "ship_diag demo_ship ''/s/0001'' ''/l'' ''r'' = (Shipped name, ops)" using demo_shipped by blast
  from ship_atomic [OF this] this show ?thesis by auto
qed

end
