(* ===== verification/Retention.thy ===== *)
theory Retention
  imports Archive_Names Runner_Host
begin

text \<open>
  Retention of diagnostic archives (\<open>retention.go\<close>): the inventory of the log directory, the choice of what
  to remove, and the removal of one archive, which keeps the marker until nothing else is left. The
  directory is data: entries with what the calls on them answer, and trees of named nodes.
\<close>

section \<open>Trees\<close>

text \<open>A node of a directory by what \<open>fstatat\<close> says of it: a file with its size, a directory, anything
  else, or an error.\<close>

datatype fs_node = FsFile string int | FsDir string "fs_node list" | FsOther string | FsErr string

fun node_name :: "fs_node \<Rightarrow> string" where
  "node_name (FsFile nm b) = nm"
| "node_name (FsDir nm kids) = nm"
| "node_name (FsOther nm) = nm"
| "node_name (FsErr nm) = nm"

definition max_int64 :: int where "max_int64 = 2 ^ 63 - 1"

text \<open>\<open>directoryBytes\<close>: the size so far and the checks of the context that still succeed.\<close>

fun directory_bytes :: "nat \<Rightarrow> fs_node list \<Rightarrow> int \<Rightarrow> nat \<Rightarrow> (int \<times> nat) option" where
  "directory_bytes depth [] sz n = (if n = 0 then None else Some (sz, n - 1))"
| "directory_bytes depth (e # es) sz n =
     (if n = 0 then None
      else case (case e of
            FsErr nm \<Rightarrow> None
          | FsFile nm b \<Rightarrow> Some (b, n - 1)
          | FsOther nm \<Rightarrow> Some (0, n - 1)
          | FsDir nm kids \<Rightarrow> if Suc depth > 64 then None else directory_bytes (Suc depth) kids 0 (n - 1)) of
        None \<Rightarrow> None
      | Some (b, m) \<Rightarrow>
          if b < 0 \<or> b > max_int64 - sz then None else directory_bytes depth es (sz + b) m)"

section \<open>The inventory\<close>

record archive =
  ar_name :: string
  ar_created :: time
  ar_bytes :: int
  ar_device :: nat
  ar_inode :: nat

datatype marker_lstat = MarkerMissing | MarkerErr | MarkerStat file_kind nat

record marker_env =
  mk_lstat :: marker_lstat
  mk_open_err :: bool
  mk_kind :: file_kind
  mk_mode :: nat
  mk_uid :: int
  mk_links :: nat
  mk_same :: bool
  mk_data :: "string option"

text \<open>\<open>validMarker\<close>; \<open>None\<close> is an error. At most one byte more than the expected content is read.\<close>

definition valid_marker :: "int \<Rightarrow> marker_env \<Rightarrow> bool option" where
  "valid_marker euid mk =
     (case mk_lstat mk of
        MarkerMissing \<Rightarrow> Some False
      | MarkerErr \<Rightarrow> None
      | MarkerStat kind links \<Rightarrow>
          if kind \<noteq> RegularFile \<or> links \<noteq> 1 then Some False
          else if mk_open_err mk then None
          else if \<not> (mk_kind mk = RegularFile \<and> mk_mode mk mod 64 = 0) \<or> mk_uid mk \<noteq> euid \<or> mk_links mk \<noteq> 1
            then Some False
          else if \<not> mk_same mk then None
          else case mk_data mk of
            None \<Rightarrow> None
          | Some text \<Rightarrow> Some (take (Suc (length archive_marker_content)) text = archive_marker_content))"

record log_entry =
  le_name :: string
  le_is_dir :: bool
  le_open_err :: bool
  le_uid :: int
  le_mode :: nat
  le_marker :: marker_env
  le_nodes :: "fs_node list"
  le_device :: nat
  le_inode :: nat

text \<open>\<open>inspectArchive\<close>: an error, not ours, or an archive, with the remaining checks.\<close>

definition inspect_archive :: "int \<Rightarrow> log_entry \<Rightarrow> nat \<Rightarrow> (archive option \<times> nat) option" where
  "inspect_archive euid e n =
     (if le_open_err e then None
      else if le_uid e \<noteq> euid \<or> le_mode e mod 64 \<noteq> 0 then Some (None, n)
      else case valid_marker euid (le_marker e) of
        None \<Rightarrow> None
      | Some owned \<Rightarrow>
          if \<not> owned then Some (None, n)
          else case archive_created (le_name e) of
            None \<Rightarrow> None
          | Some c \<Rightarrow>
              (case directory_bytes 0 (le_nodes e) 0 n of
                 None \<Rightarrow> None
               | Some (sz, m) \<Rightarrow>
                   Some (Some \<lparr>ar_name = le_name e, ar_created = civil_time c, ar_bytes = sz,
                               ar_device = le_device e, ar_inode = le_inode e\<rparr>, m)))"

fun find_archives :: "int \<Rightarrow> bool \<Rightarrow> log_entry list \<Rightarrow> nat \<Rightarrow> (archive list \<times> nat) option" where
  "find_archives euid list_err [] n = (if n = 0 \<or> list_err then None else Some ([], n - 1))"
| "find_archives euid list_err (e # es) n =
     (if n = 0 then None
      else if \<not> le_is_dir e \<or> \<not> archive_name_ok (le_name e) then find_archives euid list_err es (n - 1)
      else case inspect_archive euid e (n - 1) of
        None \<Rightarrow> None
      | Some (a, m) \<Rightarrow>
          (case find_archives euid list_err es m of
             None \<Rightarrow> None
           | Some (as, k) \<Rightarrow> Some ((case a of None \<Rightarrow> as | Some b \<Rightarrow> b # as), k)))"

section \<open>Removing one archive\<close>

text \<open>\<open>removeTree\<close> below the top: \<open>io\<close> says which paths a call on them fails for. The result is whether it
  succeeded, the checks left and the nodes left.\<close>

fun remove_nodes ::
  "(string list \<Rightarrow> bool) \<Rightarrow> string list \<Rightarrow> string option \<Rightarrow> fs_node list \<Rightarrow> nat \<Rightarrow> bool \<times> nat \<times> fs_node list" where
  "remove_nodes io path keep [] n = (if n = 0 then (False, 0, []) else (True, n - 1, []))"
| "remove_nodes io path keep (e # es) n =
     (if keep = Some (node_name e) then
        (let (good, m, rest) = remove_nodes io path keep es n in (good, m, e # rest))
      else if n = 0 then (False, 0, e # es)
      else case e of
        FsDir nm kids \<Rightarrow>
          (let (good, m, rest) = remove_nodes io (path @ [nm]) None kids (n - 1) in
           if \<not> good \<or> io (path @ [nm]) then (False, m, FsDir nm rest # es)
           else remove_nodes io path keep es m)
      | _ \<Rightarrow>
          if io (path @ [node_name e]) then (False, n - 1, e # es)
          else remove_nodes io path keep es (n - 1))"

text \<open>\<open>removeTree\<close> of a whole archive, with the marker kept to the end; \<open>None\<close>: the archive is gone.\<close>

definition remove_archive ::
  "(string list \<Rightarrow> bool) \<Rightarrow> string \<Rightarrow> fs_node list \<Rightarrow> nat \<Rightarrow> bool \<times> nat \<times> fs_node list option" where
  "remove_archive io name nodes n =
     (if n = 0 then (False, 0, Some nodes)
      else
        let (good, m, rest) = remove_nodes io [name] (Some archive_marker) nodes (n - 1) in
        if \<not> good then (False, m, Some rest)
        else if io [name, archive_marker] \<or> archive_marker \<notin> set (map node_name rest) then (False, m, Some rest)
        else if io [name] then (False, m, Some (filter (\<lambda>e. node_name e \<noteq> archive_marker) rest))
        else (True, m, None))"

section \<open>Pruning\<close>

datatype logs_open = LogsMissing | LogsErr | LogsOpened "log_entry list"

record prune_env =
  pn_ctx :: nat
  pn_logs :: logs_open
  pn_list_err :: bool
  pn_euid :: int
  pn_now :: time
  pn_recheck :: "string \<Rightarrow> (nat \<times> nat) option"
  pn_nodes :: "string \<Rightarrow> fs_node list"
  pn_io :: "string list \<Rightarrow> bool"

fun sum_sizes :: "archive list \<Rightarrow> int \<Rightarrow> int option" where
  "sum_sizes [] tot = Some tot"
| "sum_sizes (a # as) tot =
     (if ar_bytes a > max_int64 - tot then None else sum_sizes as (tot + ar_bytes a))"

text \<open>The removal loop: whether it succeeds, and the archives removed.\<close>

fun prune_loop :: "prune_env \<Rightarrow> time \<Rightarrow> int \<Rightarrow> archive list \<Rightarrow> int \<Rightarrow> nat \<Rightarrow> bool \<times> archive list" where
  "prune_loop pn cutoff max_bytes [] tot n = (True, [])"
| "prune_loop pn cutoff max_bytes (a # as) tot n =
     (if n = 0 then (False, [])
      else if \<not> ar_created a < cutoff \<and> tot \<le> max_bytes
        then prune_loop pn cutoff max_bytes as tot (n - 1)
      else if pn_recheck pn (ar_name a) \<noteq> Some (ar_device a, ar_inode a) then (False, [])
      else
        let (good, m, left) = remove_archive (pn_io pn) (ar_name a) (pn_nodes pn (ar_name a)) (n - 1) in
        if \<not> good then (False, [])
        else let (ok, removed) = prune_loop pn cutoff max_bytes as (tot - ar_bytes a) m in (ok, a # removed))"

text \<open>\<open>Prune\<close>. \<open>slices.SortFunc\<close> may leave archives of one second in any order; here it is the order of the
  inventory, which is itself arbitrary.\<close>

definition prune :: "prune_env \<Rightarrow> string \<Rightarrow> duration \<Rightarrow> int \<Rightarrow> bool \<times> archive list" where
  "prune pn log_path max_age max_bytes =
     (if pn_ctx pn = 0 then (False, [])
      else if log_path = [] \<or> max_age \<le> 0 \<or> max_bytes \<le> 0 then (False, [])
      else case pn_logs pn of
        LogsMissing \<Rightarrow> (True, [])
      | LogsErr \<Rightarrow> (False, [])
      | LogsOpened es \<Rightarrow>
          (case find_archives (pn_euid pn) (pn_list_err pn) es (pn_ctx pn - 1) of
             None \<Rightarrow> (False, [])
           | Some (found, n) \<Rightarrow>
               let as = sort_key ar_created found in
               (case sum_sizes as 0 of
                  None \<Rightarrow> (False, [])
                | Some tot \<Rightarrow> prune_loop pn (pn_now pn - max_age) max_bytes as tot n)))"

section \<open>Facts\<close>

definition total_bytes :: "archive list \<Rightarrow> int" where
  "total_bytes as = sum_list (map ar_bytes as)"

lemma total_bytes_simps [simp]:
  "total_bytes [] = 0" "total_bytes (a # as) = ar_bytes a + total_bytes as"
  by (simp_all add: total_bytes_def)

lemma sum_sizes_total: "sum_sizes as t = Some tot \<Longrightarrow> tot = t + total_bytes as"
  by (induction as arbitrary: t) (fastforce split: if_splits)+

lemma prune_loop_keeps:
  "fst (prune_loop pn cutoff mx as tot n) \<Longrightarrow> \<forall>a \<in> set as. \<not> ar_created a < cutoff \<Longrightarrow> tot \<le> mx \<Longrightarrow>
   snd (prune_loop pn cutoff mx as tot n) = []"
  by (induction as arbitrary: n) (auto split: if_splits)

lemma prune_loop_prefix:
  assumes "prune_loop pn cutoff mx as (total_bytes as) n = (True, removed)" "sorted (map ar_created as)" "0 \<le> mx"
  shows "\<exists>kept. as = removed @ kept \<and> (\<forall>a \<in> set kept. cutoff \<le> ar_created a) \<and> total_bytes kept \<le> mx \<and>
    (removed \<noteq> [] \<longrightarrow> ar_created (last removed) < cutoff \<or> mx < ar_bytes (last removed) + total_bytes kept)"
  using assms
proof (induction as arbitrary: n removed)
  case (Cons a as)
  show ?case
  proof (cases "\<not> ar_created a < cutoff \<and> total_bytes (a # as) \<le> mx")
    case True
    then have fresh: "\<forall>b \<in> set (a # as). \<not> ar_created b < cutoff" using Cons.prems(2) by auto
    have "removed = []" using prune_loop_keeps [OF _ fresh, of pn mx "total_bytes (a # as)" n] Cons.prems(1) True by simp
    with True fresh show ?thesis by auto
  next
    case False
    then obtain m rest where rest: "prune_loop pn cutoff mx as (total_bytes as) m = (True, rest)" "removed = a # rest"
      using Cons.prems(1) by (auto split: if_splits prod.splits simp: Let_def)
    from Cons.IH [OF rest(1)] Cons.prems(2,3) obtain kept where k: "as = rest @ kept"
      "\<forall>a \<in> set kept. cutoff \<le> ar_created a" "total_bytes kept \<le> mx"
      "rest \<noteq> [] \<longrightarrow> ar_created (last rest) < cutoff \<or> mx < ar_bytes (last rest) + total_bytes kept" by auto
    then show ?thesis using False rest(2) by (intro exI [of _ kept]) auto
  qed
qed simp

lemma find_archives_owned:
  "find_archives euid le es n = Some (as, m) \<Longrightarrow> a \<in> set as \<Longrightarrow>
   \<exists>e \<in> set es. le_is_dir e \<and> archive_name_ok (le_name e) \<and> le_uid e = euid \<and> le_mode e mod 64 = 0 \<and>
     valid_marker euid (le_marker e) = Some True \<and> ar_name a = le_name e \<and> ar_device a = le_device e \<and> ar_inode a = le_inode e"
  by (induction es arbitrary: n as m)
    (auto simp: inspect_archive_def split: if_splits option.splits prod.splits, fastforce+)

lemma prune_loop_rechecked:
  "prune_loop pn cutoff mx as tot n = (ok, removed) \<Longrightarrow> a \<in> set removed \<Longrightarrow>
   a \<in> set as \<and> pn_recheck pn (ar_name a) = Some (ar_device a, ar_inode a)"
proof (induction as arbitrary: tot n ok removed)
  case (Cons b as)
  consider (none) "removed = []"
    | (skip) m where "prune_loop pn cutoff mx as tot m = (ok, removed)"
    | (cut) m rest where "prune_loop pn cutoff mx as (tot - ar_bytes b) m = (ok, rest)" "removed = b # rest"
        "pn_recheck pn (ar_name b) = Some (ar_device b, ar_inode b)"
    using Cons.prems(1) by (auto simp: Let_def split: if_splits prod.splits)
  then show ?case
  proof cases
    case none
    with Cons.prems(2) show ?thesis by simp
  next
    case skip
    from Cons.IH [OF skip Cons.prems(2)] show ?thesis by simp
  next
    case cut
    with Cons.IH [OF cut(1)] Cons.prems(2) show ?thesis by auto
  qed
qed simp

lemma remove_nodes_keeps:
  "remove_nodes io path (Some k) nodes n = (good, m, rest) \<Longrightarrow>
   filter (\<lambda>e. node_name e = k) rest = filter (\<lambda>e. node_name e = k) nodes \<and>
   (good \<longrightarrow> rest = filter (\<lambda>e. node_name e = k) nodes)"
proof (induction nodes arbitrary: n good m rest)
  case (Cons e es)
  show ?case
  proof (cases "node_name e = k")
    case True
    with Cons show ?thesis by (auto split: prod.splits)
  next
    case False
    then show ?thesis
      using Cons.prems Cons.IH by (cases e) (auto simp: Let_def split: if_splits prod.splits)
  qed
qed (auto split: if_splits)

section \<open>Properties\<close>

text \<open>C26: What retention removes is exactly what its limits ask for: when \<open>Prune\<close> succeeds, the archives it
  removed are the oldest of the inventory, none of those it kept is older than the maximal age, what
  it kept fits the byte limit, and it removed no more than that: the newest one removed was too old,
  or keeping it would have passed the limit.\<close>

theorem prune_exact:
  assumes "prune pn log_path max_age max_bytes = (True, removed)" "pn_logs pn = LogsOpened es"
    and "find_archives (pn_euid pn) (pn_list_err pn) es (pn_ctx pn - 1) = Some (found, n)"
  shows "\<exists>kept. sort_key ar_created found = removed @ kept \<and>
    (\<forall>a \<in> set kept. pn_now pn - max_age \<le> ar_created a) \<and> total_bytes kept \<le> max_bytes \<and>
    (removed \<noteq> [] \<longrightarrow> ar_created (last removed) < pn_now pn - max_age \<or>
       max_bytes < ar_bytes (last removed) + total_bytes kept)"
proof -
  let ?as = "sort_key ar_created found"
  from assms obtain tot where t: "sum_sizes ?as 0 = Some tot" "0 < max_bytes"
    "prune_loop pn (pn_now pn - max_age) max_bytes ?as tot n = (True, removed)"
    by (auto simp: prune_def Let_def split: if_splits option.splits)
  have "tot = total_bytes ?as" using sum_sizes_total [OF t(1)] by simp
  with t show ?thesis by (intro prune_loop_prefix) auto
qed

definition demo_marker :: marker_env where
  "demo_marker = \<lparr>mk_lstat = MarkerStat RegularFile 1, mk_open_err = False, mk_kind = RegularFile, mk_mode = 384,
     mk_uid = 0, mk_links = 1, mk_same = True, mk_data = Some archive_marker_content\<rparr>"

definition demo_name :: string where
  "demo_name = archive_prefix @ format_stamp demo_time @ ''-'' @ replicate 32 (CHR ''a'') @ ''-0001-r''"

definition demo_entry :: log_entry where
  "demo_entry = \<lparr>le_name = demo_name, le_is_dir = True, le_open_err = False, le_uid = 0, le_mode = 448,
     le_marker = demo_marker, le_nodes = [FsFile ''a.log'' 5, FsFile archive_marker 32], le_device = 1, le_inode = 7\<rparr>"

definition demo_archive :: archive where
  "demo_archive = \<lparr>ar_name = demo_name, ar_created = civil_time demo_time, ar_bytes = 37, ar_device = 1, ar_inode = 7\<rparr>"

definition demo_prune :: prune_env where
  "demo_prune = \<lparr>pn_ctx = 100, pn_logs = LogsOpened [demo_entry], pn_list_err = False, pn_euid = 0,
     pn_now = civil_time demo_time + 10, pn_recheck = (\<lambda>_. Some (1, 7)),
     pn_nodes = (\<lambda>_. [FsFile ''a.log'' 5, FsFile archive_marker 32]), pn_io = (\<lambda>_. False)\<rparr>"

lemma demo_name_facts: "archive_name_ok demo_name" "archive_created demo_name = Some demo_time"
proof -
  have len: "length (format_stamp demo_time) = 16" by (simp add: format_stamp_def)
  have hex: "list_all hex_char (replicate 32 (CHR ''a''))"
    by (simp add: list_all_iff hex_char_def less_eq_char_def)
  show "archive_name_ok demo_name"
    unfolding archive_name_ok_def demo_name_def trim_prefix_append Let_def
    using stamp_shape_format hex len
    by (simp add: nth_append name_char_def is_digit_def is_lower_def less_eq_char_def)
  show "archive_created demo_name = Some demo_time"
    unfolding archive_created_def demo_name_def trim_prefix_append
    using len by (simp add: parse_format_stamp demo_time_ok)
qed

lemma demo_found: "find_archives 0 False [demo_entry] 99 = Some ([demo_archive], 94)"
  by (simp add: demo_entry_def inspect_archive_def demo_marker_def valid_marker_def demo_name_facts demo_archive_def
      max_int64_def)

lemma demo_pruned: "prune demo_prune ''/l'' 1 100 = (True, [demo_archive])"
  using demo_found
  by (simp add: prune_def demo_prune_def demo_archive_def max_int64_def remove_archive_def archive_marker_def Let_def)

theorem prune_exact_witness:
  "\<exists>kept. [demo_archive] = [demo_archive] @ kept \<and> total_bytes kept \<le> 100"
  using prune_exact [OF demo_pruned, of "[demo_entry]" "[demo_archive]" 94] demo_found
  by (auto simp: demo_prune_def)

text \<open>Retention touches only its own archives: whatever \<open>Prune\<close> removes, also when it fails half way, is
  a directory with a name of the published form, private to the supervisor and with a valid marker,
  and still the directory that was inspected (same device and inode) when the removal began.\<close>

lemma prune_only_own:
  assumes "prune pn log_path max_age max_bytes = (good, removed)" "a \<in> set removed"
  shows "\<exists>es e. pn_logs pn = LogsOpened es \<and> e \<in> set es \<and> le_is_dir e \<and> archive_name_ok (le_name e) \<and>
    le_uid e = pn_euid pn \<and> le_mode e mod 64 = 0 \<and> valid_marker (pn_euid pn) (le_marker e) = Some True \<and>
    ar_name a = le_name e \<and> pn_recheck pn (le_name e) = Some (le_device e, le_inode e)"
proof -
  from assms obtain es found n tot where p: "pn_logs pn = LogsOpened es"
    "find_archives (pn_euid pn) (pn_list_err pn) es (pn_ctx pn - 1) = Some (found, n)"
    "prune_loop pn (pn_now pn - max_age) max_bytes (sort_key ar_created found) tot n = (good, removed)"
    by (auto simp: prune_def Let_def split: if_splits option.splits logs_open.splits)
  have "a \<in> set found" and "pn_recheck pn (ar_name a) = Some (ar_device a, ar_inode a)"
    using prune_loop_rechecked [OF p(3) assms(2)] by simp_all
  with find_archives_owned [OF p(2)] p(1) show ?thesis by metis
qed


text \<open>An interrupted removal can be resumed: however far the removal of an archive gets before its
  context ends or a call fails, as long as the last call, the removal of the empty directory itself,
  does not fail, either the archive is gone or its marker is still in it, so a later \<open>Prune\<close> will
  find it again.\<close>

lemma removal_resumable:
  assumes "remove_archive io name nodes n = (good, m, left)" "\<not> io [name]"
  shows "(good \<longleftrightarrow> left = None) \<and>
    (\<forall>rest. left = Some rest \<longrightarrow>
       filter (\<lambda>e. node_name e = archive_marker) rest = filter (\<lambda>e. node_name e = archive_marker) nodes)"
proof (cases "n = 0")
  case True
  then show ?thesis using assms by (auto simp: remove_archive_def)
next
  case False
  obtain g k rest where r: "remove_nodes io [name] (Some archive_marker) nodes (n - 1) = (g, k, rest)"
    by (metis prod_cases3)
  from remove_nodes_keeps [OF r] show ?thesis
    using assms False r by (auto simp: remove_archive_def split: if_splits)
qed


end
