(* ===== verification/Scaleset.thy ===== *)
theory Scaleset
  imports Pool Config
begin

text \<open>
  The scale-set adapter (\<open>scaleset/adapter.go\<close>) between the GitHub client library and one pool: resolving or
  creating the scale set, one run of the listener with its session, and the translation of listener
  callbacks into events; \<open>scaleSetFor\<close> of \<open>app.go\<close>, which configures it; and the delivery of its events
  to the pool's callbacks. The client library and the listener loop are not part of the repository: the
  client is a record of functions over a state of its own, the listener any sequence of callbacks.
\<close>

section \<open>Configuration\<close>

record ss_config =
  sc_url :: string
  sc_client_id :: string
  sc_installation_id :: int
  sc_private_key :: string
  sc_owner :: string
  sc_repository :: string
  sc_name :: string
  sc_group :: string
  sc_labels :: "string list"
  sc_min :: int
  sc_max :: int
  sc_disable_update :: bool
  sc_version :: string
  sc_session_owner :: string

text \<open>\<open>scaleSetFor\<close>, without an injected scale set: the configuration it builds for a pool.\<close>

definition github_url :: "pool_config \<Rightarrow> string" where
  "github_url p =
     trim_suffix (cp_url p) ''/'' @ ''/'' @ cp_owner p @
     (if cp_kind p = ''repository'' then ''/'' @ cp_repository p else [])"

definition scale_set_for :: "string \<Rightarrow> string \<Rightarrow> bool \<Rightarrow> string \<Rightarrow> pool_config \<Rightarrow> ss_config" where
  "scale_set_for hostname version disable_update private_key p =
     \<lparr>sc_url = github_url p, sc_client_id = cp_client_id p, sc_installation_id = cp_installation_id p,
      sc_private_key = private_key, sc_owner = cp_owner p, sc_repository = cp_repository p,
      sc_name = cp_set_name p, sc_group = cp_group p, sc_labels = cp_labels p, sc_min = cp_min p,
      sc_max = cp_max p, sc_disable_update = disable_update, sc_version = version,
      sc_session_owner = hostname @ ''-'' @ cp_id p\<rparr>"

text \<open>\<open>privateKey\<close>: the key of a path is read once; the first argument is what a read of the file answers.\<close>

definition private_key :: "(string \<Rightarrow> string option) \<Rightarrow> string \<Rightarrow> (string \<times> string) list \<Rightarrow>
    string option \<times> (string \<times> string) list" where
  "private_key read_file path keys =
     (case map_of keys path of
        Some key \<Rightarrow> (Some key, keys)
      | None \<Rightarrow> (case read_file path of None \<Rightarrow> (None, keys) | Some key \<Rightarrow> (Some key, put_key path key keys)))"

section \<open>The scale set\<close>

record new_scale_set =
  ns_name :: string
  ns_group :: int
  ns_labels :: "string list"
  ns_disable_update :: bool

text \<open>The client library: looking up a group and a scale set (an error, nothing, or an ID), creating a
  scale set, minting a JIT configuration.\<close>

record 'u client =
  uc_group :: "'u \<Rightarrow> string \<Rightarrow> int option"
  uc_get :: "'u \<Rightarrow> int \<Rightarrow> string \<Rightarrow> int option option"
  uc_create :: "'u \<Rightarrow> new_scale_set \<Rightarrow> int option \<times> 'u"
  uc_jit :: "'u \<Rightarrow> string \<Rightarrow> string \<Rightarrow> int \<Rightarrow> string option"

record adapter =
  ad_cfg :: ss_config
  ad_set_id :: int

definition new_adapter :: "ss_config \<Rightarrow> adapter" where
  "new_adapter cfg = \<lparr>ad_cfg = cfg, ad_set_id = 0\<rparr>"

definition build_labels :: "ss_config \<Rightarrow> string list" where
  "build_labels cfg = sc_name cfg # filter (\<lambda>l. l \<noteq> []) (sc_labels cfg)"

definition resolve_group :: "'u client \<Rightarrow> 'u \<Rightarrow> string \<Rightarrow> int option" where
  "resolve_group uc u grp = (if grp \<in> {[], ''default'', ''Default''} then Some 1 else uc_group uc u grp)"

text \<open>\<open>EnsureScaleSet\<close>: \<open>True\<close> is success.\<close>

definition ensure_scale_set :: "'u client \<Rightarrow> 'u \<Rightarrow> adapter \<Rightarrow> bool \<times> 'u \<times> adapter" where
  "ensure_scale_set uc u ad =
     (let cfg = ad_cfg ad in
      case resolve_group uc u (sc_group cfg) of
        None \<Rightarrow> (False, u, ad)
      | Some gid \<Rightarrow>
          (case uc_get uc u gid (sc_name cfg) of
             None \<Rightarrow> (False, u, ad)
           | Some (Some sid) \<Rightarrow> (True, u, ad\<lparr>ad_set_id := sid\<rparr>)
           | Some None \<Rightarrow>
               (case uc_create uc u \<lparr>ns_name = sc_name cfg, ns_group = gid, ns_labels = build_labels cfg,
                                     ns_disable_update = sc_disable_update cfg\<rparr> of
                  (None, u1) \<Rightarrow> (False, u1, ad)
                | (Some sid, u1) \<Rightarrow> (True, u1, ad\<lparr>ad_set_id := sid\<rparr>))))"

definition generate_jit :: "'u client \<Rightarrow> 'u \<Rightarrow> string \<Rightarrow> string \<Rightarrow> adapter \<Rightarrow> string option" where
  "generate_jit uc u runner_name work_folder ad =
     (if ad_set_id ad = 0 then None else uc_jit uc u runner_name work_folder (ad_set_id ad))"

section \<open>Events\<close>

text \<open>Upstream job and queue messages, as far as the adapter reads them.\<close>

record job_base =
  jm_job_id :: string
  jm_workflow_ref :: string
  jm_run_id :: int
  jm_event_name :: string
  jm_queue_time :: time
  jm_assign_time :: time
  jm_finish_time :: time

record message =
  ms_id :: int
  ms_available :: "string option list"

definition job_of :: "job_base \<Rightarrow> string \<Rightarrow> string \<Rightarrow> job" where
  "job_of base runner_name result =
     \<lparr>jb_runner_name = runner_name, jb_job_id = jm_job_id base, jb_workflow_ref = jm_workflow_ref base,
      jb_run_id = jm_run_id base, jb_event_name = jm_event_name base, jb_queue_time = jm_queue_time base,
      jb_assign_time = jm_assign_time base, jb_finish_time = jm_finish_time base, jb_result = result\<rparr>"

text \<open>Why a run of the listener stopped; the flag says whether the error is a cancellation of the context.\<close>

datatype run_error = NotEnsured | SessionFailed bool | ListenerInvalid | ListenerFailed bool

datatype event_call =
  CallSessionStarted
| CallDesired int
| CallJobStart job
| CallJobEnd job
| CallQueued "string list"
| CallMessageID int
| CallSession "run_error option"

text \<open>\<open>Events\<close>: which callbacks are set.\<close>

record events =
  ev_session_started :: bool
  ev_desired :: bool
  ev_job_start :: bool
  ev_job_end :: bool
  ev_queued :: bool
  ev_message_id :: bool
  ev_session :: bool

definition call_if :: "bool \<Rightarrow> event_call \<Rightarrow> event_call list" where
  "call_if set_up c = (if set_up then [c] else [])"

definition observe_message :: "events \<Rightarrow> message \<Rightarrow> event_call list" where
  "observe_message ev msg =
     call_if (ev_message_id ev) (CallMessageID (ms_id msg)) @
     (if \<not> ev_queued ev \<or> ms_available msg = [] then []
      else let refs = filter (\<lambda>r. r \<noteq> []) (List.map_filter (\<lambda>ja. ja) (ms_available msg))
           in if refs \<noteq> [] then [CallQueued refs] else [])"

text \<open>What the listener does to the adapter: a fetched message (\<open>None\<close>: an error or no message), a desired
  count, a started or completed job (\<open>None\<close>: a nil message).\<close>

datatype listener_call =
  FetchMessage "message option"
| DesiredCount int
| JobStarted "(job_base \<times> string) option"
| JobCompleted "(job_base \<times> string \<times> string) option"

fun handle_call :: "events \<Rightarrow> ss_config \<Rightarrow> listener_call \<Rightarrow> event_call list" where
  "handle_call ev cfg (FetchMessage None) = []"
| "handle_call ev cfg (FetchMessage (Some msg)) = observe_message ev msg"
| "handle_call ev cfg (DesiredCount n) = call_if (ev_desired ev) (CallDesired (clamp n (sc_min cfg) (sc_max cfg)))"
| "handle_call ev cfg (JobStarted None) = []"
| "handle_call ev cfg (JobStarted (Some (base, runner_name))) =
     call_if (ev_job_start ev) (CallJobStart (job_of base runner_name []))"
| "handle_call ev cfg (JobCompleted None) = []"
| "handle_call ev cfg (JobCompleted (Some (base, runner_name, result))) =
     call_if (ev_job_end ev) (CallJobEnd (job_of base runner_name result))"

section \<open>One run\<close>

text \<open>What a run meets: whether the session is created (\<open>Some c\<close> is an error, a cancellation or not), the
  listener's construction, its callbacks and its end, and whether the context has ended by then.\<close>

record run_env =
  rn_session_err :: "bool option"
  rn_listener_err :: bool
  rn_calls :: "listener_call list"
  rn_end :: "bool option"
  rn_ctx_done :: bool

text \<open>\<open>Run\<close>: its result, the event calls in order, and whether the session is shut at the end.\<close>

definition session_reason :: "run_error option \<Rightarrow> run_error option" where
  "session_reason err = (if err = Some (ListenerFailed True) then None else err)"

definition run_listener :: "events \<Rightarrow> run_env \<Rightarrow> adapter \<Rightarrow> run_error option \<times> event_call list \<times> bool" where
  "run_listener ev rn ad =
     (if ad_set_id ad = 0 then (Some NotEnsured, [], False)
      else case rn_session_err rn of
        Some c \<Rightarrow> (Some (SessionFailed c), call_if (ev_session ev) (CallSession (Some (SessionFailed c))), False)
      | None \<Rightarrow>
          let start = call_if (ev_session_started ev) CallSessionStarted;
              body = (if rn_listener_err rn then [] else concat (map (handle_call ev (ad_cfg ad)) (rn_calls rn)));
              err = (if rn_listener_err rn then Some ListenerInvalid
                     else map_option ListenerFailed (rn_end rn))
          in (err, start @ body @ call_if (ev_session ev) (CallSession (session_reason err)), rn_ctx_done rn))"

section \<open>Delivery to the pool\<close>

text \<open>\<open>buildEvents\<close>: every callback is set.\<close>

definition pool_events :: events where
  "pool_events = \<lparr>ev_session_started = True, ev_desired = True, ev_job_start = True, ev_job_end = True,
     ev_queued = True, ev_message_id = True, ev_session = True\<rparr>"

fun deliver :: "time \<Rightarrow> event_call \<Rightarrow> pool \<Rightarrow> pool \<times> host_call list" where
  "deliver now CallSessionStarted p = (on_session_started p, [])"
| "deliver now (CallDesired n) p = on_desired n p"
| "deliver now (CallJobStart jb) p = on_job_start jb p"
| "deliver now (CallJobEnd jb) p = (on_job_end jb p, [])"
| "deliver now (CallQueued refs) p = (note_queued now refs p, [])"
| "deliver now (CallMessageID n) p = (p, on_message_id n p)"
| "deliver now (CallSession err) p = (p, [])"

definition deliver_all :: "(time \<times> event_call) list \<Rightarrow> pool \<Rightarrow> pool" where
  "deliver_all cs p = foldl (\<lambda>p (now, c). fst (deliver now c p)) p cs"

section \<open>Facts\<close>

lemma deliver_all_simps [simp]:
  "deliver_all [] p = p" "deliver_all ((now, c) # cs) p = deliver_all cs (fst (deliver now c p))"
  by (simp_all add: deliver_all_def)

lemma note_queued_frame:
  "pl_min (note_queued now refs p) = pl_min p \<and> pl_max (note_queued now refs p) = pl_max p \<and>
   pl_desired (note_queued now refs p) = pl_desired p"
proof -
  have "pl_min (foldl (\<lambda>p ref. note_ref now ref p) q refs) = pl_min q \<and>
      pl_max (foldl (\<lambda>p ref. note_ref now ref p) q refs) = pl_max q \<and>
      pl_desired (foldl (\<lambda>p ref. note_ref now ref p) q refs) = pl_desired q" for q
    by (induction refs arbitrary: q) (auto simp: note_ref_def)
  then show ?thesis by (simp add: note_queued_def expire_queued_def Let_def)
qed

lemma deliver_frame:
  "pl_min (fst (deliver now c p)) = pl_min p \<and> pl_max (fst (deliver now c p)) = pl_max p \<and>
   pl_desired (fst (deliver now c p)) =
     (case c of CallDesired n \<Rightarrow> clamp n (pl_min p) (pl_max p) | _ \<Rightarrow> pl_desired p)"
  by (cases c) (auto simp: on_session_started_def on_desired_def on_job_start_def on_job_end_def
      consume_queued_ref_def note_queued_frame Let_def split: prod.splits)

text \<open>The last count among the calls.\<close>

definition counts :: "event_call list \<Rightarrow> int list" where
  "counts cs = List.map_filter (\<lambda>c. case c of CallDesired n \<Rightarrow> Some n | _ \<Rightarrow> None) cs"

lemma counts_simps [simp]:
  "counts [] = []" "counts (cs @ ds) = counts cs @ counts ds"
  "counts (c # cs) = (case c of CallDesired n \<Rightarrow> [n] | _ \<Rightarrow> []) @ counts cs"
  by (simp_all add: counts_def map_filter_def split: event_call.split)

lemma deliver_all_desired:
  "pl_min (deliver_all cs p) = pl_min p \<and> pl_max (deliver_all cs p) = pl_max p \<and>
   pl_desired (deliver_all cs p) =
     (if counts (map snd cs) = [] then pl_desired p else clamp (last (counts (map snd cs))) (pl_min p) (pl_max p))"
proof (induction cs arbitrary: p)
  case (Cons nc cs)
  obtain now c where nc: "nc = (now, c)" by fastforce
  show ?case using Cons.IH [of "fst (deliver now c p)"] deliver_frame [of now c p]
    by (auto simp: nc split: event_call.splits)
qed simp

definition listener_counts :: "listener_call list \<Rightarrow> int list" where
  "listener_counts ls = List.map_filter (\<lambda>l. case l of DesiredCount n \<Rightarrow> Some n | _ \<Rightarrow> None) ls"

lemma counts_handle:
  "counts (handle_call pool_events cfg l) =
     (case l of DesiredCount n \<Rightarrow> [clamp n (sc_min cfg) (sc_max cfg)] | _ \<Rightarrow> [])"
  by (cases "(pool_events, cfg, l)" rule: handle_call.cases)
    (auto simp: call_if_def pool_events_def observe_message_def Let_def)

lemma counts_calls:
  "counts (concat (map (handle_call pool_events cfg) ls)) =
     map (\<lambda>n. clamp n (sc_min cfg) (sc_max cfg)) (listener_counts ls)"
  by (induction ls) (auto simp: counts_handle listener_counts_def map_filter_def split: listener_call.split)

lemma pool_events_set [simp]:
  "ev_session_started pool_events" "ev_desired pool_events" "ev_session pool_events"
  by (simp_all add: pool_events_def)

section \<open>Properties\<close>

text \<open>C27: The desired count survives the way from GitHub to the pool with one clamp: whatever else a run of
  the listener reports, whenever its events are delivered, the pool's desired count ends as the last
  count GitHub sent, clamped to the pool's own capacity, although both the adapter and the pool
  clamp it (the adapter is configured with the pool's capacity, as \<open>scaleSetFor\<close> does, and its
  session and listener have come up); without any count it stays what it was.\<close>

theorem desired_clamped_once:
  assumes "run_listener pool_events rn ad = (err, calls, shut)" "map snd timed = calls"
    and "sc_min (ad_cfg ad) = pl_min p" "sc_max (ad_cfg ad) = pl_max p"
    and "ad_set_id ad \<noteq> 0" "rn_session_err rn = None" "\<not> rn_listener_err rn"
  shows "pl_desired (deliver_all timed p) =
    (if listener_counts (rn_calls rn) = [] then pl_desired p
     else clamp (last (listener_counts (rn_calls rn))) (pl_min p) (pl_max p))"
proof -
  have "counts calls = map (\<lambda>n. clamp n (pl_min p) (pl_max p)) (listener_counts (rn_calls rn))"
    using assms(1,3-) by (auto simp: run_listener_def Let_def call_if_def counts_calls)
  then show ?thesis using deliver_all_desired [of timed p] assms(2) by (simp add: last_map)
qed

definition demo_run :: run_env where
  "demo_run = \<lparr>rn_session_err = None, rn_listener_err = False,
     rn_calls = [DesiredCount 9, FetchMessage (Some \<lparr>ms_id = 4, ms_available = [Some ''w'', None]\<rparr>), DesiredCount 7],
     rn_end = Some True, rn_ctx_done = True\<rparr>"

definition demo_pool_config :: pool_config where
  "demo_pool_config = \<lparr>cp_id = ''p'', cp_url = ''https://g/'', cp_client_id = ''c'', cp_installation_id = 1,
     cp_key_path = ''/k'', cp_kind = ''repository'', cp_owner = ''o'', cp_repository = ''r'', cp_set_name = ''s'',
     cp_group = [], cp_labels = [''x'', []], cp_min = 1, cp_max = 4\<rparr>"

definition demo_adapter :: adapter where
  "demo_adapter = (new_adapter (scale_set_for ''h'' ''v'' False ''key'' demo_pool_config))\<lparr>ad_set_id := 3\<rparr>"

theorem desired_clamped_once_witness:
  "\<exists>timed. pl_desired (deliver_all timed (new_pool_runtime ''p'' 1 4 (new_table ''/s'' ''/j'' [] 1 []))) = 4"
proof -
  obtain err calls shut where r: "run_listener pool_events demo_run demo_adapter = (err, calls, shut)"
    by (metis prod_cases3)
  have "pl_desired (deliver_all (map (Pair 1) calls) (new_pool_runtime ''p'' 1 4 (new_table ''/s'' ''/j'' [] 1 []))) = 4"
    using desired_clamped_once [OF r, of "map (Pair 1) calls" "new_pool_runtime ''p'' 1 4 (new_table ''/s'' ''/j'' [] 1 [])"]
    by (simp add: comp_def demo_adapter_def new_adapter_def scale_set_for_def demo_pool_config_def new_pool_runtime_def
        demo_run_def listener_counts_def map_filter_def clamp_def)
  then show ?thesis by blast
qed

text \<open>A run reports the end of its session once, as its last event: with \<open>nil\<close> when the listener ended
  without an error or with the cancellation of its context. Two ends differ from what the comment of
  \<open>Run\<close> says (on every return, and \<open>nil\<close> when the context was canceled): a run before
  \<open>EnsureScaleSet\<close> reports nothing, and a session that cannot be created is reported as an error
  even when the context was canceled.\<close>

lemma session_end_reported:
  assumes "run_listener pool_events rn ad = (err, calls, shut)"
  shows "if ad_set_id ad = 0 then calls = [] \<and> err = Some NotEnsured
    else (\<exists>before reason. calls = before @ [CallSession reason] \<and> (\<forall>r. CallSession r \<notin> set before) \<and>
      (reason = None \<longleftrightarrow> rn_session_err rn = None \<and> \<not> rn_listener_err rn \<and> rn_end rn \<in> {None, Some True}) \<and>
      (\<forall>c. rn_session_err rn = Some c \<longrightarrow> reason = Some (SessionFailed c)))"
proof -
  have quiet: "CallSession r \<notin> set (handle_call pool_events cfg l)" for r cfg l
    by (cases "(pool_events, cfg, l)" rule: handle_call.cases) (auto simp: call_if_def observe_message_def Let_def)
  show ?thesis
  proof (cases "ad_set_id ad = 0")
    case True
    with assms show ?thesis by (simp add: run_listener_def)
  next
    case False
    show ?thesis
    proof (cases "rn_session_err rn")
      case None
      define body where "body = (if rn_listener_err rn then [] else concat (map (handle_call pool_events (ad_cfg ad)) (rn_calls rn)))"
      define e where "e = (if rn_listener_err rn then Some ListenerInvalid else map_option ListenerFailed (rn_end rn))"
      have "calls = (CallSessionStarted # body) @ [CallSession (session_reason e)]"
        using assms False None by (auto simp: run_listener_def Let_def call_if_def body_def e_def)
      moreover have "CallSession r \<notin> set (CallSessionStarted # body)" for r
        using quiet by (auto simp: body_def)
      moreover have "session_reason e = None \<longleftrightarrow> \<not> rn_listener_err rn \<and> rn_end rn \<in> {None, Some True}"
        by (cases "rn_end rn") (auto simp: session_reason_def e_def)
      ultimately show ?thesis using False None by (metis option.distinct(1))
    next
      case (Some c)
      with assms False show ?thesis by (auto simp: run_listener_def call_if_def)
    qed
  qed
qed


text \<open>Ensuring the scale set twice creates it at most once: when the client finds a scale set it has
  created, and a lookup is not affected by an earlier one, the second call finds the set of the first, changes
  nothing upstream and keeps the ID.\<close>

lemma ensure_scale_set_idempotent:
  assumes created_found: "\<And>u s sid u1. uc_create uc u s = (Some sid, u1) \<Longrightarrow>
      uc_get uc u1 (ns_group s) (ns_name s) = Some (Some sid) \<and> uc_group uc u1 = uc_group uc u"
    and "ensure_scale_set uc u ad = (True, u1, ad1)"
  shows "ensure_scale_set uc u1 ad1 = (True, u1, ad1)"
proof -
  let ?cfg = "ad_cfg ad"
  from assms(2) obtain gid where g: "resolve_group uc u (sc_group ?cfg) = Some gid"
    by (auto simp: ensure_scale_set_def Let_def split: option.splits)
  have keep: "resolve_group uc u1 (sc_group ?cfg) = Some gid \<and> uc_get uc u1 gid (sc_name ?cfg) = Some (Some (ad_set_id ad1)) \<and>
      ad_cfg ad1 = ?cfg"
  proof (cases "uc_get uc u gid (sc_name ?cfg)")
    case None
    with assms(2) g show ?thesis by (simp add: ensure_scale_set_def)
  next
    case (Some found)
    show ?thesis
    proof (cases found)
      case None
      define s where "s = \<lparr>ns_name = sc_name ?cfg, ns_group = gid, ns_labels = build_labels ?cfg,
          ns_disable_update = sc_disable_update ?cfg\<rparr>"
      obtain sid where c: "uc_create uc u s = (Some sid, u1)" "ad1 = ad\<lparr>ad_set_id := sid\<rparr>"
        using assms(2) g Some None by (auto simp: ensure_scale_set_def s_def [symmetric] Let_def split: prod.splits option.splits)
      from created_found [OF c(1)] g show ?thesis by (auto simp: c(2) s_def resolve_group_def split: if_splits)
    next
      case (Some sid)
      with assms(2) g \<open>uc_get uc u gid (sc_name ?cfg) = Some found\<close> show ?thesis
        by (auto simp: ensure_scale_set_def)
    qed
  qed
  then show ?thesis by (simp add: ensure_scale_set_def)
qed

definition demo_client :: "(int \<times> string) list client" where
  "demo_client = \<lparr>uc_group = (\<lambda>u g. Some 2),
     uc_get = (\<lambda>u g n. Some (if (g, n) \<in> set u then Some 5 else None)),
     uc_create = (\<lambda>u s. (Some 5, (ns_group s, ns_name s) # u)), uc_jit = (\<lambda>u r w i. Some r)\<rparr>"


end
