(* ===== verification/Tar_Extract.thy ===== *)
theory Tar_Extract
  imports Paths Steps
begin

text \<open>
  Unpacking the runner release (\<open>payload.go\<close>: \<open>extractEntry\<close>, \<open>safeTarPath\<close>, \<open>safeSymlink\<close>) on a model of a Unix
  file system: a map from the elements of an absolute path to a node, in which the calls of package \<open>os\<close>
  resolve symbolic links the way the kernel does.
\<close>

section \<open>The file system\<close>

type_synonym path = "string list"

datatype node = DirNode nat | FileNode nat string | LinkNode string

type_synonym fs = "path \<Rightarrow> node option"

fun is_link :: "node option \<Rightarrow> bool" where
  "is_link (Some (LinkNode l)) = True"
| "is_link _ = False"

fun is_dir :: "node option \<Rightarrow> bool" where
  "is_dir (Some (DirNode m)) = True"
| "is_dir _ = False"

text \<open>Path resolution: the place a path leads to, whether or not something is there, following at most \<open>n\<close>
  links; \<open>None\<close> when an element on the way is missing or not a directory, or the links do not end.\<close>

function walk_path :: "nat \<Rightarrow> fs \<Rightarrow> path \<Rightarrow> string list \<Rightarrow> path option" where
  "walk_path n t cur [] = Some cur"
| "walk_path n t cur (c # cs) =
     (if c = [] \<or> c = ''.'' then walk_path n t cur cs
      else if c = ''..'' then walk_path n t (butlast cur) cs
      else case t (cur @ [c]) of
        Some (LinkNode l) \<Rightarrow>
          (case n of 0 \<Rightarrow> None
           | Suc m \<Rightarrow> walk_path m t (if is_abs l then [] else cur) (split_byte (CHR ''/'') l @ cs))
      | Some (DirNode m) \<Rightarrow> walk_path n t (cur @ [c]) cs
      | Some (FileNode m d) \<Rightarrow> if cs = [] then Some (cur @ [c]) else None
      | None \<Rightarrow> if cs = [] then Some (cur @ [c]) else None)"
  by pat_completeness auto
termination
  by (relation "measures [\<lambda>(n, t, cur, cs). n, \<lambda>(n, t, cur, cs). length cs]") auto

definition max_links :: nat where "max_links = 40"

definition follow :: "fs \<Rightarrow> path \<Rightarrow> path option" where
  "follow t p = walk_path max_links t [] p"

text \<open>\<open>os.MkdirAll\<close>: every missing directory on the way is created.\<close>

fun mkdir_all :: "nat \<Rightarrow> path \<Rightarrow> string list \<Rightarrow> fs step" where
  "mkdir_all mode before [] t = (True, t)"
| "mkdir_all mode before (c # cs) t =
     (case follow t (before @ [c]) of
        None \<Rightarrow> (False, t)
      | Some q \<Rightarrow>
          (if is_dir (t q) then mkdir_all mode (before @ [c]) cs t
           else if t q \<noteq> None then (False, t)
           else case follow t before of
             None \<Rightarrow> (False, t)
           | Some d \<Rightarrow>
               if t (d @ [c]) = None
               then mkdir_all mode (before @ [c]) cs (t(d @ [c] \<mapsto> DirNode mode))
               else (False, t)))"

text \<open>\<open>os.Chmod\<close>; \<open>os.OpenFile\<close> for writing, creating and truncating; \<open>os.Symlink\<close>.\<close>

definition set_mode :: "nat \<Rightarrow> node \<Rightarrow> node" where
  "set_mode m nd = (case nd of DirNode m' \<Rightarrow> DirNode m | FileNode m' d \<Rightarrow> FileNode m d | LinkNode l \<Rightarrow> LinkNode l)"

definition chmod :: "path \<Rightarrow> nat \<Rightarrow> fs step" where
  "chmod p m t =
     (case follow t p of None \<Rightarrow> (False, t)
      | Some q \<Rightarrow> (case t q of None \<Rightarrow> (False, t) | Some nd \<Rightarrow> (True, t(q \<mapsto> set_mode m nd))))"

definition write_new :: "path \<Rightarrow> nat \<Rightarrow> string \<Rightarrow> fs step" where
  "write_new p m d t =
     (case follow t p of None \<Rightarrow> (False, t)
      | Some q \<Rightarrow>
          (case t q of
             None \<Rightarrow> (True, t(q \<mapsto> FileNode m d))
           | Some (FileNode m' d') \<Rightarrow> (True, t(q \<mapsto> FileNode m' d))
           | Some _ \<Rightarrow> (False, t)))"

definition symlink :: "string \<Rightarrow> path \<Rightarrow> fs step" where
  "symlink target p t =
     (case follow t (butlast p) of None \<Rightarrow> (False, t)
      | Some d \<Rightarrow> if is_dir (t d) \<and> t (d @ [last p]) = None
                  then (True, t(d @ [last p] \<mapsto> LinkNode target)) else (False, t))"

section \<open>Tar entries\<close>

datatype tar_type = TarDir | TarReg | TarSymlink | TarLink | TarXHeader | TarOther

text \<open>A header and what happens while its entry is written: whether the context has ended before or after,
  the bytes read and whether they were all, and whether a call other than those modelled fails.\<close>

record tar_entry =
  te_name :: string
  te_type :: tar_type
  te_mode :: nat
  te_link :: string
  te_ctx_err :: bool
  te_data :: string
  te_read_err :: bool
  te_io_err :: bool

definition safe_tar_path :: "string \<Rightarrow> bool" where
  "safe_tar_path name \<longleftrightarrow>
     \<not> (name = [] \<or> is_abs name) \<and>
     (let cleaned = clean_path name in \<not> (cleaned = ''..'' \<or> has_prefix cleaned ''../''))"

definition safe_symlink :: "string \<Rightarrow> string \<Rightarrow> string \<Rightarrow> bool" where
  "safe_symlink base dir linkname \<longleftrightarrow>
     \<not> is_abs linkname \<and>
     (case rel_path base (join_path [dir, linkname]) of
        None \<Rightarrow> False
      | Some rel \<Rightarrow> \<not> (rel = ''..'' \<or> has_prefix rel ''../''))"

definition extract_entry :: "string \<Rightarrow> tar_entry \<Rightarrow> fs step" where
  "extract_entry base te =
     (if te_ctx_err te \<or> \<not> safe_tar_path (te_name te) then fail
      else
        let target = join_path [base, clean_path (te_name te)];
            p = path_elems target; parent = path_elems (dir_path target) in
        case te_type te of
          TarDir \<Rightarrow> andthen (mkdir_all 448 [] p) (if te_io_err te then fail else chmod p (te_mode te))
        | TarReg \<Rightarrow>
            andthen (mkdir_all 493 [] parent)
            (andthen (write_new p 384 (te_data te))
            (if te_read_err te \<or> te_io_err te then fail else chmod p (te_mode te)))
        | TarSymlink \<Rightarrow>
            if \<not> safe_symlink base (dir_path target) (te_link te) then ok
            else andthen (mkdir_all 493 [] parent) (if te_io_err te then fail else symlink (te_link te) p)
        | TarLink \<Rightarrow> ok
        | TarXHeader \<Rightarrow> ok
        | TarOther \<Rightarrow> fail)"

text \<open>The loop of \<open>extract\<close>: entries up to the end of the archive or the first error.\<close>

fun extract_entries :: "string \<Rightarrow> tar_entry list \<Rightarrow> fs step" where
  "extract_entries base [] = ok"
| "extract_entries base (te # es) = andthen (extract_entry base te) (extract_entries base es)"

section \<open>Lexical paths\<close>

lemma split_byte_append_sep: "split_byte c (u @ c # v) = split_byte c u @ split_byte c v"
  by (induction u) (auto split: list.split simp: Cons_eq_append_conv)

lemma split_abs_path:
  "\<forall>e \<in> set es. elem_ok e \<Longrightarrow> foldl (clean_push b) [] (split_byte (CHR ''/'') (abs_path es)) = es"
proof (cases "es = []")
  case False
  assume "\<forall>e \<in> set es. elem_ok e"
  moreover from this False have "split_byte (CHR ''/'') (join es ''/'') = es"
    by (intro split_byte_join) (auto simp: elem_ok_def)
  ultimately show ?thesis using clean_components_ok [of es b "[]"] by (simp add: abs_path_def)
qed (simp add: abs_path_def)

lemma clean_below:
  "\<forall>e \<in> set es. elem_ok e \<Longrightarrow>
   clean_path (abs_path es @ ''/'' @ u) = abs_path (foldl (clean_push True) es (split_byte (CHR ''/'') u))"
proof -
  assume es: "\<forall>e \<in> set es. elem_ok e"
  have "clean_components True (split_byte (CHR ''/'') (abs_path es @ ''/'' @ u)) =
      foldl (clean_push True) es (split_byte (CHR ''/'') u)"
    using split_abs_path [OF es, of True] split_byte_append_sep [of "CHR ''/''" "abs_path es" u]
    by (simp add: clean_components_def)
  moreover have "is_abs (abs_path es @ ''/'' @ u)" by (simp add: abs_path_def is_abs_def has_prefix_def)
  ultimately show ?thesis by (simp add: clean_path_def abs_path_def)
qed

lemma abs_path_snoc: "abs_path (es @ [e]) = (if es = [] then ''/'' @ e else abs_path es @ ''/'' @ e)"
proof -
  have "es \<noteq> [] \<Longrightarrow> join (es @ [e]) ''/'' = join es ''/'' @ ''/'' @ e"
    by (induction es rule: induct_list012) auto
  then show ?thesis by (simp add: abs_path_def)
qed

lemma dir_abs_path:
  assumes "\<forall>x \<in> set (es @ [e]). elem_ok x"
  shows "dir_path (abs_path (es @ [e])) = abs_path es"
proof -
  have e: "CHR ''/'' \<notin> set e" and es: "\<forall>x \<in> set es. elem_ok x" using assms by (auto simp: elem_ok_def)
  show ?thesis
  proof (cases "es = []")
    case True
    have "last_index_byte (''/'' @ e) (CHR ''/'') = Some 0" using last_index_byte_append [OF e, of "[]"] by simp
    with True show ?thesis
      by (simp add: dir_path_def abs_path_snoc) (simp add: abs_path_def clean_path_def clean_components_def is_abs_def has_prefix_def)
  next
    case False
    have "last_index_byte (abs_path es @ ''/'' @ e) (CHR ''/'') = Some (length (abs_path es))"
      using last_index_byte_append [OF e, of "abs_path es"] by simp
    with False clean_below [OF es, of "[]"] show ?thesis by (simp add: dir_path_def abs_path_snoc)
  qed
qed

text \<open>A cleaned relative path: leading \<open>..\<close> elements, then ordinary ones.\<close>

lemma clean_components_rel:
  assumes "\<forall>c \<in> set cs. CHR ''/'' \<notin> set c" "st = replicate k ''..'' @ es" "\<forall>e \<in> set es. elem_ok e"
  shows "\<exists>k es. foldl (clean_push False) st cs = replicate k ''..'' @ es \<and> (\<forall>e \<in> set es. elem_ok e)"
  using assms
proof (induction cs arbitrary: st k es)
  case (Cons c cs)
  have "\<exists>k es. clean_push False st c = replicate k ''..'' @ es \<and> (\<forall>e \<in> set es. elem_ok e)"
  proof (cases "c = ''..''")
    case True
    show ?thesis
    proof (cases "es = []")
      case False
      then have "last es \<noteq> ''..''" using Cons.prems(3) last_in_set [OF False] by (auto simp: elem_ok_def)
      with True False Cons.prems(2,3) show ?thesis
        by (intro exI [of _ k] exI [of _ "butlast es"]) (auto simp: butlast_append dest: in_set_butlastD)
    next
      case empty: True
      with True Cons.prems(2) show ?thesis
        by (cases "k = 0") (auto simp: replicate_append_same intro: exI [of _ "Suc k"] exI [of _ "Suc 0"] exI [of _ "[]"])
    qed
  next
    case False
    show ?thesis
    proof (cases "c = [] \<or> c = ''.''")
      case True
      with Cons.prems(2,3) show ?thesis by auto
    next
      case ordinary: False
      with False Cons.prems(1) have "elem_ok c" by (simp add: elem_ok_def)
      with False ordinary Cons.prems(2,3) show ?thesis
        by (intro exI [of _ k] exI [of _ "es @ [c]"]) auto
    qed
  qed
  then obtain j fs where step: "clean_push False st c = replicate j ''..'' @ fs" "\<forall>e \<in> set fs. elem_ok e" by blast
  have "\<forall>c \<in> set cs. CHR ''/'' \<notin> set c" using Cons.prems(1) by simp
  from Cons.IH [OF this step] show ?case by simp
qed auto

lemma join_empty: "\<forall>w \<in> set ws. w \<noteq> [] \<Longrightarrow> join ws sep = [] \<longleftrightarrow> ws = []"
  by (induction ws rule: induct_list012) auto

lemma safe_tar_path_below:
  assumes "safe_tar_path name" "\<forall>e \<in> set bs. elem_ok e"
  shows "\<exists>es. join_path [abs_path bs, clean_path name] = abs_path (bs @ es) \<and> (\<forall>e \<in> set es. elem_ok e)"
proof -
  have rel: "\<not> is_abs name" "name \<noteq> []" using assms(1) by (auto simp: safe_tar_path_def)
  obtain k es where f: "clean_components False (split_byte (CHR ''/'') name) = replicate k ''..'' @ es"
    and es: "\<forall>e \<in> set es. elem_ok e"
    using clean_components_rel [of "split_byte (CHR ''/'') name" "[]" 0 "[]"] split_byte_no_sep
    unfolding clean_components_def by fastforce
  have cp: "clean_path name = (if replicate k ''..'' @ es = [] then ''.'' else join (replicate k ''..'' @ es) ''/'')"
  proof -
    have "w = ''..'' \<or> w \<in> set es" if "w \<in> set (replicate k ''..'' @ es)" for w using that by auto
    moreover have "w \<noteq> []" if "w \<in> set es" for w using es that by (auto simp: elem_ok_def)
    ultimately have ne: "\<forall>w \<in> set (replicate k ''..'' @ es). w \<noteq> []" by fast
    define w where "w = replicate k ''..'' @ es"
    have "join w ''/'' = [] \<longleftrightarrow> w = []" unfolding w_def by (rule join_empty [OF ne])
    moreover have "clean_path name = (if join w ''/'' = [] then ''.'' else join w ''/'')"
      using rel f [folded w_def] by (simp add: clean_path_def Let_def)
    ultimately show ?thesis unfolding w_def [symmetric] by simp
  qed
  have "k = 0"
  proof (rule ccontr)
    assume "k \<noteq> 0"
    then obtain j where "k = Suc j" by (cases k) auto
    then have "clean_path name = ''..'' \<or> has_prefix (clean_path name) ''../''"
      unfolding cp by (cases "replicate j ''..'' @ es") (auto simp: has_prefix_def)
    with assms(1) show False by (simp add: safe_tar_path_def Let_def)
  qed
  with cp have c: "clean_path name = (if es = [] then ''.'' else join es ''/'')" by simp
  have "clean_path name \<noteq> []" "abs_path bs \<noteq> []" using c es
    by (cases es; cases "tl es"; auto simp: elem_ok_def abs_path_def)+
  then have "join_path [abs_path bs, clean_path name] = clean_path (abs_path bs @ ''/'' @ clean_path name)"
    by (simp add: join_path_def)
  also have "\<dots> = abs_path (foldl (clean_push True) bs (split_byte (CHR ''/'') (clean_path name)))"
    using assms(2) by (rule clean_below)
  also have "foldl (clean_push True) bs (split_byte (CHR ''/'') (clean_path name)) = bs @ es"
  proof (cases "es = []")
    case False
    then have "split_byte (CHR ''/'') (join es ''/'') = es"
      using es by (intro split_byte_join) (auto simp: elem_ok_def)
    with False c es clean_components_ok show ?thesis by simp
  qed (simp add: c)
  finally show ?thesis using es by blast
qed

section \<open>Confinement\<close>

text \<open>A directory with no symbolic link below it, reached through no symbolic link.\<close>

definition plain :: "path \<Rightarrow> fs \<Rightarrow> bool" where
  "plain bs t \<longleftrightarrow> (\<forall>k \<le> length bs. is_dir (t (take k bs))) \<and> (\<forall>r. \<not> is_link (t (bs @ r)))"

definition changes_below :: "path \<Rightarrow> fs \<Rightarrow> fs \<Rightarrow> bool" where
  "changes_below bs t t' \<longleftrightarrow> (\<forall>q. t' q \<noteq> t q \<longrightarrow> (\<exists>r. q = bs @ r))"

definition confined :: "path \<Rightarrow> fs \<Rightarrow> fs \<Rightarrow> bool" where
  "confined bs t0 t \<longleftrightarrow> plain bs t \<and> changes_below bs t0 t"

lemma confined_update:
  assumes "confined bs t0 t" "\<not> is_link (Some nd)" "r = [] \<Longrightarrow> is_dir (Some nd)"
  shows "confined bs t0 (t(bs @ r \<mapsto> nd))"
proof -
  have "is_dir ((t(bs @ r \<mapsto> nd)) (take k bs))" if "k \<le> length bs" for k
  proof (cases "take k bs = bs @ r")
    case True
    then have "length bs + length r = k" using that by (metis length_append length_take min.absorb2)
    then have "length r = 0" using that by linarith
    with True assms(3) show ?thesis by simp
  next
    case False
    with assms(1) that show ?thesis by (simp add: confined_def plain_def)
  qed
  moreover have "\<not> is_link ((t(bs @ r \<mapsto> nd)) (bs @ q))" for q
    using assms(1,2) by (auto simp: confined_def plain_def)
  ultimately show ?thesis using assms(1) by (auto simp: confined_def plain_def changes_below_def)
qed

lemma walk_path_plain:
  "\<forall>e \<in> set cs. elem_ok e \<Longrightarrow> \<forall>k \<le> length cs. \<not> is_link (t (cur @ take k cs)) \<Longrightarrow>
   walk_path n t cur cs \<in> {None, Some (cur @ cs)}"
proof (induction cs arbitrary: cur)
  case (Cons c cs)
  have c: "elem_ok c" "\<not> is_link (t (cur @ [c]))" using Cons.prems(1) Cons.prems(2) [rule_format, of 1] by auto
  have "walk_path n t (cur @ [c]) cs \<in> {None, Some ((cur @ [c]) @ cs)}"
    using Cons.prems(1) Cons.prems(2) [rule_format, of "Suc k" for k] by (intro Cons.IH) auto
  with c show ?case by (auto simp: elem_ok_def split: option.split node.split)
qed simp

lemma follow_plain:
  assumes "plain bs t" "\<forall>e \<in> set (bs @ es). elem_ok e" "p = take k (bs @ es)"
  shows "follow t p \<in> {None, Some p}"
proof -
  have nolink: "\<not> is_link (t (take j (bs @ es)))" for j
  proof (cases "j \<le> length bs")
    case True
    with assms(1) have "is_dir (t (take j bs))" by (simp add: plain_def)
    then show ?thesis using True by (cases "t (take j bs)" rule: is_dir.cases) auto
  next
    case False
    with assms(1) show ?thesis by (simp add: plain_def)
  qed
  have "\<not> is_link (t ([] @ take j p))" for j by (simp only: assms(3) append_Nil take_take nolink not_False_eq_True)
  moreover have "\<forall>e \<in> set p. elem_ok e" using assms(2,3) by (auto dest: in_set_takeD simp del: take_append)
  ultimately have "walk_path max_links t [] p \<in> {None, Some ([] @ p)}"
    by (intro walk_path_plain) auto
  then show ?thesis by (simp add: follow_def)
qed

lemma mkdir_all_confined:
  assumes "confined bs t0 t" "\<forall>e \<in> set (bs @ es). elem_ok e" "before @ cs = take k (bs @ es)"
    and "mkdir_all mode before cs t = (good, t')"
  shows "confined bs t0 t'"
  using assms
proof (induction cs arbitrary: before t)
  case (Cons c cs)
  have pl: "plain bs t" using Cons.prems(1) by (simp add: confined_def)
  have pre: "before @ [c] = take (Suc (length before)) (bs @ es)" "before = take (length before) (bs @ es)"
    using arg_cong [OF Cons.prems(3), of "take (Suc (length before))"] arg_cong [OF Cons.prems(3), of "take (length before)"]
      arg_cong [OF Cons.prems(3), of length]
    by (auto simp: min_def split: if_splits)
  have f: "follow t (before @ [c]) \<in> {None, Some (before @ [c])}" "follow t before \<in> {None, Some before}"
    using follow_plain [OF pl Cons.prems(2) pre(1)] follow_plain [OF pl Cons.prems(2) pre(2)] by auto
  have nxt: "(before @ [c]) @ cs = take k (bs @ es)" using Cons.prems(3) by simp
  show ?case
  proof (cases "is_dir (t (before @ [c]))")
    case True
    with Cons.prems f Cons.IH [OF Cons.prems(1,2) nxt] show ?thesis by (auto split: option.splits)
  next
    case False
    have "\<not> Suc (length before) \<le> length bs"
      using False pl pre(1) by (auto simp: plain_def dest: spec [of _ "Suc (length before)"])
    moreover obtain r where r: "before @ [c] = bs @ r"
      using pre(1) calculation by (simp add: take_append)
    moreover have "length (before @ [c]) = length bs + length r" unfolding r by simp
    ultimately have ne: "r \<noteq> []" by auto
    have "confined bs t0 (t(before @ [c] \<mapsto> DirNode mode))"
      unfolding r using Cons.prems(1) by (rule confined_update) (simp_all add: ne)
    note IH = Cons.IH [OF this Cons.prems(2) nxt]
    consider "t' = t" | "mkdir_all mode (before @ [c]) cs (t(before @ [c] \<mapsto> DirNode mode)) = (good, t')"
      using Cons.prems(4) f False by (auto split: option.splits if_splits)
    then show ?thesis using IH Cons.prems(1) by cases blast+
  qed
qed simp

lemma chmod_confined: "confined bs t0 t \<Longrightarrow> \<forall>e \<in> set (bs @ es). elem_ok e \<Longrightarrow> confined bs t0 (snd (chmod (bs @ es) m t))"
proof -
  assume c: "confined bs t0 t" and ok: "\<forall>e \<in> set (bs @ es). elem_ok e"
  have "follow t (bs @ es) \<in> {None, Some (bs @ es)}"
    using c ok by (intro follow_plain [of bs t es _ "length (bs @ es)"]) (auto simp: confined_def)
  moreover have "confined bs t0 (t(bs @ es \<mapsto> set_mode m nd))" if nd: "t (bs @ es) = Some nd" for nd
  proof (rule confined_update [OF c])
    show "\<not> is_link (Some (set_mode m nd))"
      using c nd by (cases nd) (auto simp: confined_def plain_def set_mode_def dest: spec [of _ es])
    show "is_dir (Some (set_mode m nd))" if "es = []"
      using c nd that by (cases nd) (auto simp: confined_def plain_def set_mode_def dest: spec [of _ "length bs"])
  qed
  ultimately show ?thesis using c by (auto simp: chmod_def split: option.split)
qed

lemma write_new_confined: "confined bs t0 t \<Longrightarrow> \<forall>e \<in> set (bs @ es). elem_ok e \<Longrightarrow> confined bs t0 (snd (write_new (bs @ es) m d t))"
proof -
  assume c: "confined bs t0 t" and ok: "\<forall>e \<in> set (bs @ es). elem_ok e"
  have "follow t (bs @ es) \<in> {None, Some (bs @ es)}"
    using c ok by (intro follow_plain [of bs t es _ "length (bs @ es)"]) (auto simp: confined_def)
  moreover have "confined bs t0 (t(bs @ es \<mapsto> FileNode m' d))" if "\<not> is_dir (t (bs @ es))" for m'
    using c that by (intro confined_update [OF c]) (auto simp: confined_def plain_def dest: spec [of _ "length bs"])
  ultimately show ?thesis using c by (auto simp: write_new_def split: option.split node.split)
qed

lemma extract_entry_confined:
  assumes "\<forall>e \<in> set bs. elem_ok e" "te_type te \<noteq> TarSymlink"
  shows "holds (confined bs t0) (extract_entry (abs_path bs) te) (confined bs t0) (confined bs t0)"
proof (cases "te_ctx_err te \<or> \<not> safe_tar_path (te_name te)")
  case True
  then show ?thesis by (simp add: extract_entry_def holds_fail)
next
  case False
  then obtain es where es: "join_path [abs_path bs, clean_path (te_name te)] = abs_path (bs @ es)" "\<forall>e \<in> set es. elem_ok e"
    using safe_tar_path_below [OF _ assms(1)] by blast
  have all: "\<forall>e \<in> set (bs @ es). elem_ok e" using assms(1) es(2) by auto
  have p: "path_elems (abs_path (bs @ es)) = bs @ es" using path_elems_abs [OF all] .
  have parent: "\<exists>k. path_elems (dir_path (abs_path (bs @ es))) = take k (bs @ es)"
  proof (cases "bs @ es" rule: rev_cases)
    case Nil
    then show ?thesis by (simp add: dir_path_def abs_path_def path_elems_def clean_path_def clean_components_def is_abs_def has_prefix_def)
  next
    case (snoc xs x)
    with all dir_abs_path [of xs x] path_elems_abs [of xs] show ?thesis by (auto intro: exI [of _ "length xs"])
  qed
  have mk: "holds (confined bs t0) (mkdir_all m [] (take k (bs @ es))) (confined bs t0) (confined bs t0)" for m k
    using mkdir_all_confined [OF _ all, of t0 _ "[]" "take k (bs @ es)" k m]
    by (auto simp: holds_def Let_def simp del: take_append split: prod.splits)
  have steps: "holds (confined bs t0) (mkdir_all m [] (bs @ es)) (confined bs t0) (confined bs t0)"
    "holds (confined bs t0) (mkdir_all m [] (path_elems (dir_path (abs_path (bs @ es))))) (confined bs t0) (confined bs t0)" for m
    using mk [of m "length (bs @ es)"] mk parent by auto
  have steps': "holds (confined bs t0) (chmod (bs @ es) m) (confined bs t0) (confined bs t0)"
    "holds (confined bs t0) (write_new (bs @ es) m d) (confined bs t0) (confined bs t0)" for m d
    using chmod_confined [OF _ all] write_new_confined [OF _ all]
    by (auto simp: holds_def Let_def split: prod.split; metis snd_conv)+
  have quiet: "holds (confined bs t0) fail (confined bs t0) (confined bs t0)" "holds (confined bs t0) ok (confined bs t0) (confined bs t0)"
    by (simp_all add: holds_ok holds_fail)
  have e: "extract_entry (abs_path bs) te =
      (case te_type te of
          TarDir \<Rightarrow> andthen (mkdir_all 448 [] (bs @ es)) (if te_io_err te then fail else chmod (bs @ es) (te_mode te))
        | TarReg \<Rightarrow>
            andthen (mkdir_all 493 [] (path_elems (dir_path (abs_path (bs @ es)))))
            (andthen (write_new (bs @ es) 384 (te_data te))
            (if te_read_err te \<or> te_io_err te then fail else chmod (bs @ es) (te_mode te)))
        | TarLink \<Rightarrow> ok | TarXHeader \<Rightarrow> ok | _ \<Rightarrow> fail)"
    using False assms(2) by (simp add: extract_entry_def Let_def es(1) p split: tar_type.split)
  show ?thesis
    unfolding e by (cases "te_type te") (auto intro!: holds_andthen [of _ _ "confined bs t0"] holds_if steps steps' quiet)
qed

section \<open>Properties\<close>

text \<open>C38: Unpacking stays in the staging directory: whatever the names in the archive, absolute, with \<open>..\<close> or not, and
  wherever it stops, an archive without symbolic links changes nothing of the file system outside
  the directory it is unpacked into.\<close>

theorem extraction_confined:
  assumes "\<forall>e \<in> set bs. elem_ok e" "plain bs t" "\<forall>te \<in> set es. te_type te \<noteq> TarSymlink"
    and "extract_entries (abs_path bs) es t = (good, t')"
  shows "\<forall>q. t' q \<noteq> t q \<longrightarrow> (\<exists>r. q = bs @ r)"
proof -
  have "holds (confined bs t) (extract_entries (abs_path bs) es) (confined bs t) (confined bs t)"
    using assms(3) by (induction es)
      (auto intro!: holds_ok holds_andthen [OF extract_entry_confined [OF assms(1)]])
  from holdsD [OF this _ assms(4)] assms(2) have "confined bs t t'"
    by (auto simp: confined_def changes_below_def split: if_splits)
  then show ?thesis by (simp add: confined_def changes_below_def)
qed

definition demo_fs :: fs where
  "demo_fs p = (if p \<in> {[], [''s''], [''s'', ''t.tmp'']} then Some (DirNode 493) else None)"

definition demo_file :: "string \<Rightarrow> tar_entry" where
  "demo_file name = \<lparr>te_name = name, te_type = TarReg, te_mode = 420, te_link = [], te_ctx_err = False, te_data = ''d'',
     te_read_err = False, te_io_err = False\<rparr>"

definition demo_link :: "string \<Rightarrow> string \<Rightarrow> tar_entry" where
  "demo_link name target = \<lparr>te_name = name, te_type = TarSymlink, te_mode = 511, te_link = target, te_ctx_err = False,
     te_data = [], te_read_err = False, te_io_err = False\<rparr>"

lemma demo_plain: "plain [''s'', ''t.tmp''] demo_fs"
  by (auto simp: plain_def demo_fs_def less_Suc_eq_le le_Suc_eq)

theorem extraction_confined_witness:
  "snd (extract_entries (abs_path [''s'', ''t.tmp'']) [demo_file ''../evil'', demo_file ''x''] demo_fs) [''s'', ''evil''] = None"
proof -
  obtain good t' where x: "extract_entries (abs_path [''s'', ''t.tmp'']) [demo_file ''../evil'', demo_file ''x''] demo_fs = (good, t')"
    by fastforce
  from extraction_confined [OF _ demo_plain _ x] have "t' [''s'', ''evil''] = demo_fs [''s'', ''evil'']"
    by (auto simp: elem_ok_def demo_file_def)
  with x show ?thesis by (simp add: demo_fs_def)
qed

text \<open>With symbolic links the archive can leave that directory: every check of \<open>extractEntry\<close> passes on this
  archive, since \<open>safeSymlink\<close> compares paths without resolving the links made before, yet its second link is
  created through its first one and leads out, and a file is written next to the staging directory.\<close>

definition escape_archive :: "tar_entry list" where
  "escape_archive = [demo_link ''d/l'' ''..'', demo_link ''d/l/m'' ''..'', demo_file ''m/evil'']"

lemma symlink_chain_escapes:
  "fst (extract_entries ''/s/t.tmp'' escape_archive demo_fs) \<and> demo_fs [''s'', ''evil''] = None \<and>
   snd (extract_entries ''/s/t.tmp'' escape_archive demo_fs) [''s'', ''evil''] = Some (FileNode 420 ''d'')"
  by code_simp

end
