(* ===== verification/Payload.thy ===== *)
theory Payload
  imports Tar_Extract Archive_Names
begin

text \<open>
  The runner payload (\<open>payload.go\<close>): the latest release, the cache with its eviction, download and
  verification, the template with its marker, and its promotion with rollback. The hash function, the parser of
  a compressed tar file and the JSON decoder are library code and parameters; the network and the
  failures of calls are the environment of an operation.
\<close>

section \<open>Names and digests\<close>

definition payload_prefix :: string where "payload_prefix = ''actions-runner-linux-x64-''"
definition cache_file :: "string \<Rightarrow> string" where "cache_file v = payload_prefix @ v @ ''.tar.gz''"
definition marker_name :: string where "marker_name = ''.tentacles-template''"
definition max_download_size :: nat where "max_download_size = 2 ^ 30"

definition download_url :: "string \<Rightarrow> string" where
  "download_url v =
     ''https://github.com/actions/runner/releases/download/v'' @ v @ ''/actions-runner-linux-x64-'' @ v @ ''.tar.gz''"

definition safe_component :: "string \<Rightarrow> bool" where
  "safe_component name \<longleftrightarrow> name \<notin> {[], ''.'', ''..''} \<and> name = base_name name"

definition hex_any :: "char \<Rightarrow> bool" where
  "hex_any c \<longleftrightarrow> hex_char c \<or> (CHR ''A'' \<le> c \<and> c \<le> CHR ''F'')"

definition to_lower :: "char \<Rightarrow> char" where
  "to_lower c = (if is_upper c then char_of (of_char c + 32 :: nat) else c)"

text \<open>\<open>allowUnverified\<close> of the variable's value; \<open>checkSHA256\<close>: \<open>True\<close> is no error.\<close>

definition allow_unverified :: "string \<Rightarrow> bool" where
  "allow_unverified v \<longleftrightarrow> map to_lower v \<in> {''1'', ''true'', ''yes'', ''on''}"

definition check_sha256 :: "string \<Rightarrow> string \<Rightarrow> bool" where
  "check_sha256 unverified_env want \<longleftrightarrow>
     (if want = [] then allow_unverified unverified_env else length want = 64 \<and> list_all hex_any want)"

text \<open>\<open>strings.EqualFold\<close> on ASCII.\<close>

definition equal_fold :: "string \<Rightarrow> string \<Rightarrow> bool" where
  "equal_fold a b \<longleftrightarrow> map to_lower a = map to_lower b"

section \<open>The latest release\<close>

definition version_shape :: "string \<Rightarrow> bool" where
  "version_shape v \<longleftrightarrow>
     (let ps = split_byte (CHR ''.'') v in length ps = 3 \<and> list_all (\<lambda>p. p \<noteq> [] \<and> list_all is_digit p) ps)"

record release =
  rl_tag :: string
  rl_assets :: "(string \<times> string) list"

text \<open>\<open>ResolveLatest\<close> of the HTTP status and the decoded body (\<open>None\<close>: the request or the decoding failed).\<close>

definition resolve_latest :: "string \<Rightarrow> (nat \<times> release option) option \<Rightarrow> (string \<times> string) option" where
  "resolve_latest unverified_env response =
     (case response of None \<Rightarrow> None
      | Some (status, body) \<Rightarrow>
          if status \<noteq> 200 then None
          else case body of None \<Rightarrow> None
          | Some rel \<Rightarrow>
              let v = trim_prefix (rl_tag rel) ''v'' in
              if \<not> version_shape v then None
              else case find (\<lambda>(name, digest). name = cache_file v) (rl_assets rel) of
                None \<Rightarrow> None
              | Some (name, digest) \<Rightarrow>
                  let sha = trim_prefix digest ''sha256:'' in
                  if \<not> has_prefix digest ''sha256:'' \<or> \<not> check_sha256 unverified_env sha then None
                  else Some (v, sha))"

section \<open>The marker\<close>

definition marker_text :: "string \<Rightarrow> string \<Rightarrow> string" where
  "marker_text v sha = v @ [newline] @ sha @ [newline]"

text \<open>\<open>readMarker\<close> of the file's text (\<open>None\<close>: absent or unreadable).\<close>

definition read_marker :: "string option \<Rightarrow> (string \<times> string) option" where
  "read_marker data =
     (case data of None \<Rightarrow> None
      | Some text \<Rightarrow>
          let ls = split_byte newline (trim_suffix text [newline]) in
          if length ls \<noteq> 2 then None else Some (ls ! 0, ls ! 1))"

lemma read_marker_text:
  assumes "newline \<notin> set v" "newline \<notin> set sha"
  shows "read_marker (Some (marker_text v sha)) = Some (v, sha)"
proof -
  have "trim_suffix (marker_text v sha) [newline] = v @ newline # sha"
    using trim_suffix_append [of "v @ newline # sha" "[newline]"] by (simp add: marker_text_def)
  moreover have "split_byte newline (v @ newline # sha) = [v, sha]"
    using split_byte_append [OF assms(1)] split_byte_id [OF assms(2)] by simp
  ultimately show ?thesis by (simp add: read_marker_def)
qed

section \<open>State\<close>

text \<open>What stands in the cache directory, and at the template's path: its marker file and its tree.\<close>

datatype cache_entry = CacheFile string | CacheDir

record template =
  tp_marker :: "string option"
  tp_tree :: fs

text \<open>One answer of the network to a download, and the calls around it.\<close>

record download_env =
  dl_mkdir_err :: bool
  dl_request_err :: bool
  dl_status :: nat
  dl_temp_err :: bool
  dl_body :: string
  dl_body_err :: bool
  dl_close_err :: bool
  dl_rename_err :: bool

datatype payload_call = Fetched string | Evicted string | Unpacked string

record manager =
  pm_ctx :: nat
  pm_cache :: "(string \<times> cache_entry) list"
  pm_template :: "template option"
  pm_backup :: "template option"
  pm_net :: "download_env list"
  pm_calls :: "payload_call list"

definition live_ctx :: "manager step" where
  "live_ctx m = (if pm_ctx m = 0 then (False, m) else (True, m\<lparr>pm_ctx := pm_ctx m - 1\<rparr>))"

definition called :: "payload_call \<Rightarrow> manager step" where
  "called c m = (True, m\<lparr>pm_calls := c # pm_calls m\<rparr>)"

section \<open>The cache\<close>

text \<open>\<open>evictStaleTarballs\<close>; \<open>stuck\<close> says which removals fail.\<close>

definition stale :: "string \<Rightarrow> string \<times> cache_entry \<Rightarrow> bool" where
  "stale v e \<longleftrightarrow>
     snd e \<noteq> CacheDir \<and> fst e \<noteq> cache_file v \<and> has_prefix (fst e) payload_prefix \<and> has_suffix (fst e) ''.tar.gz''"

definition evict_stale :: "(string \<Rightarrow> bool) \<Rightarrow> string \<Rightarrow> manager step" where
  "evict_stale stuck v m =
     (True, m\<lparr>pm_cache := filter (\<lambda>e. \<not> stale v e \<or> stuck (fst e)) (pm_cache m),
              pm_calls := rev (map (\<lambda>e. Evicted (fst e)) (filter (\<lambda>e. stale v e \<and> \<not> stuck (fst e)) (pm_cache m))) @
                          pm_calls m\<rparr>)"

definition cache_usable :: "string \<Rightarrow> manager \<Rightarrow> bool" where
  "cache_usable name m \<longleftrightarrow>
     (case map_of (pm_cache m) name of Some (CacheFile c) \<Rightarrow> c \<noteq> [] | _ \<Rightarrow> False)"

text \<open>\<open>download\<close>: a directory in the place of the file makes the rename fail.\<close>

definition download :: "string \<Rightarrow> string \<Rightarrow> string \<Rightarrow> manager step" where
  "download url v name m =
     (case pm_net m of
        [] \<Rightarrow> (False, m)
      | dl # net \<Rightarrow>
          let m1 = m\<lparr>pm_net := net\<rparr> in
          if dl_mkdir_err dl then (False, m1)
          else
            andthen (called (Fetched (if url = [] then download_url v else url)))
            (andthen (if dl_request_err dl \<or> dl_status dl \<noteq> 200 \<or> dl_temp_err dl \<or> dl_body_err dl then fail else ok)
            (andthen (if length (dl_body dl) > max_download_size \<or> dl_close_err dl then fail else ok)
            (andthen live_ctx
            (andthen (guard (\<lambda>m. \<not> dl_rename_err dl \<and> map_of (pm_cache m) name \<noteq> Some CacheDir))
              (change (\<lambda>m. m\<lparr>pm_cache := put_key name (CacheFile (dl_body dl)) (pm_cache m)\<rparr>)))))) m1)"

text \<open>\<open>verify\<close>: an error, or whether the file has the wanted hash.\<close>

definition verify :: "(string \<Rightarrow> string) \<Rightarrow> string \<Rightarrow> string \<Rightarrow> manager \<Rightarrow> bool option \<times> manager" where
  "verify sha256 name want m =
     (case live_ctx m of
        (False, m1) \<Rightarrow> (None, m1)
      | (True, m1) \<Rightarrow>
          if want = [] then (Some True, m1)
          else case map_of (pm_cache m1) name of
            Some (CacheFile c) \<Rightarrow> (Some (equal_fold (sha256 c) want), m1)
          | _ \<Rightarrow> (None, m1))"

text \<open>The verification loop of \<open>Ensure\<close>, with the rounds left.\<close>

definition remove_cache :: "bool \<Rightarrow> string \<Rightarrow> manager step" where
  "remove_cache remove_err name m =
     (if remove_err then (False, m)
      else (True, m\<lparr>pm_cache := del_key name (pm_cache m), pm_calls := Evicted name # pm_calls m\<rparr>))"

fun verify_rounds :: "nat \<Rightarrow> (string \<Rightarrow> string) \<Rightarrow> bool \<Rightarrow> string \<Rightarrow> string \<Rightarrow> string \<Rightarrow> string \<Rightarrow> manager step" where
  "verify_rounds 0 sha256 remove_err url v name want m = (True, m)"
| "verify_rounds (Suc n) sha256 remove_err url v name want m =
     (case verify sha256 name want m of
        (None, m1) \<Rightarrow> (False, m1)
      | (Some good, m1) \<Rightarrow>
          (case live_ctx m1 of
             (False, m2) \<Rightarrow> (False, m2)
           | (True, m2) \<Rightarrow>
               if good then (True, m2)
               else if n = 0 then (False, snd (remove_cache remove_err name m2))
               else andthen (remove_cache remove_err name)
                      (andthen (download url v name) (verify_rounds n sha256 remove_err url v name want)) m2))"

section \<open>Extraction and promotion\<close>

record promote_env =
  pr_reserve_err :: bool
  pr_keep_err :: bool
  pr_promote_err :: bool
  pr_restore_err :: bool

text \<open>\<open>promote\<close>: \<open>rollback\<close> puts the preserved template back, unless that fails too. The last removal of
  the backup is best effort.\<close>

definition rollback :: "promote_env \<Rightarrow> manager step" where
  "rollback pr m =
     (case pm_backup m of
        None \<Rightarrow> (False, m)
      | Some old \<Rightarrow>
          if pr_restore_err pr then (False, m)
          else (False, m\<lparr>pm_template := Some old, pm_backup := None\<rparr>))"

definition promote :: "promote_env \<Rightarrow> template \<Rightarrow> manager step" where
  "promote pr staged =
     andthen live_ctx
     (andthen (if pr_reserve_err pr then fail else ok)
     (andthen live_ctx
     (andthen (\<lambda>m. if pm_template m = None then (True, m\<lparr>pm_backup := None\<rparr>)
                   else if pr_keep_err pr then (False, m)
                   else (True, m\<lparr>pm_backup := pm_template m, pm_template := None\<rparr>))
     (\<lambda>m. if pm_ctx m = 0 \<or> pr_promote_err pr then rollback pr m
          else (True, m\<lparr>pm_ctx := pm_ctx m - 1, pm_template := Some staged, pm_backup := None\<rparr>)))))"

record extract_env =
  ex_staging_err :: bool
  ex_host :: fs
  ex_marker_err :: bool
  ex_promote :: promote_env

text \<open>The method \<open>extract\<close>: \<open>untar\<close> yields the entries of a compressed archive up to its end or an error (\<open>False\<close>);
  the staging directory is a fresh one of the host's file system. Its removal after a failure, which only logs its
  own errors, is left out: the next extraction starts by clearing it. The marker is kept beside the tree.\<close>

definition extract_payload ::
  "(string \<Rightarrow> tar_entry list \<times> bool) \<Rightarrow> extract_env \<Rightarrow> string \<Rightarrow> string \<Rightarrow> string \<Rightarrow> string \<Rightarrow> manager step" where
  "extract_payload untar ex staging name v sha =
     andthen live_ctx
     (andthen (if ex_staging_err ex then fail else ok)
     (\<lambda>m. case map_of (pm_cache m) name of
            Some (CacheFile tar) \<Rightarrow>
              (let (entries, whole) = untar tar; (good, tree) = extract_entries staging entries (ex_host ex) in
               andthen (called (Unpacked tar))
               (andthen (if \<not> good \<or> \<not> whole then fail else ok)
               (andthen live_ctx
               (andthen (if ex_marker_err ex then fail else ok)
                 (promote (ex_promote ex) \<lparr>tp_marker = Some (marker_text v sha), tp_tree = tree\<rparr>)))) m)
          | _ \<Rightarrow> (False, m)))"

section \<open>Ensure\<close>

definition template_matches :: "string \<Rightarrow> string \<Rightarrow> manager \<Rightarrow> bool" where
  "template_matches v sha m \<longleftrightarrow>
     (case pm_template m of None \<Rightarrow> False | Some tp \<Rightarrow> read_marker (tp_marker tp) = Some (v, sha))"

record ensure_params =
  en_unverified :: string
  en_stuck :: "string \<Rightarrow> bool"
  en_remove_err :: bool
  en_staging :: string
  en_extract :: extract_env

definition ensure_payload ::
  "(string \<Rightarrow> string) \<Rightarrow> (string \<Rightarrow> tar_entry list \<times> bool) \<Rightarrow> ensure_params \<Rightarrow> string \<Rightarrow> string \<Rightarrow> string \<Rightarrow> manager step" where
  "ensure_payload sha256 untar en v sha url =
     andthen live_ctx (andthen live_ctx
     (andthen (if \<not> safe_component v \<or> \<not> check_sha256 (en_unverified en) sha then fail else ok)
     (andthen (evict_stale (en_stuck en) v)
     (\<lambda>m. if template_matches v sha m then (True, m)
          else
            andthen (if cache_usable (cache_file v) m then ok else download url v (cache_file v))
            (andthen (verify_rounds 2 sha256 (en_remove_err en) url v (cache_file v) sha)
              (extract_payload untar (en_extract en) (en_staging en) (cache_file v) v sha)) m))))"

section \<open>Facts\<close>

definition fetches :: "manager \<Rightarrow> nat" where
  "fetches m = length (filter (\<lambda>c. case c of Fetched u \<Rightarrow> True | _ \<Rightarrow> False) (pm_calls m))"

lemma live_ctx_frame:
  "live_ctx m = (good, m') \<Longrightarrow> pm_cache m' = pm_cache m \<and> pm_template m' = pm_template m \<and> pm_calls m' = pm_calls m"
  by (auto simp: live_ctx_def split: if_splits)

lemma download_frame:
  "download url v name m = (good, m') \<Longrightarrow> pm_template m' = pm_template m \<and> fetches m' \<le> Suc (fetches m)"
  by (auto simp: download_def andthen_def called_def ok_def fail_def live_ctx_def guard_def change_def fetches_def Let_def
      split: list.splits if_splits)

lemma verify_frame:
  "verify sha256 name want m = (r, m') \<Longrightarrow> pm_cache m' = pm_cache m \<and> pm_template m' = pm_template m \<and> pm_calls m' = pm_calls m"
  by (auto simp: verify_def live_ctx_def split: if_splits option.splits cache_entry.splits)

lemma remove_cache_frame:
  "remove_cache e name m = (good, m') \<Longrightarrow> pm_template m' = pm_template m \<and> fetches m' = fetches m"
  by (auto simp: remove_cache_def fetches_def split: if_splits)

lemma verify_good:
  "verify sha256 name want m = (Some True, m') \<Longrightarrow> want \<noteq> [] \<Longrightarrow>
   \<exists>tar. map_of (pm_cache m) name = Some (CacheFile tar) \<and> equal_fold (sha256 tar) want"
  by (auto simp: verify_def dest: live_ctx_frame split: if_splits option.splits cache_entry.splits prod.splits bool.splits)

lemma verify_rounds_ok:
  "verify_rounds n sha256 e url v name want m = (good, m') \<Longrightarrow> 0 < n \<Longrightarrow>
   pm_template m' = pm_template m \<and> fetches m' < fetches m + n \<and>
   (good \<and> want \<noteq> [] \<longrightarrow> (\<exists>tar. map_of (pm_cache m') name = Some (CacheFile tar) \<and> equal_fold (sha256 tar) want))"
proof (induction n arbitrary: m good m')
  case (Suc n)
  obtain r m1 where v: "verify sha256 name want m = (r, m1)" by fastforce
  note f1 = verify_frame [OF v]
  have fet1: "fetches m1 = fetches m" using f1 by (simp add: fetches_def)
  show ?case
  proof (cases r)
    case None
    with Suc.prems(1) v f1 fet1 show ?thesis by auto
  next
    case (Some ok1)
    obtain c m2 where x: "live_ctx m1 = (c, m2)" by fastforce
    note f2 = live_ctx_frame [OF x]
    have fet2: "fetches m2 = fetches m" using f2 fet1 by (simp add: fetches_def)
    consider (stop) "\<not> c" | (good) "c" ok1 | (last) "c" "\<not> ok1" "n = 0" | (retry) "c" "\<not> ok1" "0 < n" by auto
    then show ?thesis
    proof cases
      case stop
      with Suc.prems(1) v x Some f1 f2 fet2 show ?thesis by auto
    next
      case good
      with Suc.prems(1) v x Some f1 f2 fet2 verify_good [of sha256 name want m m1] show ?thesis by auto
    next
      case last
      obtain g m3 where rc: "remove_cache e name m2 = (g, m3)" by fastforce
      with last Suc.prems(1) v x Some f1 f2 fet2 remove_cache_frame [OF rc] show ?thesis by auto
    next
      case retry
      obtain g m3 where rc: "remove_cache e name m2 = (g, m3)" by fastforce
      obtain d m4 where dl: "download url v name m3 = (d, m4)" by fastforce
      note f3 = remove_cache_frame [OF rc] and f4 = download_frame [OF dl]
      show ?thesis
      proof (cases "g \<and> d")
        case False
        with retry Suc.prems(1) v x Some rc dl f1 f2 f3 f4 fet2 show ?thesis
          by (auto simp: andthen_def split: if_splits)
      next
        case True
        then have "verify_rounds n sha256 e url v name want m4 = (good, m')"
          using retry Suc.prems(1) v x Some rc dl by (simp add: andthen_def)
        from Suc.IH [OF this retry(3)] f1 f2 f3 f4 fet2 show ?thesis by auto
      qed
    qed
  qed
qed simp

lemma promote_cases:
  assumes "promote pr staged m = (good, m')"
  shows "pm_calls m' = pm_calls m \<and> (good \<longrightarrow> pm_template m' = Some staged) \<and>
    (\<not> good \<longrightarrow> pm_template m' = pm_template m \<or>
       pr_restore_err pr \<and> pm_template m' = None \<and> pm_backup m' = pm_template m)"
  using assms
  by (auto simp: promote_def rollback_def andthen_def ok_def fail_def live_ctx_def Let_def
      split: if_splits option.splits)

lemma hex_no_newline: "check_sha256 e sha \<Longrightarrow> newline \<notin> set sha"
  by (auto simp: check_sha256_def list_all_iff hex_any_def hex_char_def is_digit_def newline_def less_eq_char_def
      split: if_splits)

lemma extract_ok:
  assumes "extract_payload untar ex staging name v sha m = (True, m')" "map_of (pm_cache m) name = Some (CacheFile tar)"
  shows "fetches m' = fetches m \<and> snd (untar tar) \<and> (\<exists>tree. extract_entries staging (fst (untar tar)) (ex_host ex) = (True, tree) \<and>
    pm_template m' = Some \<lparr>tp_marker = Some (marker_text v sha), tp_tree = tree\<rparr>)"
proof -
  obtain entries whole where u: "untar tar = (entries, whole)" by fastforce
  obtain good tree where e: "extract_entries staging entries (ex_host ex) = (good, tree)" by fastforce
  let ?tp = "\<lparr>tp_marker = Some (marker_text v sha), tp_tree = tree\<rparr>"
  from assms u e obtain m1 where "promote (ex_promote ex) ?tp m1 = (True, m')" "fetches m1 = fetches m" good whole
    by (auto simp: extract_payload_def andthen_def ok_def fail_def called_def live_ctx_def fetches_def Let_def split: if_splits)
  with promote_cases [of "ex_promote ex" ?tp m1 True m'] u e show ?thesis by (auto simp: fetches_def)
qed

lemma evict_frame:
  "evict_stale stuck v m = (good, m') \<Longrightarrow> good \<and> pm_template m' = pm_template m \<and> fetches m' = fetches m"
  by (auto simp: evict_stale_def fetches_def filter_empty_conv)

text \<open>The shape of a successful \<open>Ensure\<close>.\<close>

lemma ensure_cases:
  assumes "ensure_payload sha256 untar en v sha url m = (True, m')"
  shows "check_sha256 (en_unverified en) sha \<and>
    ((template_matches v sha m \<and> pm_template m' = pm_template m \<and> fetches m' = fetches m) \<or>
     (\<exists>m1 m2. fetches m1 \<le> Suc (fetches m) \<and>
       verify_rounds 2 sha256 (en_remove_err en) url v (cache_file v) sha m1 = (True, m2) \<and>
       extract_payload untar (en_extract en) (en_staging en) (cache_file v) v sha m2 = (True, m')))"
proof -
  obtain m0 where m0: "pm_template m0 = pm_template m" "fetches m0 = fetches m" "check_sha256 (en_unverified en) sha"
    "(if template_matches v sha m0 then (True, m0)
      else andthen (if cache_usable (cache_file v) m0 then ok else download url v (cache_file v))
            (andthen (verify_rounds 2 sha256 (en_remove_err en) url v (cache_file v) sha)
              (extract_payload untar (en_extract en) (en_staging en) (cache_file v) v sha)) m0) = (True, m')"
  proof -
    obtain a m1 where 1: "live_ctx m = (a, m1)" by fastforce
    obtain b m2 where 2: "live_ctx m1 = (b, m2)" by fastforce
    obtain c m3 where 3: "evict_stale (en_stuck en) v m2 = (c, m3)" by fastforce
    note f = live_ctx_frame [OF 1] live_ctx_frame [OF 2] evict_frame [OF 3]
    have "a" "b" "safe_component v \<and> check_sha256 (en_unverified en) sha"
      using assms 1 2 by (auto simp: ensure_payload_def andthen_def fail_def split: if_splits)
    with assms 1 2 3 f show thesis by (intro that [of m3]) (auto simp: ensure_payload_def andthen_def ok_def fetches_def)
  qed
  have same: "template_matches v sha m0 = template_matches v sha m" using m0(1) by (simp add: template_matches_def)
  show ?thesis
  proof (cases "template_matches v sha m0")
    case True
    with m0 same show ?thesis by auto
  next
    case False
    obtain g m1 where d: "(if cache_usable (cache_file v) m0 then ok else download url v (cache_file v)) m0 = (g, m1)"
      by fastforce
    then have "fetches m1 \<le> Suc (fetches m)"
      using m0(2) download_frame [of url v "cache_file v" m0 g m1] by (auto simp: ok_def split: if_splits)
    moreover obtain h m2 where w: "verify_rounds 2 sha256 (en_remove_err en) url v (cache_file v) sha m1 = (h, m2)" by fastforce
    ultimately show ?thesis using m0(3,4) False d
      by (intro conjI disjI2 exI [of _ m1] exI [of _ m2]) (auto simp: andthen_def split: if_splits)
  qed
qed

section \<open>Properties\<close>

text \<open>C39: Only a verified payload becomes the template: when \<open>Ensure\<close> succeeds with a checksum, the template carries
  the marker of that version and checksum, and either it did before and the template was not touched (stale archives
  in the cache are evicted all the same), or its tree is what a whole archive unpacks to whose hash is the checksum.
  The network is asked at most twice.\<close>

theorem ensure_verified:
  assumes "ensure_payload sha256 untar en v sha url m = (True, m')" "sha \<noteq> []" "newline \<notin> set v"
  shows "template_matches v sha m' \<and> fetches m' \<le> fetches m + 2 \<and>
    (pm_template m' = pm_template m \<or>
     (\<exists>tar tree. equal_fold (sha256 tar) sha \<and> snd (untar tar) \<and>
        extract_entries (en_staging en) (fst (untar tar)) (ex_host (en_extract en)) = (True, tree) \<and>
        pm_template m' = Some \<lparr>tp_marker = Some (marker_text v sha), tp_tree = tree\<rparr>))"
proof -
  note ec = ensure_cases [OF assms(1)]
  from ec show ?thesis
  proof (elim conjE disjE exE)
    assume "template_matches v sha m" "pm_template m' = pm_template m" "fetches m' = fetches m"
    then show ?thesis by (simp add: template_matches_def)
  next
    fix m1 m2
    assume m1: "fetches m1 \<le> Suc (fetches m)"
      and vr: "verify_rounds 2 sha256 (en_remove_err en) url v (cache_file v) sha m1 = (True, m2)"
      and ex: "extract_payload untar (en_extract en) (en_staging en) (cache_file v) v sha m2 = (True, m')"
    from verify_rounds_ok [OF vr] assms(2) obtain tar where t: "map_of (pm_cache m2) (cache_file v) = Some (CacheFile tar)"
      "equal_fold (sha256 tar) sha" "fetches m2 < fetches m1 + 2" by auto
    from extract_ok [OF ex t(1)] obtain tree where e: "fetches m' = fetches m2" "snd (untar tar)"
      "extract_entries (en_staging en) (fst (untar tar)) (ex_host (en_extract en)) = (True, tree)"
      "pm_template m' = Some \<lparr>tp_marker = Some (marker_text v sha), tp_tree = tree\<rparr>" by auto
    moreover have "template_matches v sha m'"
      using e(4) read_marker_text [OF assms(3) hex_no_newline] ec by (auto simp: template_matches_def)
    ultimately show ?thesis using t(2,3) m1 by auto
  qed
qed

definition demo_sha :: string where "demo_sha = replicate 64 (CHR ''a'')"

definition demo_download :: download_env where
  "demo_download = \<lparr>dl_mkdir_err = False, dl_request_err = False, dl_status = 200, dl_temp_err = False, dl_body = ''tar'',
     dl_body_err = False, dl_close_err = False, dl_rename_err = False\<rparr>"

definition demo_manager :: manager where
  "demo_manager = \<lparr>pm_ctx = 100, pm_cache = [(cache_file ''1.0.0'', CacheFile ''old''), (''x'', CacheDir)], pm_template = None,
     pm_backup = None, pm_net = [demo_download], pm_calls = []\<rparr>"

definition demo_params :: ensure_params where
  "demo_params = \<lparr>en_unverified = [], en_stuck = (\<lambda>_. False), en_remove_err = False, en_staging = ''/s/t.tmp'',
     en_extract = \<lparr>ex_staging_err = False, ex_host = demo_fs, ex_marker_err = False,
       ex_promote = \<lparr>pr_reserve_err = False, pr_keep_err = False, pr_promote_err = False, pr_restore_err = False\<rparr>\<rparr>\<rparr>"

definition demo_hash :: "string \<Rightarrow> string" where "demo_hash c = (if c = ''tar'' then demo_sha else [])"

lemma demo_size: "\<not> max_download_size < 3"
  by (simp add: max_download_size_def)

lemma demo_ensure: "fst (ensure_payload demo_hash (\<lambda>_. ([], True)) demo_params ''2.0.0'' demo_sha url demo_manager)"
  by (simp add: ensure_payload_def andthen_def ok_def fail_def live_ctx_def demo_manager_def demo_params_def safe_component_def
      base_name_def last_index_byte_None check_sha256_def demo_sha_def list_all_iff hex_any_def hex_char_def evict_stale_def stale_def
      cache_file_def payload_prefix_def has_prefix_def has_suffix_def template_matches_def cache_usable_def download_def
      called_def guard_def change_def demo_download_def demo_size [simplified numeral_3_eq_3] numeral_2_eq_2 verify_def demo_hash_def
      equal_fold_def extract_payload_def promote_def less_eq_char_def Let_def)

theorem ensure_verified_witness:
  "template_matches ''2.0.0'' demo_sha (snd (ensure_payload demo_hash (\<lambda>_. ([], True)) demo_params ''2.0.0'' demo_sha [] demo_manager))"
proof -
  obtain m' where m': "ensure_payload demo_hash (\<lambda>_. ([], True)) demo_params ''2.0.0'' demo_sha [] demo_manager = (True, m')"
    using demo_ensure [of "[]"] by (metis prod.collapse)
  have "demo_sha \<noteq> []" "newline \<notin> set ''2.0.0''" by (simp_all add: demo_sha_def newline_def)
  from ensure_verified [OF m' this] m' show ?thesis by simp
qed

text \<open>C40: A template is never lost: a promotion that succeeds leaves the new tree as the template; one that
  fails, at whichever call or because its context ends, leaves the old one in its place, or, when even the
  rename that restores it fails, in the backup directory.\<close>

theorem promote_keeps_template:
  assumes "promote pr staged m = (good, m')"
  shows "(good \<longrightarrow> pm_template m' = Some staged) \<and>
    (\<not> good \<longrightarrow> pm_template m' = pm_template m \<or>
       pr_restore_err pr \<and> pm_template m' = None \<and> pm_backup m' = pm_template m)"
  using promote_cases [OF assms] by simp

theorem promote_keeps_template_witness:
  "pm_template (snd (promote \<lparr>pr_reserve_err = False, pr_keep_err = False, pr_promote_err = True, pr_restore_err = False\<rparr>
     \<lparr>tp_marker = None, tp_tree = demo_fs\<rparr> (demo_manager\<lparr>pm_template := Some \<lparr>tp_marker = Some [], tp_tree = demo_fs\<rparr>\<rparr>)))
   = Some \<lparr>tp_marker = Some [], tp_tree = demo_fs\<rparr>"
proof -
  let ?pr = "\<lparr>pr_reserve_err = False, pr_keep_err = False, pr_promote_err = True, pr_restore_err = False\<rparr>"
  let ?m = "demo_manager\<lparr>pm_template := Some \<lparr>tp_marker = Some [], tp_tree = demo_fs\<rparr>\<rparr>"
  let ?s = "\<lparr>tp_marker = None, tp_tree = demo_fs\<rparr>"
  obtain good m' where p: "promote ?pr ?s ?m = (good, m')" by fastforce
  have "\<not> good" using p
    by (auto simp: promote_def rollback_def andthen_def ok_def live_ctx_def demo_manager_def)
  with promote_keeps_template [OF p] p show ?thesis by simp
qed

text \<open>A release is used only when its tag is a plain version and the matching asset carries a digest that
  \<open>checkSHA256\<close> accepts.\<close>

lemma resolve_latest_sound:
  "resolve_latest e response = Some (v, sha) \<Longrightarrow>
   version_shape v \<and> check_sha256 e sha \<and>
   (\<exists>rel. response = Some (200, Some rel) \<and> (cache_file v, ''sha256:'' @ sha) \<in> set (rl_assets rel))"
proof -
  assume r: "resolve_latest e response = Some (v, sha)"
  then obtain rel where rel: "response = Some (200, Some rel)"
    by (auto simp: resolve_latest_def simp del: Let_def split: option.splits if_splits prod.splits)
  define w where "w = trim_prefix (rl_tag rel) ''v''"
  obtain name digest where f: "find (\<lambda>(name, digest). name = cache_file w) (rl_assets rel) = Some (name, digest)"
    and w: "version_shape w"
    using r by (auto simp: rel resolve_latest_def w_def [symmetric] Let_def split: option.splits if_splits)
  have g: "has_prefix digest ''sha256:'' \<and> check_sha256 e (trim_prefix digest ''sha256:'')"
    "(w, trim_prefix digest ''sha256:'') = (v, sha)"
    using r w by (simp_all add: rel resolve_latest_def w_def [symmetric] f Let_def split: if_splits)
  have vw: "v = w" and sh: "sha = trim_prefix digest ''sha256:''" using g(2) by simp_all
  from f have n: "name = cache_file w" "(name, digest) \<in> set (rl_assets rel)"
    by (auto simp: find_Some_iff) (metis nth_mem)
  obtain t where t: "digest = ''sha256:'' @ t" using g(1) unfolding has_prefix_iff by blast
  have "sha = t" unfolding sh t trim_prefix_append ..
  have "(cache_file v, ''sha256:'' @ sha) \<in> set (rl_assets rel)" using n(2) unfolding n(1) t vw \<open>sha = t\<close> .
  then show ?thesis using rel w g(1) unfolding vw [symmetric] sh [symmetric] by (intro conjI exI [of _ rel]) simp_all
qed

text \<open>A second \<open>Ensure\<close> with the same arguments does nothing but evict.\<close>

lemma ensure_again:
  assumes "template_matches v sha m" "safe_component v" "check_sha256 (en_unverified en) sha" "2 \<le> pm_ctx m"
  shows "\<exists>m'. ensure_payload sha256 untar en v sha url m = (True, m') \<and> pm_template m' = pm_template m \<and> fetches m' = fetches m"
proof -
  obtain m2 where m2: "andthen live_ctx live_ctx m = (True, m2)" "pm_template m2 = pm_template m" "fetches m2 = fetches m"
    using assms(4) by (auto simp: andthen_def live_ctx_def fetches_def)
  obtain c m3 where 3: "evict_stale (en_stuck en) v m2 = (c, m3)" by fastforce
  note f = evict_frame [OF 3]
  have "template_matches v sha m3" using assms(1) f m2(2) by (simp add: template_matches_def)
  then have "ensure_payload sha256 untar en v sha url m = (True, m3)"
    using m2(1) assms(2,3) 3 f by (auto simp: ensure_payload_def andthen_def ok_def Let_def split: prod.splits if_splits)
  with f m2 show ?thesis by auto
qed

end
