(* ===== verification/Metrics.thy ===== *)
theory Metrics
  imports Go_Strings
begin

text \<open>
  The metrics registry and its Prometheus exposition (\<open>metrics/metrics.go\<close>). A registry maps pool names to
  their counters, gauges and histograms; every exported method is an operation on it, \<open>render\<close> is the text the
  \<open>/metrics\<close> endpoint serves. \<open>formatFloat\<close>, a call of \<open>strconv.FormatFloat\<close>, is the parameter \<open>fmt\<close>. Go ranges
  over the maps in any order; the code sorts the keys before it writes them, and so does the model.
\<close>

section \<open>State\<close>

definition slot_start_buckets :: "float64 list" where
  "slot_start_buckets = [0.05, 0.1, 0.25, 0.5, 1, 2.5, 5, 10, 30, 60]"

definition job_cpu_buckets :: "float64 list" where
  "job_cpu_buckets = [1, 5, 10, 30, 60, 120, 300, 600, 1800, 3600]"

definition job_wall_buckets :: "float64 list" where
  "job_wall_buckets = [5, 15, 30, 60, 120, 300, 600, 1200, 1800, 3600]"

record histogram =
  hg_buckets :: "float64 list"
  hg_counts :: "u64 list"
  hg_sum :: float64
  hg_count :: u64

record pool_metrics =
  mt_desired :: int
  mt_actual :: "(string \<times> int) list"
  mt_jobs_started :: u64
  mt_jobs_completed :: "(string \<times> u64) list"
  mt_acquire_fails :: u64
  mt_listener_errs :: u64
  mt_last_message_id :: int
  mt_admission_holds :: u64
  mt_job_cpu :: histogram
  mt_job_wall :: histogram
  mt_slot_start_count :: u64
  mt_slot_start_sum :: float64
  mt_slot_starts :: "u64 list"
  mt_last_job_peak_mem :: u64

record registry =
  rg_host_max :: int
  rg_pools :: "(string \<times> pool_metrics) list"

definition new_histogram :: "float64 list \<Rightarrow> histogram" where
  "new_histogram bs = \<lparr>hg_buckets = bs, hg_counts = replicate (length bs) 0, hg_sum = 0, hg_count = 0\<rparr>"

definition new_pool_metrics :: pool_metrics where
  "new_pool_metrics =
     \<lparr>mt_desired = 0, mt_actual = [], mt_jobs_started = 0, mt_jobs_completed = [], mt_acquire_fails = 0,
      mt_listener_errs = 0, mt_last_message_id = 0, mt_admission_holds = 0,
      mt_job_cpu = new_histogram job_cpu_buckets, mt_job_wall = new_histogram job_wall_buckets,
      mt_slot_start_count = 0, mt_slot_start_sum = 0,
      mt_slot_starts = replicate (length slot_start_buckets + 1) 0, mt_last_job_peak_mem = 0\<rparr>"

definition new_registry :: registry where
  "new_registry = \<lparr>rg_host_max = 0, rg_pools = []\<rparr>"

section \<open>Operations\<close>

text \<open>The loop over the buckets of \<open>observe\<close> and of \<open>ObserveSlotStart\<close>.\<close>

fun bump :: "float64 \<Rightarrow> float64 list \<Rightarrow> u64 list \<Rightarrow> u64 list" where
  "bump x (b # bs) (c # cs) = (if x \<le> b then c + 1 else c) # bump x bs cs"
| "bump x bs cs = cs"

definition hist_observe :: "float64 \<Rightarrow> histogram \<Rightarrow> histogram" where
  "hist_observe x h =
     h\<lparr>hg_count := hg_count h + 1, hg_sum := hg_sum h + x, hg_counts := bump x (hg_buckets h) (hg_counts h)\<rparr>"

text \<open>\<open>poolLocked\<close> finds the pool's metrics or enters new ones; each operation then updates them.\<close>

definition pool_locked :: "string \<Rightarrow> registry \<Rightarrow> pool_metrics" where
  "pool_locked p r = (case map_of (rg_pools r) p of None \<Rightarrow> new_pool_metrics | Some m \<Rightarrow> m)"

definition at_pool :: "string \<Rightarrow> (pool_metrics \<Rightarrow> pool_metrics) \<Rightarrow> registry \<Rightarrow> registry" where
  "at_pool p f r = r\<lparr>rg_pools := put_key p (f (pool_locked p r)) (rg_pools r)\<rparr>"

definition register_pool :: "string \<Rightarrow> registry \<Rightarrow> registry" where
  "register_pool p = at_pool p (\<lambda>m. m)"

definition set_host_max_runners :: "int \<Rightarrow> registry \<Rightarrow> registry" where
  "set_host_max_runners n r = r\<lparr>rg_host_max := n\<rparr>"

definition set_desired_metric :: "string \<Rightarrow> int \<Rightarrow> registry \<Rightarrow> registry" where
  "set_desired_metric p n = at_pool p (\<lambda>m. m\<lparr>mt_desired := n\<rparr>)"

definition set_actual :: "string \<Rightarrow> string \<Rightarrow> int \<Rightarrow> registry \<Rightarrow> registry" where
  "set_actual p st n = at_pool p (\<lambda>m. m\<lparr>mt_actual := put_key st n (mt_actual m)\<rparr>)"

definition inc_jobs_started :: "string \<Rightarrow> registry \<Rightarrow> registry" where
  "inc_jobs_started p = at_pool p (\<lambda>m. m\<lparr>mt_jobs_started := mt_jobs_started m + 1\<rparr>)"

definition completed_count :: "string \<Rightarrow> pool_metrics \<Rightarrow> u64" where
  "completed_count res m = (case map_of (mt_jobs_completed m) res of None \<Rightarrow> 0 | Some n \<Rightarrow> n)"

definition inc_jobs_completed :: "string \<Rightarrow> string \<Rightarrow> registry \<Rightarrow> registry" where
  "inc_jobs_completed p res =
     at_pool p (\<lambda>m. m\<lparr>mt_jobs_completed := put_key res (completed_count res m + 1) (mt_jobs_completed m)\<rparr>)"

definition inc_acquire_failures :: "string \<Rightarrow> registry \<Rightarrow> registry" where
  "inc_acquire_failures p = at_pool p (\<lambda>m. m\<lparr>mt_acquire_fails := mt_acquire_fails m + 1\<rparr>)"

definition inc_listener_errors :: "string \<Rightarrow> registry \<Rightarrow> registry" where
  "inc_listener_errors p = at_pool p (\<lambda>m. m\<lparr>mt_listener_errs := mt_listener_errs m + 1\<rparr>)"

definition set_last_message_id :: "string \<Rightarrow> int \<Rightarrow> registry \<Rightarrow> registry" where
  "set_last_message_id p n = at_pool p (\<lambda>m. m\<lparr>mt_last_message_id := n\<rparr>)"

definition observe_slot_start :: "string \<Rightarrow> float64 \<Rightarrow> registry \<Rightarrow> registry" where
  "observe_slot_start p x = at_pool p (\<lambda>m.
     let counts = bump x slot_start_buckets (mt_slot_starts m); last = length slot_start_buckets in
     m\<lparr>mt_slot_start_count := mt_slot_start_count m + 1, mt_slot_start_sum := mt_slot_start_sum m + x,
       mt_slot_starts := counts[last := counts ! last + 1]\<rparr>)"

definition inc_admission_holds :: "string \<Rightarrow> registry \<Rightarrow> registry" where
  "inc_admission_holds p = at_pool p (\<lambda>m. m\<lparr>mt_admission_holds := mt_admission_holds m + 1\<rparr>)"

definition observe_job_cpu :: "string \<Rightarrow> float64 \<Rightarrow> registry \<Rightarrow> registry" where
  "observe_job_cpu p x = at_pool p (\<lambda>m. m\<lparr>mt_job_cpu := hist_observe x (mt_job_cpu m)\<rparr>)"

definition observe_job_wall :: "string \<Rightarrow> float64 \<Rightarrow> registry \<Rightarrow> registry" where
  "observe_job_wall p x = at_pool p (\<lambda>m. m\<lparr>mt_job_wall := hist_observe x (mt_job_wall m)\<rparr>)"

definition set_job_peak_mem :: "string \<Rightarrow> u64 \<Rightarrow> registry \<Rightarrow> registry" where
  "set_job_peak_mem p n = at_pool p (\<lambda>m. m\<lparr>mt_last_job_peak_mem := n\<rparr>)"

section \<open>Exposition\<close>

text \<open>\<open>strings.ReplaceAll\<close> with a one-byte pattern.\<close>

definition replace_all :: "char \<Rightarrow> string \<Rightarrow> string \<Rightarrow> string" where
  "replace_all c new s = concat (map (\<lambda>x. if x = c then new else [x]) s)"

definition backslash :: char where "backslash = CHR 0x5C"
definition dquote :: char where "dquote = CHR 0x22"

definition escape_label :: "string \<Rightarrow> string" where
  "escape_label v =
     replace_all newline [backslash, CHR ''n'']
       (replace_all dquote [backslash, dquote] (replace_all backslash [backslash, backslash] v))"

text \<open>A label \<open>name="value"\<close> and a sample line with its labels.\<close>

definition label_text :: "string \<times> string \<Rightarrow> string" where
  "label_text l = fst l @ ''='' @ [dquote] @ snd l @ [dquote]"

definition series_line :: "string \<Rightarrow> (string \<times> string) list \<Rightarrow> string \<Rightarrow> string" where
  "series_line name labels number = name @ ''{'' @ join (map label_text labels) '','' @ ''} '' @ number"

definition pool_label :: "string \<Rightarrow> string \<times> string" where
  "pool_label p = (''pool'', escape_label p)"

definition of_u64 :: "u64 \<Rightarrow> float64" where "of_u64 n = real (unat n)"

definition hist_lines :: "(float64 \<Rightarrow> string) \<Rightarrow> string \<Rightarrow> string \<Rightarrow> histogram \<Rightarrow> string list" where
  "hist_lines fmt name p h =
     map2 (\<lambda>b c. series_line (name @ ''_bucket'') [pool_label p, (''le'', fmt b)] (fmt (of_u64 c)))
       (hg_buckets h) (hg_counts h) @
     [series_line (name @ ''_bucket'') [pool_label p, (''le'', ''+Inf'')] (fmt (of_u64 (hg_count h))),
      series_line (name @ ''_sum'') [pool_label p] (fmt (hg_sum h)),
      series_line (name @ ''_count'') [pool_label p] (fmt (of_u64 (hg_count h)))]"

definition pool_names :: "registry \<Rightarrow> string list" where
  "pool_names r = sort (map fst (rg_pools r))"

definition scalar_lines ::
  "(float64 \<Rightarrow> string) \<Rightarrow> string \<Rightarrow> string list \<Rightarrow> (pool_metrics \<Rightarrow> float64) \<Rightarrow> registry \<Rightarrow> string list" where
  "scalar_lines fmt name ps f r = map (\<lambda>p. series_line name [pool_label p] (fmt (f (pool_locked p r)))) ps"

text \<open>The lines of a series with a second label, whose values are sorted: \<open>actualLines\<close>, \<open>jobsCompletedLines\<close>.\<close>

definition keyed_lines ::
  "(float64 \<Rightarrow> string) \<Rightarrow> string \<Rightarrow> string \<Rightarrow> ('v \<Rightarrow> float64) \<Rightarrow> string \<Rightarrow> (string \<times> 'v) list \<Rightarrow> string list" where
  "keyed_lines fmt name key f p entries =
     map (\<lambda>k. series_line name [pool_label p, (key, escape_label k)] (fmt (f (the (map_of entries k)))))
       (sort (map fst entries))"

definition actual_lines :: "(float64 \<Rightarrow> string) \<Rightarrow> string list \<Rightarrow> registry \<Rightarrow> string list" where
  "actual_lines fmt ps r =
     concat (map (\<lambda>p. keyed_lines fmt ''tentacles_actual_runners'' ''state'' real_of_int p
                       (mt_actual (pool_locked p r))) ps)"

definition jobs_completed_lines :: "(float64 \<Rightarrow> string) \<Rightarrow> string list \<Rightarrow> registry \<Rightarrow> string list" where
  "jobs_completed_lines fmt ps r =
     concat (map (\<lambda>p. keyed_lines fmt ''tentacles_jobs_completed_total'' ''result'' of_u64 p
                       (mt_jobs_completed (pool_locked p r))) ps)"

definition histogram_lines ::
  "(float64 \<Rightarrow> string) \<Rightarrow> string \<Rightarrow> string list \<Rightarrow> (pool_metrics \<Rightarrow> histogram) \<Rightarrow> registry \<Rightarrow> string list" where
  "histogram_lines fmt name ps f r = concat (map (\<lambda>p. hist_lines fmt name p (f (pool_locked p r))) ps)"

definition slot_start_lines :: "(float64 \<Rightarrow> string) \<Rightarrow> string list \<Rightarrow> registry \<Rightarrow> string list" where
  "slot_start_lines fmt ps r =
     concat (map (\<lambda>p.
       let m = pool_locked p r; name = ''tentacles_slot_start_seconds'' in
       map2 (\<lambda>b c. series_line (name @ ''_bucket'') [pool_label p, (''le'', fmt b)] (fmt (of_u64 c)))
         slot_start_buckets (mt_slot_starts m) @
       [series_line (name @ ''_bucket'') [pool_label p, (''le'', ''+Inf'')]
          (fmt (of_u64 (mt_slot_starts m ! length slot_start_buckets))),
        series_line (name @ ''_sum'') [pool_label p] (fmt (mt_slot_start_sum m)),
        series_line (name @ ''_count'') [pool_label p] (fmt (of_u64 (mt_slot_start_count m)))]) ps)"

record family =
  fm_name :: string
  fm_help :: string
  fm_type :: string
  fm_lines :: "string list"

definition families :: "(float64 \<Rightarrow> string) \<Rightarrow> registry \<Rightarrow> family list" where
  "families fmt r =
     (let ps = pool_names r;
          scalar = (\<lambda>name help typ f. \<lparr>fm_name = name, fm_help = help, fm_type = typ, fm_lines = scalar_lines fmt name ps f r\<rparr>);
          hist = (\<lambda>name help f. \<lparr>fm_name = name, fm_help = help, fm_type = ''histogram'', fm_lines = histogram_lines fmt name ps f r\<rparr>)
      in [scalar ''tentacles_acquire_failures_total''
            ''Total number of times a runner failed to acquire its assigned job.'' ''counter'' (\<lambda>m. of_u64 (mt_acquire_fails m)),
          \<lparr>fm_name = ''tentacles_actual_runners'', fm_help = ''Current number of runner slots by pool and lifecycle state.'',
            fm_type = ''gauge'', fm_lines = actual_lines fmt ps r\<rparr>,
          scalar ''tentacles_desired_runners'' ''Current desired number of runner slots by pool.'' ''gauge''
            (\<lambda>m. real_of_int (mt_desired m)),
          \<lparr>fm_name = ''tentacles_host_max_runners'', fm_help = ''Configured maximum number of runners on this host.'',
            fm_type = ''gauge'', fm_lines = [''tentacles_host_max_runners '' @ fmt (real_of_int (rg_host_max r))]\<rparr>,
          \<lparr>fm_name = ''tentacles_jobs_completed_total'',
            fm_help = ''Total number of completed jobs by pool and reported result.'', fm_type = ''counter'',
            fm_lines = jobs_completed_lines fmt ps r\<rparr>,
          scalar ''tentacles_jobs_started_total'' ''Total number of started jobs by pool.'' ''counter''
            (\<lambda>m. of_u64 (mt_jobs_started m)),
          scalar ''tentacles_last_message_id'' ''ID of the last processed scale-set message by pool.'' ''gauge''
            (\<lambda>m. real_of_int (mt_last_message_id m)),
          scalar ''tentacles_listener_errors_total'' ''Total number of scale-set listener loop errors by pool.'' ''counter''
            (\<lambda>m. of_u64 (mt_listener_errs m)),
          scalar ''tentacles_admission_holds_total'' ''Total number of slot starts held by the admission gate by pool.''
            ''counter'' (\<lambda>m. of_u64 (mt_admission_holds m)),
          hist ''tentacles_job_cpu_seconds'' ''CPU seconds consumed by finished jobs.'' mt_job_cpu,
          hist ''tentacles_job_wall_seconds'' ''Wall-clock seconds of finished jobs.'' mt_job_wall,
          scalar ''tentacles_last_job_peak_memory_bytes'' ''Peak memory of the most recent finished job by pool.'' ''gauge''
            (\<lambda>m. of_u64 (mt_last_job_peak_mem m)),
          \<lparr>fm_name = ''tentacles_slot_start_seconds'', fm_help = ''Provision time of successful slot starts.'',
            fm_type = ''histogram'', fm_lines = slot_start_lines fmt ps r\<rparr>])"

definition family_block :: "family \<Rightarrow> string list" where
  "family_block f =
     (if fm_lines f = [] then []
      else (''# HELP '' @ fm_name f @ '' '' @ fm_help f) # (''# TYPE '' @ fm_name f @ '' '' @ fm_type f) # fm_lines f)"

definition render :: "(float64 \<Rightarrow> string) \<Rightarrow> registry \<Rightarrow> string" where
  "render fmt r = unlines (concat (map family_block (sort_key fm_name (families fmt r))))"

section \<open>The metrics of one pool\<close>

lemma pool_locked_at_pool [simp]:
  "pool_locked q (at_pool p f r) = (if q = p then f (pool_locked p r) else pool_locked q r)"
  by (simp add: pool_locked_def at_pool_def)

lemma pool_locked_host_max [simp]: "pool_locked q (r\<lparr>rg_host_max := n\<rparr>) = pool_locked q r"
  by (simp add: pool_locked_def)

lemma pool_locked_new [simp]: "pool_locked q new_registry = new_pool_metrics"
  by (simp add: pool_locked_def new_registry_def)

end
