(* ===== verification/Metrics_Properties.thy ===== *)
theory Metrics_Properties
  imports Metrics
begin

text \<open>
  What the metrics registry promises: its state is a function of the calls made so far (counters count them,
  gauges keep the last value, histogram buckets count the observations up to their bound), and the text it serves
  can be read back line by line, whatever characters the label values have.
\<close>

section \<open>The registry as a function of its calls\<close>

datatype metric_op =
  OpRegister string
| OpHostMax int
| OpDesired string int
| OpActual string string int
| OpJobsStarted string
| OpJobsCompleted string string
| OpAcquireFailures string
| OpListenerErrors string
| OpLastMessageID string int
| OpSlotStart string float64
| OpAdmissionHolds string
| OpJobCPU string float64
| OpJobWall string float64
| OpJobPeakMem string u64

fun apply_metric :: "metric_op \<Rightarrow> registry \<Rightarrow> registry" where
  "apply_metric (OpRegister p) = register_pool p"
| "apply_metric (OpHostMax n) = set_host_max_runners n"
| "apply_metric (OpDesired p n) = set_desired_metric p n"
| "apply_metric (OpActual p st n) = set_actual p st n"
| "apply_metric (OpJobsStarted p) = inc_jobs_started p"
| "apply_metric (OpJobsCompleted p res) = inc_jobs_completed p res"
| "apply_metric (OpAcquireFailures p) = inc_acquire_failures p"
| "apply_metric (OpListenerErrors p) = inc_listener_errors p"
| "apply_metric (OpLastMessageID p n) = set_last_message_id p n"
| "apply_metric (OpSlotStart p x) = observe_slot_start p x"
| "apply_metric (OpAdmissionHolds p) = inc_admission_holds p"
| "apply_metric (OpJobCPU p x) = observe_job_cpu p x"
| "apply_metric (OpJobWall p x) = observe_job_wall p x"
| "apply_metric (OpJobPeakMem p n) = set_job_peak_mem p n"

definition registry_after :: "metric_op list \<Rightarrow> registry" where
  "registry_after cs = fold apply_metric cs new_registry"

text \<open>What the calls say of a counter, a gauge and a histogram.\<close>

definition times_called :: "metric_op \<Rightarrow> metric_op list \<Rightarrow> u64" where
  "times_called call cs = of_nat (length (filter (\<lambda>c. c = call) cs))"

definition last_given :: "(metric_op \<Rightarrow> 'v option) \<Rightarrow> 'v option \<Rightarrow> metric_op list \<Rightarrow> 'v option" where
  "last_given f v cs = foldl (\<lambda>v c. case f c of None \<Rightarrow> v | Some w \<Rightarrow> Some w) v cs"

definition observed :: "(metric_op \<Rightarrow> float64 option) \<Rightarrow> metric_op list \<Rightarrow> float64 list" where
  "observed f cs = List.map_filter f cs"

definition at_most :: "float64 list \<Rightarrow> float64 \<Rightarrow> u64" where
  "at_most xs b = of_nat (length (filter (\<lambda>x. x \<le> b) xs))"

definition histogram_of :: "float64 list \<Rightarrow> float64 list \<Rightarrow> histogram" where
  "histogram_of bs xs =
     \<lparr>hg_buckets = bs, hg_counts = map (at_most xs) bs, hg_sum = sum_list xs, hg_count = of_nat (length xs)\<rparr>"

fun given_desired :: "string \<Rightarrow> metric_op \<Rightarrow> int option" where
  "given_desired p (OpDesired q n) = (if q = p then Some n else None)"
| "given_desired p c = None"

fun given_actual :: "string \<Rightarrow> string \<Rightarrow> metric_op \<Rightarrow> int option" where
  "given_actual p st (OpActual q st' n) = (if q = p \<and> st' = st then Some n else None)"
| "given_actual p st c = None"

fun given_host_max :: "metric_op \<Rightarrow> int option" where
  "given_host_max (OpHostMax n) = Some n"
| "given_host_max c = None"

fun given_message_id :: "string \<Rightarrow> metric_op \<Rightarrow> int option" where
  "given_message_id p (OpLastMessageID q n) = (if q = p then Some n else None)"
| "given_message_id p c = None"

fun given_peak_mem :: "string \<Rightarrow> metric_op \<Rightarrow> u64 option" where
  "given_peak_mem p (OpJobPeakMem q n) = (if q = p then Some n else None)"
| "given_peak_mem p c = None"

text \<open>The pool a call names.\<close>

fun named_pool :: "metric_op \<Rightarrow> string option" where
  "named_pool (OpHostMax n) = None"
| "named_pool (OpRegister p) = Some p"
| "named_pool (OpDesired p n) = Some p"
| "named_pool (OpActual p st n) = Some p"
| "named_pool (OpJobsStarted p) = Some p"
| "named_pool (OpJobsCompleted p res) = Some p"
| "named_pool (OpAcquireFailures p) = Some p"
| "named_pool (OpListenerErrors p) = Some p"
| "named_pool (OpLastMessageID p n) = Some p"
| "named_pool (OpSlotStart p x) = Some p"
| "named_pool (OpAdmissionHolds p) = Some p"
| "named_pool (OpJobCPU p x) = Some p"
| "named_pool (OpJobWall p x) = Some p"
| "named_pool (OpJobPeakMem p n) = Some p"

fun cpu_of :: "string \<Rightarrow> metric_op \<Rightarrow> float64 option" where
  "cpu_of p (OpJobCPU q x) = (if q = p then Some x else None)"
| "cpu_of p c = None"

fun wall_of :: "string \<Rightarrow> metric_op \<Rightarrow> float64 option" where
  "wall_of p (OpJobWall q x) = (if q = p then Some x else None)"
| "wall_of p c = None"

fun start_of :: "string \<Rightarrow> metric_op \<Rightarrow> float64 option" where
  "start_of p (OpSlotStart q x) = (if q = p then Some x else None)"
| "start_of p c = None"

lemmas metric_ops = register_pool_def set_host_max_runners_def set_desired_metric_def set_actual_def
  inc_jobs_started_def inc_jobs_completed_def inc_acquire_failures_def inc_listener_errors_def
  set_last_message_id_def observe_slot_start_def inc_admission_holds_def observe_job_cpu_def
  observe_job_wall_def set_job_peak_mem_def

lemma registry_after_snoc [simp]: "registry_after (cs @ [c]) = apply_metric c (registry_after cs)"
  by (simp add: registry_after_def)

lemma registry_after_Nil [simp]: "registry_after [] = new_registry"
  by (simp add: registry_after_def)

lemma times_called_simps [simp]:
  "times_called c [] = 0"
  "times_called c (cs @ [d]) = times_called c cs + (if d = c then 1 else 0)"
  by (simp_all add: times_called_def)

lemma last_given_simps [simp]:
  "last_given f v [] = v"
  "last_given f v (cs @ [d]) = (case f d of None \<Rightarrow> last_given f v cs | Some w \<Rightarrow> Some w)"
  by (simp_all add: last_given_def split: option.split)

lemma observed_simps [simp]:
  "observed f [] = []"
  "observed f (cs @ [d]) = (case f d of None \<Rightarrow> observed f cs | Some x \<Rightarrow> observed f cs @ [x])"
  by (simp_all add: observed_def map_filter_def split: option.split)

lemma bump_at_most: "bump x bs (map (at_most xs) bs @ rest) = map (at_most (xs @ [x])) bs @ rest"
proof (induction bs)
  case Nil
  show ?case by (cases rest) simp_all
qed (simp add: at_most_def)

lemma hist_observe_of [simp]: "hist_observe x (histogram_of bs xs) = histogram_of bs (xs @ [x])"
  using bump_at_most [of x bs xs "[]"] by (simp add: hist_observe_def histogram_of_def)

lemma histogram_of_Nil: "new_histogram bs = histogram_of bs []"
  by (induction bs) (simp_all add: new_histogram_def histogram_of_def at_most_def)

lemma job_cpu_after: "mt_job_cpu (pool_locked p (registry_after cs)) = histogram_of job_cpu_buckets (observed (cpu_of p) cs)"
proof (induction cs rule: rev_induct)
  case Nil
  show ?case by (simp add: new_pool_metrics_def histogram_of_Nil)
next
  case (snoc c cs)
  then show ?case by (cases c) (auto simp: metric_ops Let_def)
qed

lemma job_wall_after: "mt_job_wall (pool_locked p (registry_after cs)) = histogram_of job_wall_buckets (observed (wall_of p) cs)"
proof (induction cs rule: rev_induct)
  case Nil
  show ?case by (simp add: new_pool_metrics_def histogram_of_Nil)
next
  case (snoc c cs)
  then show ?case by (cases c) (auto simp: metric_ops Let_def)
qed

lemma slot_starts_after:
  "mt_slot_starts (pool_locked p (registry_after cs)) =
     map (at_most (observed (start_of p) cs)) slot_start_buckets @ [of_nat (length (observed (start_of p) cs))]"
proof (induction cs rule: rev_induct)
  case Nil
  show ?case by (simp add: new_pool_metrics_def slot_start_buckets_def at_most_def)
next
  case (snoc c cs)
  then show ?case by (cases c) (auto simp: metric_ops Let_def bump_at_most list_update_append nth_append)
qed

lemma counters_after:
  "mt_jobs_started (pool_locked p (registry_after cs)) = times_called (OpJobsStarted p) cs"
  "completed_count res (pool_locked p (registry_after cs)) = times_called (OpJobsCompleted p res) cs"
  "mt_acquire_fails (pool_locked p (registry_after cs)) = times_called (OpAcquireFailures p) cs"
  "mt_listener_errs (pool_locked p (registry_after cs)) = times_called (OpListenerErrors p) cs"
  "mt_admission_holds (pool_locked p (registry_after cs)) = times_called (OpAdmissionHolds p) cs"
proof (induction cs rule: rev_induct)
  case Nil
  { case 1 show ?case by (simp add: new_pool_metrics_def) }
  { case 2 show ?case by (simp add: new_pool_metrics_def completed_count_def) }
  { case 3 show ?case by (simp add: new_pool_metrics_def) }
  { case 4 show ?case by (simp add: new_pool_metrics_def) }
  { case 5 show ?case by (simp add: new_pool_metrics_def) }
next
  case (snoc c cs)
  { case 1 with snoc(1) show ?case by (cases c) (auto simp: metric_ops Let_def) }
  { case 2 with snoc(2) show ?case by (cases c) (auto simp: metric_ops Let_def completed_count_def) }
  { case 3 with snoc(3) show ?case by (cases c) (auto simp: metric_ops Let_def) }
  { case 4 with snoc(4) show ?case by (cases c) (auto simp: metric_ops Let_def) }
  { case 5 with snoc(5) show ?case by (cases c) (auto simp: metric_ops Let_def) }
qed

lemma gauges_after:
  "Some (mt_desired (pool_locked p (registry_after cs))) = last_given (given_desired p) (Some 0) cs"
  "map_of (mt_actual (pool_locked p (registry_after cs))) st = last_given (given_actual p st) None cs"
  "Some (mt_last_message_id (pool_locked p (registry_after cs))) = last_given (given_message_id p) (Some 0) cs"
  "Some (mt_last_job_peak_mem (pool_locked p (registry_after cs))) = last_given (given_peak_mem p) (Some 0) cs"
  "Some (rg_host_max (registry_after cs)) = last_given given_host_max (Some 0) cs"
proof (induction cs rule: rev_induct)
  case Nil
  { case 1 show ?case by (simp add: new_pool_metrics_def) }
  { case 2 show ?case by (simp add: new_pool_metrics_def) }
  { case 3 show ?case by (simp add: new_pool_metrics_def) }
  { case 4 show ?case by (simp add: new_pool_metrics_def) }
  { case 5 show ?case by (simp add: new_registry_def) }
next
  case (snoc c cs)
  { case 1 with snoc(1) show ?case by (cases c) (auto simp: metric_ops Let_def) }
  { case 2 with snoc(2) show ?case by (cases c) (auto simp: metric_ops Let_def) }
  { case 3 with snoc(3) show ?case by (cases c) (auto simp: metric_ops Let_def) }
  { case 4 with snoc(4) show ?case by (cases c) (auto simp: metric_ops Let_def) }
  { case 5 with snoc(5) show ?case by (cases c) (auto simp: metric_ops at_pool_def) }
qed

lemma slot_start_totals_after:
  "mt_slot_start_count (pool_locked p (registry_after cs)) = of_nat (length (observed (start_of p) cs))"
  "mt_slot_start_sum (pool_locked p (registry_after cs)) = sum_list (observed (start_of p) cs)"
proof (induction cs rule: rev_induct)
  case Nil
  { case 1 show ?case by (simp add: new_pool_metrics_def) }
  { case 2 show ?case by (simp add: new_pool_metrics_def) }
next
  case (snoc c cs)
  { case 1 with snoc(1) show ?case by (cases c) (auto simp: metric_ops Let_def) }
  { case 2 with snoc(2) show ?case by (cases c) (auto simp: metric_ops Let_def) }
qed

text \<open>The registry lists each pool some call named, once.\<close>

lemma listed_pools_after:
  "set (map fst (rg_pools (registry_after cs))) = {p. Some p \<in> named_pool ` set cs} \<and>
   distinct (map fst (rg_pools (registry_after cs)))"
proof (induction cs rule: rev_induct)
  case Nil
  show ?case by (simp add: new_registry_def)
next
  case (snoc c cs)
  have f: "set (map fst (rg_pools (at_pool p f r))) = insert p (set (map fst (rg_pools r)))" for p f r
    by (simp add: at_pool_def fst_put_key)
  have d: "distinct (map fst (rg_pools r)) \<Longrightarrow> distinct (map fst (rg_pools (at_pool p f r)))" for p f r
    by (simp add: at_pool_def distinct_put_key)
  show ?case
  proof (cases "named_pool c")
    case None
    with snoc show ?thesis by (cases c) (auto simp: metric_ops)
  next
    case (Some p)
    then obtain g where "apply_metric c = at_pool p g" by (cases c) (auto simp: metric_ops)
    with Some snoc f [of p g "registry_after cs"] d [of "registry_after cs" p g] show ?thesis by (auto simp: image_iff)
  qed
qed

text \<open>C32: The registry refines the list of the calls made so far. It lists exactly the pools the calls named, each
  once. Every counter is the number of its calls modulo \<open>2^64\<close>. Every gauge, the host maximum, the last message ID and the
  peak memory of the last job included, is the last value given, or its zero. Each bucket of the three histograms is the
  number of observations up to its bound, with the sum and the count of all of them.\<close>

theorem registry_refines_calls:
  "let m = pool_locked p (registry_after cs); starts = observed (start_of p) cs in
     set (map fst (rg_pools (registry_after cs))) = {p. Some p \<in> named_pool ` set cs} \<and>
     distinct (map fst (rg_pools (registry_after cs))) \<and>
     mt_jobs_started m = times_called (OpJobsStarted p) cs \<and>
     (\<forall>res. completed_count res m = times_called (OpJobsCompleted p res) cs) \<and>
     mt_acquire_fails m = times_called (OpAcquireFailures p) cs \<and>
     mt_listener_errs m = times_called (OpListenerErrors p) cs \<and>
     mt_admission_holds m = times_called (OpAdmissionHolds p) cs \<and>
     Some (rg_host_max (registry_after cs)) = last_given given_host_max (Some 0) cs \<and>
     Some (mt_desired m) = last_given (given_desired p) (Some 0) cs \<and>
     (\<forall>st. map_of (mt_actual m) st = last_given (given_actual p st) None cs) \<and>
     Some (mt_last_message_id m) = last_given (given_message_id p) (Some 0) cs \<and>
     Some (mt_last_job_peak_mem m) = last_given (given_peak_mem p) (Some 0) cs \<and>
     mt_job_cpu m = histogram_of job_cpu_buckets (observed (cpu_of p) cs) \<and>
     mt_job_wall m = histogram_of job_wall_buckets (observed (wall_of p) cs) \<and>
     mt_slot_starts m = map (at_most starts) slot_start_buckets @ [of_nat (length starts)] \<and>
     mt_slot_start_sum m = sum_list starts \<and> mt_slot_start_count m = of_nat (length starts)"
  unfolding Let_def using listed_pools_after [of cs]
  by (simp add: counters_after gauges_after slot_start_totals_after job_cpu_after job_wall_after slot_starts_after)

section \<open>Reading the exposition\<close>

text \<open>A reader of the text format: a label value up to its closing quote, the labels up to the closing brace, a
  whole sample line.\<close>

fun read_value :: "string \<Rightarrow> string \<Rightarrow> (string \<times> string) option" where
  "read_value acc [] = None"
| "read_value acc [c] = (if c = dquote then Some (rev acc, []) else None)"
| "read_value acc (c # d # s) =
     (if c = dquote then Some (rev acc, d # s)
      else if c = backslash then read_value ((if d = CHR ''n'' then newline else d) # acc) s
      else read_value (c # acc) (d # s))"

fun read_labels :: "nat \<Rightarrow> string \<Rightarrow> ((string \<times> string) list \<times> string) option" where
  "read_labels 0 s = None"
| "read_labels (Suc n) s =
     (case cut_byte s (CHR ''='') of
        None \<Rightarrow> None
      | Some (k, t) \<Rightarrow>
          (case read_value [] (drop 1 t) of
             None \<Rightarrow> None
           | Some (v, u) \<Rightarrow>
               if u = [] then None
               else if hd u = CHR ''}'' then Some ([(k, v)], tl u)
               else map_option (\<lambda>(ls, w). ((k, v) # ls, w)) (read_labels n (tl u))))"

definition read_series :: "string \<Rightarrow> (string \<times> (string \<times> string) list \<times> string) option" where
  "read_series line =
     (case cut_byte line (CHR ''{'') of
        None \<Rightarrow> None
      | Some (name, s) \<Rightarrow> map_option (\<lambda>(ls, w). (name, ls, drop 1 w)) (read_labels (length s) s))"

definition escape_char :: "char \<Rightarrow> string" where
  "escape_char c =
     (if c = newline then [backslash, CHR ''n''] else if c \<in> {dquote, backslash} then [backslash, c] else [c])"

lemma chars_distinct [simp]:
  "newline \<noteq> backslash" "backslash \<noteq> newline" "newline \<noteq> dquote" "dquote \<noteq> newline" "backslash \<noteq> dquote"
  "dquote \<noteq> backslash" "CHR ''n'' \<noteq> newline" "newline \<noteq> CHR ''n''" "dquote \<noteq> CHR ''n''" "backslash \<noteq> CHR ''n''" "CHR ''n'' \<noteq> dquote" "CHR ''n'' \<noteq> backslash"
  by (simp_all add: newline_def backslash_def dquote_def)

lemma replace_all_simps [simp]:
  "replace_all c new [] = []"
  "replace_all c new (x # s) = (if x = c then new else [x]) @ replace_all c new s"
  by (simp_all add: replace_all_def)

lemma escape_label_chars: "escape_label v = concat (map escape_char v)"
  by (induction v) (auto simp: escape_label_def escape_char_def)

lemma read_value_escape_char: "s \<noteq> [] \<Longrightarrow> read_value acc (escape_char c @ s) = read_value (c # acc) s"
  by (cases s) (simp_all add: escape_char_def)

lemma read_value_escaped: "read_value acc (escape_label v @ dquote # rest) = Some (rev acc @ v, rest)"
proof (induction v arbitrary: acc)
  case Nil
  show ?case by (cases rest) (simp_all add: escape_label_def)
next
  case (Cons c v)
  then show ?case using read_value_escape_char [of "escape_label v @ dquote # rest" acc c]
    by (simp add: escape_label_chars)
qed

lemma escape_label_line: "newline \<notin> set (escape_label v)"
  by (auto simp: escape_label_chars escape_char_def split: if_splits)

lemma cut_byte_append: "c \<notin> set k \<Longrightarrow> cut_byte (k @ c # s) c = Some (k, s)"
  by (simp add: cut_byte_def index_byte_append)

lemma read_labels_text:
  assumes "ls \<noteq> []" "\<forall>l \<in> set ls. CHR ''='' \<notin> set (fst l)" "length ls \<le> n"
  shows "read_labels n (join (map (\<lambda>l. label_text (fst l, escape_label (snd l))) ls) '','' @ CHR ''}'' # rest) = Some (ls, rest)"
  using assms
proof (induction ls arbitrary: n)
  case (Cons l ls)
  obtain k v where l: "l = (k, v)" by (cases l)
  obtain m where n: "n = Suc m" using Cons.prems by (cases n) auto
  have k: "CHR ''='' \<notin> set k" using Cons.prems l by simp
  show ?case
  proof (cases ls)
    case Nil
    then show ?thesis
      by (simp add: l n label_text_def cut_byte_append [OF k, simplified] read_value_escaped)
  next
    case (Cons l' ls')
    then show ?thesis using Cons.IH [of m] Cons.prems
      by (simp add: l n label_text_def cut_byte_append [OF k, simplified] read_value_escaped)
  qed
qed simp

lemma length_labels: "length ls \<le> Suc (length (join (map (\<lambda>l. label_text (fst l, escape_label (snd l))) ls) '',''))"
proof (induction ls)
  case (Cons l ls)
  then show ?case by (cases ls) (simp_all add: label_text_def)
qed simp

lemma read_series_line:
  assumes "CHR ''{'' \<notin> set name" "ls \<noteq> []" "\<forall>l \<in> set ls. CHR ''='' \<notin> set (fst l)"
  shows "read_series (series_line name (map (\<lambda>(k, v). (k, escape_label v)) ls) number) = Some (name, ls, number)"
proof -
  let ?text = "join (map (\<lambda>l. label_text (fst l, escape_label (snd l))) ls) '',''"
  have "read_labels (length (?text @ CHR ''}'' # '' '' @ number)) (?text @ CHR ''}'' # '' '' @ number) = Some (ls, '' '' @ number)"
    using length_labels [of ls] by (intro read_labels_text assms) (simp del: append_Cons)
  then show ?thesis
    using cut_byte_append [OF assms(1), of "?text @ CHR ''}'' # '' '' @ number"]
    by (simp add: read_series_def series_line_def case_prod_beta comp_def)
qed

lemma keyed_lines_read:
  assumes "CHR ''{'' \<notin> set name" "CHR ''='' \<notin> set key"
  shows "map read_series (keyed_lines fmt name key f p entries) =
    map (\<lambda>k. Some (name, [(''pool'', p), (key, k)], fmt (f (the (map_of entries k))))) (sort (map fst entries))"
  using read_series_line [OF assms(1), of "[(''pool'', p), (key, k)]" for k] assms(2)
  by (simp add: keyed_lines_def pool_label_def)

text \<open>Every line the registry writes is one line of the text.\<close>

definition one_line :: "string \<Rightarrow> bool" where "one_line s \<longleftrightarrow> newline \<notin> set s"

lemma one_line_simps [simp]:
  "one_line []" "one_line (a # s) \<longleftrightarrow> a \<noteq> newline \<and> one_line s" "one_line (s @ t) \<longleftrightarrow> one_line s \<and> one_line t"
  by (auto simp: one_line_def)

lemma one_line_join: "(\<forall>w \<in> set ws. one_line w) \<Longrightarrow> one_line sep \<Longrightarrow> one_line (join ws sep)"
  by (induction ws sep rule: join.induct) simp_all

lemma one_line_label: "one_line k \<Longrightarrow> one_line v \<Longrightarrow> one_line (label_text (k, v))"
  by (simp add: label_text_def) (simp add: newline_def)

lemma one_line_series:
  "one_line name \<Longrightarrow> (\<forall>(k, v) \<in> set ls. one_line k \<and> one_line v) \<Longrightarrow> one_line number \<Longrightarrow> one_line (series_line name ls number)"
proof -
  assume a: "one_line name" "\<forall>(k, v) \<in> set ls. one_line k \<and> one_line v" "one_line number"
  have "one_line (join (map label_text ls) '','')"
    using a(2) by (intro one_line_join) (auto intro: one_line_label simp: newline_def)
  with a show ?thesis by (simp add: series_line_def) (simp add: newline_def)
qed

lemma one_line_escape [simp]: "one_line (escape_label v)"
  using escape_label_line [of v] by (simp add: one_line_def)

lemma one_line_pool_series:
  "one_line name \<Longrightarrow> one_line number \<Longrightarrow> one_line (series_line name [pool_label p] number)"
  "one_line name \<Longrightarrow> one_line k \<Longrightarrow> one_line v \<Longrightarrow> one_line number \<Longrightarrow>
   one_line (series_line name [pool_label p, (k, v)] number)"
  by (rule one_line_series; simp add: pool_label_def newline_def)+

definition lines_ok :: "string list \<Rightarrow> bool" where "lines_ok ls \<longleftrightarrow> (\<forall>l \<in> set ls. one_line l)"

lemma lines_ok_simps [simp]:
  "lines_ok []" "lines_ok (l # ls) \<longleftrightarrow> one_line l \<and> lines_ok ls" "lines_ok (ls @ ks) \<longleftrightarrow> lines_ok ls \<and> lines_ok ks"
  "lines_ok (concat (map f xs)) \<longleftrightarrow> (\<forall>x \<in> set xs. lines_ok (f x))"
  by (auto simp: lines_ok_def)

lemma lines_ok_scalar: "\<forall>x. one_line (fmt x) \<Longrightarrow> one_line name \<Longrightarrow> lines_ok (scalar_lines fmt name ps f r)"
  by (auto simp: lines_ok_def scalar_lines_def one_line_pool_series)

lemma lines_ok_keyed: "\<forall>x. one_line (fmt x) \<Longrightarrow> one_line name \<Longrightarrow> one_line key \<Longrightarrow> lines_ok (keyed_lines fmt name key f p es)"
  by (auto simp: lines_ok_def keyed_lines_def one_line_pool_series)

lemma lines_ok_buckets:
  "\<forall>x. one_line (fmt x) \<Longrightarrow> one_line name \<Longrightarrow>
   lines_ok (map2 (\<lambda>b c. series_line name [pool_label p, (''le'', fmt b)] (fmt (g c))) bs cs)"
  unfolding lines_ok_def by (auto simp: newline_def intro!: one_line_pool_series)

lemma lines_ok_hist: "\<forall>x. one_line (fmt x) \<Longrightarrow> one_line name \<Longrightarrow> lines_ok (hist_lines fmt name p h)"
  by (simp add: hist_lines_def lines_ok_buckets one_line_pool_series newline_def)

lemma lines_ok_families:
  assumes "\<forall>x. one_line (fmt x)" "fam \<in> set (families fmt r)"
  shows "lines_ok (family_block fam)"
proof -
  have start: "lines_ok (slot_start_lines fmt ps r)" for ps
  proof -
    have "one_line ''tentacles_slot_start_seconds''" by (simp add: newline_def)
    then show ?thesis using assms(1)
      by (simp add: slot_start_lines_def Let_def lines_ok_buckets one_line_pool_series newline_def)
  qed
  have "lines_ok (fm_lines fam) \<and> one_line (fm_name fam) \<and> one_line (fm_help fam) \<and> one_line (fm_type fam)"
    using assms start
    by (auto simp: families_def Let_def actual_lines_def jobs_completed_lines_def histogram_lines_def newline_def
        intro!: lines_ok_scalar lines_ok_keyed lines_ok_hist)
  then show ?thesis by (simp add: family_block_def) (simp add: newline_def)
qed

text \<open>C33: The text the registry serves can be read back: its lines are exactly the comment and sample lines of the
  families, whatever label values were given, and reading a line of the slot and job counts yields the pool, the
  state or result and the text of the number it was written from, so that no two series are confused. Only the
  number format must not contain line ends.\<close>

theorem exposition_read_back:
  assumes "\<forall>x. newline \<notin> set (fmt x)"
  shows "split_byte newline (render fmt r) = concat (map family_block (sort_key fm_name (families fmt r))) @ [[]] \<and>
    map read_series (actual_lines fmt (pool_names r) r) =
      concat (map (\<lambda>p. map (\<lambda>st. Some (''tentacles_actual_runners'', [(''pool'', p), (''state'', st)],
                                fmt (real_of_int (the (map_of (mt_actual (pool_locked p r)) st)))))
                         (sort (map fst (mt_actual (pool_locked p r))))) (pool_names r)) \<and>
    map read_series (jobs_completed_lines fmt (pool_names r) r) =
      concat (map (\<lambda>p. map (\<lambda>res. Some (''tentacles_jobs_completed_total'', [(''pool'', p), (''result'', res)],
                                fmt (of_u64 (the (map_of (mt_jobs_completed (pool_locked p r)) res)))))
                         (sort (map fst (mt_jobs_completed (pool_locked p r))))) (pool_names r))"
proof (intro conjI)
  have "lines_ok (concat (map family_block (sort_key fm_name (families fmt r))))"
    using lines_ok_families [of fmt] assms by (simp add: one_line_def)
  then show "split_byte newline (render fmt r) = concat (map family_block (sort_key fm_name (families fmt r))) @ [[]]"
    using split_byte_unlines [of "concat (map family_block (sort_key fm_name (families fmt r)))" "[]"]
    by (simp add: render_def lines_ok_def one_line_def)
qed (simp_all add: actual_lines_def jobs_completed_lines_def map_concat comp_def keyed_lines_read)

definition demo_registry :: registry where
  "demo_registry =
     registry_after [OpRegister ''a'', OpActual ''a'' ''idle'' 2, OpJobsCompleted ''a'' [dquote], OpJobsCompleted ''a'' [dquote]]"

lemma demo_registry_pools: "map fst (rg_pools demo_registry) = [''a'']" "mt_jobs_completed (pool_locked ''a'' demo_registry) = [([dquote], 2)]"
  by (simp_all add: demo_registry_def registry_after_def metric_ops at_pool_def new_registry_def pool_locked_def
      new_pool_metrics_def completed_count_def)

theorem exposition_read_back_witness:
  "map read_series (jobs_completed_lines (\<lambda>x. if x = 2 then ''2'' else ''0'') (pool_names demo_registry) demo_registry) =
    [Some (''tentacles_jobs_completed_total'', [(''pool'', ''a''), (''result'', [dquote])], ''2'')]"
  using exposition_read_back [of "\<lambda>x. if x = 2 then ''2'' else ''0''" demo_registry] demo_registry_pools
  by (simp add: newline_def pool_names_def of_u64_def)

end
