(* ===== verification/Slot_Copy.thy ===== *)
theory Slot_Copy
  imports Tar_Extract
begin

text \<open>
  Filling a slot from the template (\<open>payload.go\<close>: \<open>CopySlotIntoContext\<close>, \<open>copyTreeContext\<close>, \<open>copyFileModeContext\<close>).
  The template is a finite tree that stays as it is during the walk (the daemon promotes a new template only at boot,
  before it fills slots); \<open>filepath.WalkDir\<close> visits it in preorder, each directory before its entries,
  and each visit makes the calls of package \<open>os\<close> on the file system of \<open>Tar_Extract\<close>.
\<close>

section \<open>The source tree\<close>

datatype tree = TreeDir nat "(string \<times> tree) list" | TreeFile nat string | TreeLink string | TreeOther

text \<open>\<open>WalkDir\<close>: the visited paths below the root with what is there; \<open>None\<close> is a file of another kind.\<close>

fun walk_tree :: "path \<Rightarrow> tree \<Rightarrow> (path \<times> node option) list" where
  "walk_tree p (TreeDir m es) = (p, Some (DirNode m)) # concat (map (\<lambda>(name, tr). walk_tree (p @ [name]) tr) es)"
| "walk_tree p (TreeFile m d) = [(p, Some (FileNode m d))]"
| "walk_tree p (TreeLink l) = [(p, Some (LinkNode l))]"
| "walk_tree p TreeOther = [(p, None)]"

text \<open>What a path of the tree leads to.\<close>

fun tree_at :: "tree \<Rightarrow> path \<Rightarrow> node option" where
  "tree_at (TreeDir m es) [] = Some (DirNode m)"
| "tree_at (TreeDir m es) (c # cs) = (case map_of es c of None \<Rightarrow> None | Some tr \<Rightarrow> tree_at tr cs)"
| "tree_at (TreeFile m d) cs = (if cs = [] then Some (FileNode m d) else None)"
| "tree_at (TreeLink l) cs = (if cs = [] then Some (LinkNode l) else None)"
| "tree_at TreeOther cs = None"

fun tree_ok :: "tree \<Rightarrow> bool" where
  "tree_ok (TreeDir m es) \<longleftrightarrow> distinct (map fst es) \<and> (\<forall>(name, tr) \<in> set es. elem_ok name \<and> tree_ok tr)"
| "tree_ok _ \<longleftrightarrow> True"

section \<open>Copying\<close>

text \<open>What goes wrong at a visit: the context has ended; the walk, the entry's status, opening the source file or
  making the destination fails (all of them before anything is changed); the copy of a file stops after some of its bytes; a later call (a close, a change of mode, a new link) fails.\<close>

record copy_flags =
  cy_ctx_err :: bool
  cy_walk_err :: bool
  cy_partial :: "string option"
  cy_io_err :: bool

definition copy_file_mode :: "copy_flags \<Rightarrow> path \<Rightarrow> nat \<Rightarrow> string \<Rightarrow> fs step" where
  "copy_file_mode cy p m d =
     (case cy_partial cy of
        Some part \<Rightarrow> andthen (write_new p 384 part) fail
      | None \<Rightarrow> andthen (write_new p 384 d) (if cy_io_err cy then fail else chmod p m))"

definition copy_visit :: "(path \<Rightarrow> copy_flags) \<Rightarrow> path \<Rightarrow> path \<times> node option \<Rightarrow> fs step" where
  "copy_visit flags dst e =
     (let cy = flags (fst e); p = dst @ fst e in
      if cy_ctx_err cy \<or> cy_walk_err cy then fail
      else case snd e of
        Some (DirNode m) \<Rightarrow> andthen (mkdir_all 448 [] p) (if cy_io_err cy then fail else chmod p m)
      | Some (FileNode m d) \<Rightarrow> copy_file_mode cy p m d
      | Some (LinkNode l) \<Rightarrow> if cy_io_err cy then fail else symlink l p
      | None \<Rightarrow> fail)"

fun copy_visits :: "(path \<Rightarrow> copy_flags) \<Rightarrow> path \<Rightarrow> (path \<times> node option) list \<Rightarrow> fs step" where
  "copy_visits flags dst [] = ok"
| "copy_visits flags dst (e # es) = andthen (copy_visit flags dst e) (copy_visits flags dst es)"

definition copy_tree :: "(path \<Rightarrow> copy_flags) \<Rightarrow> tree \<Rightarrow> path \<Rightarrow> fs step" where
  "copy_tree flags tr dst = copy_visits flags dst (walk_tree [] tr)"

text \<open>\<open>CopySlotIntoContext\<close>; \<open>listing\<close> is the answer of \<open>ReadDir\<close> on the reserved directory.\<close>

definition copy_slot_into ::
  "bool \<Rightarrow> string list option \<Rightarrow> (path \<Rightarrow> copy_flags) \<Rightarrow> tree \<Rightarrow> path \<Rightarrow> fs step" where
  "copy_slot_into ctx_err listing flags tr dst =
     (if ctx_err then fail
      else andthen (guard (\<lambda>t. is_dir (t dst))) (if listing = Some [] then copy_tree flags tr dst else fail))"

text \<open>\<open>CopySlot\<close>, for a slot directory that does not exist yet; \<open>template\<close> is what stands at the template's path.\<close>

definition copy_slot :: "(path \<Rightarrow> copy_flags) \<Rightarrow> tree option \<Rightarrow> path \<Rightarrow> fs step" where
  "copy_slot flags template dst t =
     (case follow t (butlast dst) of
        None \<Rightarrow> (False, t)
      | Some d \<Rightarrow>
          if t (d @ [last dst]) \<noteq> None \<or> t d = None then (False, t)
          else case template of
            Some (TreeDir m es) \<Rightarrow> copy_tree flags (TreeDir m es) dst t
          | _ \<Rightarrow> (False, t))"

section \<open>Paths through directories\<close>

lemma walk_path_dirs:
  "\<forall>e \<in> set cs. elem_ok e \<Longrightarrow> \<forall>k < length cs. 0 < k \<longrightarrow> is_dir (t (cur @ take k cs)) \<Longrightarrow>
   \<not> is_link (t (cur @ cs)) \<Longrightarrow> walk_path n t cur cs = Some (cur @ cs)"
proof (induction cs arbitrary: cur)
  case (Cons c cs)
  have c: "c \<noteq> []" "c \<noteq> ''.''" "c \<noteq> ''..''" using Cons.prems(1) by (auto simp: elem_ok_def)
  show ?case
  proof (cases "cs = []")
    case True
    with c Cons.prems(3) show ?thesis by (auto split: option.split node.split)
  next
    case False
    have "is_dir (t (cur @ [c]))" using Cons.prems(2) [rule_format, of 1] False by simp
    then obtain m where m: "t (cur @ [c]) = Some (DirNode m)" by (cases "t (cur @ [c])" rule: is_dir.cases) auto
    have "walk_path n t (cur @ [c]) cs = Some ((cur @ [c]) @ cs)"
      using Cons.prems(1,3) Cons.prems(2) [rule_format, of "Suc k" for k] by (intro Cons.IH) auto
    with c m show ?thesis by simp
  qed
qed simp

text \<open>The way to \<open>p\<close> leads through directories only.\<close>

definition dirs_to :: "path \<Rightarrow> fs \<Rightarrow> bool" where
  "dirs_to p t \<longleftrightarrow> (\<forall>e \<in> set p. elem_ok e) \<and> (\<forall>k < length p. is_dir (t (take k p)))"

lemma follow_dirs: "dirs_to p t \<Longrightarrow> \<not> is_link (t p) \<Longrightarrow> follow t p = Some p"
  using walk_path_dirs [of p t "[]"] by (simp add: dirs_to_def follow_def)

lemma is_dir_not_link: "is_dir nd \<Longrightarrow> \<not> is_link nd"
  by (cases nd rule: is_dir.cases) auto

lemma dirs_to_take: "dirs_to p t \<Longrightarrow> dirs_to (take k p) t"
  by (auto simp: dirs_to_def min_def dest: in_set_takeD)

lemma mkdir_all_dirs:
  assumes "dirs_to (before @ cs) t" "cs \<noteq> []" "t (before @ cs) = None \<or> is_dir (t (before @ cs))"
  shows "mkdir_all mode before cs t =
    (True, if t (before @ cs) = None then t(before @ cs \<mapsto> DirNode mode) else t)"
  using assms
proof (induction cs arbitrary: before)
  case (Cons c cs)
  let ?p = "before @ [c]"
  have before: "dirs_to before t" "is_dir (t before)"
    using dirs_to_take [OF Cons.prems(1), of "length before"] Cons.prems(1)
    by (auto simp: dirs_to_def dest: spec [of _ "length before"])
  have to: "dirs_to ?p t" using dirs_to_take [OF Cons.prems(1), of "Suc (length before)"] by simp
  have fb: "follow t before = Some before" using before by (simp add: follow_dirs is_dir_not_link)
  show ?case
  proof (cases "cs = []")
    case True
    then have "follow t ?p = Some ?p" using to Cons.prems(3) by (auto intro!: follow_dirs simp: is_dir_not_link)
    with True fb Cons.prems(3) show ?thesis by auto
  next
    case False
    have d: "is_dir (t ?p)"
      using Cons.prems(1) False by (auto simp: dirs_to_def dest: spec [of _ "Suc (length before)"])
    then have "follow t ?p = Some ?p" using to by (simp add: follow_dirs is_dir_not_link)
    with d Cons.IH [of ?p] Cons.prems False show ?thesis by simp
  qed
qed simp

section \<open>One visit\<close>

lemma chmod_dirs: "dirs_to p t \<Longrightarrow> t p = Some nd \<Longrightarrow> \<not> is_link (t p) \<Longrightarrow> chmod p m t = (True, t(p \<mapsto> set_mode m nd))"
  by (simp add: chmod_def follow_dirs)

lemma write_new_dirs: "dirs_to p t \<Longrightarrow> t p = None \<Longrightarrow> write_new p m d t = (True, t(p \<mapsto> FileNode m d))"
  by (simp add: write_new_def follow_dirs)

lemma symlink_dirs:
  assumes "dirs_to p t" "p \<noteq> []" "t p = None"
  shows "symlink l p t = (True, t(p \<mapsto> LinkNode l))"
proof -
  have "is_dir (t (butlast p))"
    using assms(1,2) by (simp add: dirs_to_def butlast_conv_take)
  moreover from this have "follow t (butlast p) = Some (butlast p)"
    using dirs_to_take [OF assms(1), of "length p - 1"]
    by (intro follow_dirs) (simp_all add: butlast_conv_take is_dir_not_link)
  ultimately show ?thesis using assms(2,3) by (simp add: symlink_def)
qed

lemma dirs_to_upd: "dirs_to p t \<Longrightarrow> dirs_to p (t(p \<mapsto> nd))"
  by (auto simp: dirs_to_def)

text \<open>At a place reached through directories a visit makes exactly the source's node, or fails and changes at most
  that place.\<close>

lemma copy_visit_cases:
  assumes "dirs_to (dst @ r) t" "r = [] \<Longrightarrow> is_dir (t dst) \<and> is_dir nd" "r \<noteq> [] \<Longrightarrow> t (dst @ r) = None"
    and "copy_visit flags dst (r, nd) t = (good, t')"
  shows "(\<forall>q. t' q \<noteq> t q \<longrightarrow> q = dst @ r) \<and> (good \<longrightarrow> (\<exists>n. nd = Some n \<and> t' = t(dst @ r \<mapsto> n)))"
proof -
  let ?p = "dst @ r"
  have free: "t ?p = None \<or> is_dir (t ?p)" using assms(2,3) by (cases "r = []") auto
  show ?thesis
  proof (cases "cy_ctx_err (flags r) \<or> cy_walk_err (flags r) \<or> nd = None")
    case True
    with assms(4) have "t' = t \<and> \<not> good" by (auto simp: copy_visit_def Let_def fail_def split: if_splits)
    then show ?thesis by simp
  next
    case False
    then obtain n where n: "nd = Some n" by auto
    show ?thesis
    proof (cases n)
      case (DirNode m)
      obtain t1 where t1: "mkdir_all 448 [] ?p t = (True, t1)" "\<forall>q. q \<noteq> ?p \<longrightarrow> t1 q = t q" "is_dir (t1 ?p)" "dirs_to ?p t1"
      proof (cases "?p = []")
        case True
        with assms(1,2) that [of t] show ?thesis by simp
      next
        case ne: False
        show ?thesis
        proof (cases "t ?p = None")
          case True
          with mkdir_all_dirs [of "[]" ?p t 448] assms(1) ne that [of "t(?p \<mapsto> DirNode 448)"] show ?thesis
            by (simp add: dirs_to_upd)
        next
          case False
          with mkdir_all_dirs [of "[]" ?p t 448] assms(1) ne free that [of t] show ?thesis by simp
        qed
      qed
      then obtain m1 where m1: "t1 ?p = Some (DirNode m1)" by (cases "t1 ?p" rule: is_dir.cases) auto
      have c: "chmod ?p m t1 = (True, t1(?p \<mapsto> DirNode m))"
        using chmod_dirs [OF t1(4) m1] m1 by (simp add: set_mode_def)
      have "t1(?p \<mapsto> DirNode m) = t(?p \<mapsto> DirNode m)" using t1(2) by auto
      with assms(4) False n DirNode t1(1,2) c show ?thesis
        by (auto simp: copy_visit_def andthen_def Let_def fail_def split: if_splits)
    next
      case (FileNode m d)
      then have ne: "t ?p = None" using assms(2,3) n by (cases "r = []") auto
      have w: "write_new ?p 384 w t = (True, t(?p \<mapsto> FileNode 384 w))" for w
        using assms(1) ne by (rule write_new_dirs)
      have "chmod ?p m (t(?p \<mapsto> FileNode 384 d)) = (True, t(?p \<mapsto> FileNode m d))"
        using chmod_dirs [OF dirs_to_upd [OF assms(1)], of "FileNode 384 d"] by (simp add: set_mode_def)
      with assms(4) False n FileNode w show ?thesis
        by (auto simp: copy_visit_def copy_file_mode_def andthen_def Let_def fail_def split: if_splits option.splits)
    next
      case (LinkNode l)
      then have ne: "t ?p = None" "?p \<noteq> []" using assms(2,3) n by (cases "r = []"; auto)+
      from symlink_dirs [OF assms(1) ne(2,1)] assms(4) False n LinkNode show ?thesis
        by (auto simp: copy_visit_def Let_def fail_def split: if_splits)
    qed
  qed
qed

section \<open>The whole walk\<close>

text \<open>Every entry of a walk comes once, and after its parent.\<close>

fun parents_first :: "(path \<times> node option) list \<Rightarrow> (path \<times> node option) list \<Rightarrow> bool" where
  "parents_first seen [] \<longleftrightarrow> True"
| "parents_first seen ((r, nd) # xs) \<longleftrightarrow>
     r \<notin> fst ` set seen \<and> (\<forall>e \<in> set r. elem_ok e) \<and> (r = [] \<longrightarrow> is_dir nd) \<and>
     (r \<noteq> [] \<longrightarrow> (\<exists>m. (butlast r, Some (DirNode m)) \<in> set seen)) \<and> parents_first ((r, nd) # seen) xs"

definition found_at :: "(path \<times> node option) list \<Rightarrow> path \<Rightarrow> node option" where
  "found_at xs r = Option.bind (map_of xs r) (\<lambda>nd. nd)"

lemma found_at_simps [simp]:
  "found_at [] r = None" "found_at ((q, nd) # xs) r = (if r = q then nd else found_at xs r)"
  by (simp_all add: found_at_def)

text \<open>The file system after the visits \<open>seen\<close>, on the way from \<open>t0\<close>.\<close>

definition copied :: "path \<Rightarrow> fs \<Rightarrow> (path \<times> node option) list \<Rightarrow> fs \<Rightarrow> bool" where
  "copied dst t0 seen t \<longleftrightarrow>
     (\<forall>k \<le> length dst. is_dir (t (take k dst))) \<and> changes_below dst t0 t \<and>
     (\<forall>r. r \<noteq> [] \<or> r \<in> fst ` set seen \<longrightarrow> t (dst @ r) = found_at seen r) \<and>
     distinct (map fst seen) \<and>
     (\<forall>(r, nd) \<in> set seen. \<forall>k < length r. \<exists>m. (take k r, Some (DirNode m)) \<in> set seen)"

lemma found_at_mem: "distinct (map fst xs) \<Longrightarrow> (r, nd) \<in> set xs \<Longrightarrow> found_at xs r = nd"
  by (simp add: found_at_def)

lemma found_at_none: "r \<notin> fst ` set xs \<Longrightarrow> found_at xs r = None"
  by (simp add: found_at_def map_of_eq_None_iff [THEN iffD2])

lemma copied_dirs_to:
  assumes "copied dst t0 seen t" "\<forall>e \<in> set (dst @ r). elem_ok e" "r \<noteq> [] \<longrightarrow> (\<exists>m. (butlast r, Some (DirNode m)) \<in> set seen)"
  shows "dirs_to (dst @ r) t"
proof -
  have "is_dir (t (take k (dst @ r)))" if k: "k < length (dst @ r)" for k
  proof (cases "k \<le> length dst")
    case True
    with assms(1) show ?thesis by (simp add: copied_def)
  next
    case False
    define j where "j = k - length dst"
    have j: "0 < j" "j < length r" using False k by (auto simp: j_def)
    then obtain m where m: "(butlast r, Some (DirNode m)) \<in> set seen" using assms(3) by auto
    obtain m' where m': "(take j r, Some (DirNode m')) \<in> set seen"
    proof (cases "j = length r - 1")
      case True
      with m that show ?thesis by (simp add: butlast_conv_take)
    next
      case False
      with j have "j < length (butlast r)" by simp
      with m assms(1) obtain m'' where "(take j (butlast r), Some (DirNode m'')) \<in> set seen"
        unfolding copied_def by blast
      with j that show ?thesis by (simp add: butlast_conv_take min_def split: if_splits)
    qed
    then have "found_at seen (take j r) = Some (DirNode m')"
      using assms(1) by (auto simp: copied_def intro: found_at_mem)
    moreover have "t (dst @ take j r) = found_at seen (take j r)"
      using assms(1) j by (auto simp: copied_def dest!: spec [of _ "take j r"])
    moreover have "take k (dst @ r) = dst @ take j r" using False by (simp add: j_def)
    ultimately show ?thesis by simp
  qed
  with assms(2) show ?thesis by (simp add: dirs_to_def)
qed

lemma copied_snoc:
  assumes "copied dst t0 seen t" "r \<notin> fst ` set seen" "r = [] \<Longrightarrow> is_dir (Some n)"
    and "r \<noteq> [] \<Longrightarrow> \<exists>m. (butlast r, Some (DirNode m)) \<in> set seen"
  shows "copied dst t0 ((r, Some n) # seen) (t(dst @ r \<mapsto> n))"
proof -
  have "is_dir ((t(dst @ r \<mapsto> n)) (take k dst))" if k: "k \<le> length dst" for k
  proof (cases "take k dst = dst @ r")
    case True
    then have "length dst + length r = k" using k by (metis length_append length_take min.absorb2)
    with k have "length r = 0" by linarith
    with True assms(3) show ?thesis by simp
  next
    case False
    with assms(1) k show ?thesis by (simp add: copied_def)
  qed
  moreover have "\<exists>m. (take k r, Some (DirNode m)) \<in> set seen" if k: "k < length r" for k
  proof -
    obtain m where m: "(butlast r, Some (DirNode m)) \<in> set seen" using k assms(4) by fastforce
    show ?thesis
    proof (cases "k = length r - 1")
      case True
      with m show ?thesis by (auto simp: butlast_conv_take)
    next
      case False
      with k have "k < length (butlast r)" by simp
      with m assms(1) obtain m'' where "(take k (butlast r), Some (DirNode m'')) \<in> set seen"
        unfolding copied_def by blast
      with k show ?thesis by (auto simp: butlast_conv_take min_def split: if_splits)
    qed
  qed
  ultimately show ?thesis using assms(1,2)
    unfolding copied_def changes_below_def by (auto; blast)
qed

lemma copy_visits_steps:
  "copied dst t0 seen t \<Longrightarrow> \<forall>e \<in> set dst. elem_ok e \<Longrightarrow> parents_first seen xs \<Longrightarrow>
   copy_visits flags dst xs t = (good, t') \<Longrightarrow>
   changes_below dst t0 t' \<and> (good \<longrightarrow> copied dst t0 (rev xs @ seen) t')"
proof (induction xs arbitrary: seen t)
  case Nil
  then show ?case by (auto simp: ok_def copied_def)
next
  case (Cons e xs)
  obtain r nd where e: "e = (r, nd)" by (cases e)
  obtain g t1 where v: "copy_visit flags dst (r, nd) t = (g, t1)" by fastforce
  note pf = Cons.prems(3) [unfolded e parents_first.simps]
  have to: "dirs_to (dst @ r) t" using Cons.prems(1,2) pf by (intro copied_dirs_to) auto
  have at: "t (dst @ r) = None" if "r \<noteq> []"
    using that Cons.prems(1) pf found_at_none [of r seen] by (auto simp: copied_def)
  have root: "is_dir (t dst)" using Cons.prems(1) by (auto simp: copied_def dest: spec [of _ "length dst"])
  from copy_visit_cases [OF to _ _ v] pf at root
  have st: "\<forall>q. t1 q \<noteq> t q \<longrightarrow> q = dst @ r" "g \<longrightarrow> (\<exists>n. nd = Some n \<and> t1 = t(dst @ r \<mapsto> n))" by auto
  have below: "changes_below dst t0 t1"
    using st(1) Cons.prems(1) unfolding copied_def changes_below_def by metis
  show ?case
  proof (cases g)
    case False
    with Cons.prems(4) v below show ?thesis by (simp add: e andthen_def)
  next
    case True
    with st obtain n where n: "nd = Some n" "t1 = t(dst @ r \<mapsto> n)" by auto
    have "copied dst t0 ((r, nd) # seen) t1"
      unfolding n using Cons.prems(1) pf n by (intro copied_snoc) auto
    from Cons.IH [OF this Cons.prems(2)] pf Cons.prems(4) v True show ?thesis by (simp add: e andthen_def)
  qed
qed

section \<open>The walk of a tree\<close>

lemma parents_first_append:
  "parents_first seen (xs @ ys) \<longleftrightarrow> parents_first seen xs \<and> parents_first (rev xs @ seen) ys"
proof (induction xs arbitrary: seen)
  case (Cons x xs)
  then show ?case by (cases x) simp
qed simp

lemma parents_first_leaf:
  "\<forall>e \<in> set p. elem_ok e \<Longrightarrow> \<forall>r. p @ r \<notin> fst ` set seen \<Longrightarrow> p \<noteq> [] \<Longrightarrow>
   \<exists>m. (butlast p, Some (DirNode m)) \<in> set seen \<Longrightarrow> parents_first seen [(p, nd)]"
  by (metis append_Nil2 parents_first.simps)

lemma walk_tree_below: "x \<in> set (walk_tree p tr) \<Longrightarrow> \<exists>r. fst x = p @ r"
proof (induction p tr arbitrary: x rule: walk_tree.induct)
  case (1 p m es)
  then consider "fst x = p @ []" | name tr where "(name, tr) \<in> set es" "x \<in> set (walk_tree (p @ [name]) tr)" by auto
  then show ?case
  proof cases
    case 2
    from "1.IH" [OF 2(1) refl 2(2)] show ?thesis by auto
  qed blast
qed auto

lemma parents_first_walk:
  "tree_ok tr \<Longrightarrow> \<forall>e \<in> set p. elem_ok e \<Longrightarrow> \<forall>r. p @ r \<notin> fst ` set seen \<Longrightarrow>
   (p = [] \<Longrightarrow> \<exists>m es. tr = TreeDir m es) \<Longrightarrow> (p \<noteq> [] \<Longrightarrow> \<exists>m. (butlast p, Some (DirNode m)) \<in> set seen) \<Longrightarrow>
   parents_first seen (walk_tree p tr)"
proof (induction p tr arbitrary: seen rule: walk_tree.induct)
  case (1 p m es)
  have new: "p \<notin> fst ` set seen" using 1(4) by (metis append_Nil2)
  have "parents_first seen' (concat (map (\<lambda>(name, tr). walk_tree (p @ [name]) tr) fs))"
    if "set fs \<subseteq> set es" "distinct (map fst fs)" "(p, Some (DirNode m)) \<in> set seen'"
      "\<forall>name \<in> fst ` set fs. \<forall>r. p @ name # r \<notin> fst ` set seen'" for fs seen'
    using that
  proof (induction fs arbitrary: seen')
    case (Cons f fs)
    obtain name tr where f: "f = (name, tr)" by (cases f)
    have mem: "(name, tr) \<in> set es" using Cons.prems(1) f by simp
    have okn: "elem_ok name" "tree_ok tr" using 1(2) mem by auto
    have first: "parents_first seen' (walk_tree (p @ [name]) tr)"
      using okn mem "1.prems"(2) Cons.prems(3,4) f
      by (intro "1.IH" [of "(name, tr)"]) auto
    have "p @ n # r \<notin> fst ` set (walk_tree (p @ [name]) tr)" if "n \<in> fst ` set fs" for n r
    proof -
      have "n \<noteq> name" using that Cons.prems(2) f by force
      then show ?thesis by (auto dest!: walk_tree_below)
    qed
    then have "parents_first (rev (walk_tree (p @ [name]) tr) @ seen') (concat (map (\<lambda>(name, tr). walk_tree (p @ [name]) tr) fs))"
      using Cons.prems f by (intro Cons.IH) (auto simp: image_Un)
    with first f show ?case by (simp add: parents_first_append)
  qed simp
  from this [of es "(p, Some (DirNode m)) # seen"] 1(2,4) have
    "parents_first ((p, Some (DirNode m)) # seen) (concat (map (\<lambda>(name, tr). walk_tree (p @ [name]) tr) es))"
    by auto
  with new 1(3,6) show ?case by simp
qed (simp_all only: walk_tree.simps, (rule parents_first_leaf; auto)+)

lemma found_at_append: "found_at (xs @ ys) r = (if r \<in> fst ` set xs then found_at xs r else found_at ys r)"
proof (induction xs)
  case (Cons x xs)
  then show ?case by (cases x) simp
qed simp

lemma found_at_walk: "tree_ok tr \<Longrightarrow> found_at (walk_tree p tr) (p @ r) = tree_at tr r"
proof (induction p tr arbitrary: r rule: walk_tree.induct)
  case (1 p m es)
  show ?case
  proof (cases r)
    case Nil
    then show ?thesis by simp
  next
    case (Cons c cs)
    have "found_at (concat (map (\<lambda>(name, tr). walk_tree (p @ [name]) tr) fs)) (p @ c # cs) =
        (case map_of fs c of None \<Rightarrow> None | Some tr \<Rightarrow> tree_at tr cs)"
      if "set fs \<subseteq> set es" "distinct (map fst fs)" for fs
      using that
    proof (induction fs)
      case (Cons f fs)
      obtain name tr where f: "f = (name, tr)" by (cases f)
      have mem: "(name, tr) \<in> set es" using Cons.prems(1) f by simp
      have here: "found_at (walk_tree (p @ [name]) tr) (p @ name # cs) = tree_at tr cs"
        using "1.IH" [OF mem refl, of cs] "1.prems" mem by auto
      have rest: "p @ c # cs \<notin> fst ` set (walk_tree (p @ [name]) tr)" if "name \<noteq> c"
        using that by (auto dest!: walk_tree_below)
      have others: "p @ name # cs \<notin> fst ` set (concat (map (\<lambda>(name, tr). walk_tree (p @ [name]) tr) fs))"
        using Cons.prems(2) f by (force dest!: walk_tree_below)
      show ?case
      proof (cases "name = c")
        case True
        then show ?thesis using here others found_at_none [OF others] by (auto simp: f found_at_append found_at_none)
      next
        case False
        then show ?thesis using Cons rest by (simp add: f found_at_append)
      qed
    qed simp
    from this [of es] 1(2) Cons show ?thesis by auto
  qed
qed auto

section \<open>The slot is the template\<close>

text \<open>C31: A filled slot is an exact copy of the template: when the copy into the reserved directory succeeds, every
  path below the slot leads to just what it leads to in the template (directories, files with their contents and
  modes, symbolic links with their targets, and nothing else). Whether it succeeds or not, nothing outside the slot
  changes, also when the template holds links that lead elsewhere.\<close>

theorem slot_exact_copy:
  assumes "tree_ok (TreeDir m es)" "\<forall>e \<in> set dst. elem_ok e" "\<forall>k < length dst. is_dir (t (take k dst))"
    and "listing = Some [] \<Longrightarrow> \<forall>r. r \<noteq> [] \<longrightarrow> t (dst @ r) = None"
    and "copy_slot_into ctx_err listing flags (TreeDir m es) dst t = (good, t')"
  shows "(\<forall>q. t' q \<noteq> t q \<longrightarrow> (\<exists>r. q = dst @ r)) \<and> (good \<longrightarrow> (\<forall>r. t' (dst @ r) = tree_at (TreeDir m es) r))"
proof (cases "ctx_err \<or> \<not> is_dir (t dst) \<or> listing \<noteq> Some []")
  case True
  with assms(5) show ?thesis by (auto simp: copy_slot_into_def fail_def andthen_def guard_def split: if_splits)
next
  case False
  have dirs: "is_dir (t (take k dst))" if "k \<le> length dst" for k
    using that False assms(3) by (cases "k = length dst") auto
  have "copied dst t [] t" using assms(4) False dirs by (auto simp: copied_def changes_below_def)
  moreover have "parents_first [] (walk_tree [] (TreeDir m es))"
    using assms(1) by (intro parents_first_walk) auto
  moreover have "copy_visits flags dst (walk_tree [] (TreeDir m es)) t = (good, t')"
    using assms(5) False by (simp add: copy_slot_into_def copy_tree_def andthen_def guard_def)
  ultimately have st: "changes_below dst t t'" "good \<longrightarrow> copied dst t (rev (walk_tree [] (TreeDir m es))) t'"
    using copy_visits_steps [OF _ assms(2)] by (metis append_Nil2)+
  have "t' (dst @ r) = tree_at (TreeDir m es) r" if good for r
  proof -
    let ?walk = "walk_tree [] (TreeDir m es)"
    have c: "distinct (map fst ?walk)" "r \<noteq> [] \<or> r \<in> fst ` set ?walk \<longrightarrow> t' (dst @ r) = found_at (rev ?walk) r"
      using st(2) that by (auto simp: copied_def simp del: walk_tree.simps simp flip: rev_map)
    then have "t' (dst @ r) = found_at (rev ?walk) r" by auto
    also have "\<dots> = found_at ?walk r" 
      using map_of_inject_set [of "rev ?walk" ?walk] c(1) unfolding found_at_def
      by (simp del: walk_tree.simps flip: rev_map)
    also have "\<dots> = tree_at (TreeDir m es) r" using found_at_walk [OF assms(1), of "[]" r] by simp
    finally show ?thesis .
  qed
  with st(1) show ?thesis by (simp add: changes_below_def)
qed

definition demo_template :: tree where
  "demo_template = TreeDir 493 [(''bin'', TreeDir 320 [(''run'', TreeFile 493 ''x'')]), (''etc'', TreeLink ''/etc'')]"

definition no_trouble :: copy_flags where
  "no_trouble = \<lparr>cy_ctx_err = False, cy_walk_err = False, cy_partial = None, cy_io_err = False\<rparr>"

theorem slot_exact_copy_witness:
  "snd (copy_slot_into False (Some []) (\<lambda>_. no_trouble) demo_template [''s'', ''t.tmp''] demo_fs) [''s'', ''t.tmp'', ''bin'', ''run''] =
    Some (FileNode 493 ''x'')"
proof -
  obtain good t' where c: "copy_slot_into False (Some []) (\<lambda>_. no_trouble) demo_template [''s'', ''t.tmp''] demo_fs = (good, t')"
    by fastforce
  have "fst (copy_slot_into False (Some []) (\<lambda>_. no_trouble) demo_template [''s'', ''t.tmp''] demo_fs)"
    by code_simp
  with c have good by simp
  with slot_exact_copy [of 493 "[(''bin'', TreeDir 320 [(''run'', TreeFile 493 ''x'')]), (''etc'', TreeLink ''/etc'')]"
      "[''s'', ''t.tmp'']" demo_fs "Some []" False "\<lambda>_. no_trouble" good t'] c
  have "t' ([''s'', ''t.tmp''] @ [''bin'', ''run'']) = tree_at demo_template [''bin'', ''run'']"
    unfolding demo_template_def by (force simp: elem_ok_def demo_fs_def less_Suc_eq)
  with c show ?thesis by (simp add: demo_template_def)
qed

end
