(* ===== verification/Pool_Services.thy ===== *)
theory Pool_Services
  imports Scaleset Logship Retention Slot_Copy
begin

text \<open>
  What one pool hands its slot table (\<open>app/pool.go\<close>): minting the JIT configuration of a slot, filling a slot from
  the template under a disk watermark, shipping a slot's diagnostics between two runs of retention; and the
  probes of the host's memory and disk (\<open>app/app.go\<close>).
\<close>

section \<open>Host probes\<close>

text \<open>\<open>procMemAvailable\<close> of the content of \<open>/proc/meminfo\<close> (\<open>None\<close>: unreadable); the product wraps.\<close>

definition proc_mem_available :: "string option \<Rightarrow> u64 option" where
  "proc_mem_available content =
     (case content of None \<Rightarrow> None
      | Some text \<Rightarrow>
          (case find (\<lambda>l. has_prefix l ''MemAvailable:'') (split_byte newline text) of
             None \<Rightarrow> None
           | Some l \<Rightarrow>
               let fs = Go_Strings.fields l in
               if length fs < 2 then None
               else case parse_uint64 (fs ! 1) of None \<Rightarrow> None | Some kb \<Rightarrow> Some (of_nat kb * 1024)))"

text \<open>\<open>diskUsage\<close> of the answer of \<open>statfs\<close> (available blocks, blocks, block size): free and all bytes.\<close>

definition disk_usage :: "(u64 \<times> u64 \<times> u64) option \<Rightarrow> (u64 \<times> u64) option" where
  "disk_usage st = map_option (\<lambda>(avail, blocks, bsize). (avail * bsize, blocks * bsize)) st"

definition below_watermark :: "(u64 \<times> u64) option \<Rightarrow> bool" where
  "below_watermark usage \<longleftrightarrow>
     (case usage of None \<Rightarrow> False | Some (free, all) \<Rightarrow> all > 0 \<and> free * 10 < all)"

section \<open>Provisioning\<close>

text \<open>The materializer of a pool.\<close>

definition materialize_slot ::
  "(u64 \<times> u64 \<times> u64) option \<Rightarrow> bool \<Rightarrow> string list option \<Rightarrow> (path \<Rightarrow> copy_flags) \<Rightarrow> tree \<Rightarrow> path \<Rightarrow> fs step" where
  "materialize_slot st ctx_err listing flags tr dst =
     (if below_watermark (disk_usage st) then fail else copy_slot_into ctx_err listing flags tr dst)"

text \<open>\<open>mintJIT\<close>: the runner's name and its encoded configuration; \<open>random\<close> is three bytes, or a failed read.\<close>

definition mint_name :: "string \<Rightarrow> slot_id \<Rightarrow> nat list \<Rightarrow> string" where
  "mint_name set_name i bytes = set_name @ ''-'' @ i @ ''-'' @ hex_encode bytes"

definition mint_jit ::
  "'u client \<Rightarrow> 'u \<Rightarrow> adapter \<Rightarrow> string \<Rightarrow> table \<Rightarrow> nat list option \<Rightarrow> slot_id \<Rightarrow> (string \<times> string) option" where
  "mint_jit uc u ad set_name t random i =
     (case random of None \<Rightarrow> None
      | Some bytes \<Rightarrow>
          let name = mint_name set_name i bytes in
          map_option (\<lambda>encoded. (name, encoded)) (generate_jit uc u name (work_dir t i) ad))"

section \<open>Diagnostics\<close>

text \<open>\<open>shipDiag\<close>: the semaphore lets one shipment of the daemon run at a time; retention runs before and after it.
  The result: success, the archives the two runs removed, and what was shipped.\<close>

record diag_run =
  di_acquired :: bool
  di_before :: prune_env
  di_ship :: ship_env
  di_after :: prune_env

definition diag_limits :: "config \<Rightarrow> duration \<times> int" where
  "diag_limits c =
     (if cf_diag_max_age c = 0 then 7 * 24 * 60 * minute else cf_diag_max_age c,
      if cf_diag_max_bytes c = 0 then 2 ^ 30 else cf_diag_max_bytes c)"

definition ship_slot_diag :: "config \<Rightarrow> string \<Rightarrow> diag_run \<Rightarrow> slot \<Rightarrow> bool \<times> archive list \<times> ship_result" where
  "ship_slot_diag c pool_id di s =
     (if \<not> cf_ship_diag c then (True, [], ShipNothing)
      else if \<not> di_acquired di then (False, [], ShipNothing)
      else
        let (max_age, max_bytes) = diag_limits c; logs = pool_log_dir c pool_id in
        case prune (di_before di) logs max_age max_bytes of
          (False, gone) \<Rightarrow> (False, gone, ShipNothing)
        | (True, gone) \<Rightarrow>
            (case fst (ship_diag (di_ship di) (s_dir s) logs (s_runner_name s)) of
               ShipErr \<Rightarrow> (False, gone, ShipErr)
             | res \<Rightarrow>
                 let (good, gone') = prune (di_after di) logs max_age max_bytes in (good, gone @ gone', res)))"

section \<open>Facts\<close>

text \<open>The watermark is a tenth of the file system, as long as ten times the free bytes do not pass \<open>2^64\<close>.\<close>

lemma below_watermark_exact:
  assumes "unat free * 10 < 2 ^ 64"
  shows "below_watermark (Some (free, all)) \<longleftrightarrow> unat free * 10 < unat all"
proof -
  have "unat (free * 10) = unat free * 10"
    using assms by (simp add: unat_word_ariths)
  then show ?thesis by (auto simp: below_watermark_def word_less_nat_alt)
qed

lemma hex_digit_inj: "a < 16 \<Longrightarrow> b < 16 \<Longrightarrow> hex_digit a = hex_digit b \<longleftrightarrow> a = b"
proof -
  assume "a < 16" "b < 16"
  then have "a \<in> set [0..<16]" "b \<in> set [0..<16]" by simp_all
  then show ?thesis by (auto simp: hex_digit_def digit_char_def upt_conv_Cons)
qed

lemma hex_encode_inj:
  "list_all (\<lambda>b. b < 256) bs \<Longrightarrow> list_all (\<lambda>b. b < 256) cs \<Longrightarrow> hex_encode bs = hex_encode cs \<Longrightarrow> bs = cs"
proof (induction bs arbitrary: cs)
  case Nil
  then show ?case by (cases cs) (simp_all add: hex_encode_def)
next
  case (Cons b bs)
  then obtain c cs' where cs: "cs = c # cs'" by (cases cs) (simp_all add: hex_encode_def)
  have "b div 16 = c div 16" "b mod 16 = c mod 16"
    using Cons.prems hex_digit_inj [of "b div 16" "c div 16"] hex_digit_inj [of "b mod 16" "c mod 16"]
    by (simp_all add: cs hex_encode_def less_mult_imp_div_less)
  then have "b = c" by (metis div_mult_mod_eq)
  with Cons cs show ?case by (simp add: hex_encode_def)
qed

text \<open>Within a pool the name of a runner tells the slot it was minted for.\<close>

lemma mint_name_inj:
  assumes "valid_id i" "valid_id j" "list_all (\<lambda>b. b < 256) bs" "list_all (\<lambda>b. b < 256) cs"
    and "mint_name s i bs = mint_name s j cs"
  shows "i = j \<and> bs = cs"
proof -
  have "length i = 4" "length j = 4" using assms(1,2) by (simp_all add: valid_id_def)
  then have "i = j" "hex_encode bs = hex_encode cs" using assms(5) by (simp_all add: mint_name_def)
  with hex_encode_inj [OF assms(3,4)] show ?thesis by simp
qed

end
