(* ===== verification/Daemon.thy ===== *)
theory Daemon
  imports Scheduler_Properties Pool_Services Payload Metrics Config_Properties Process History_File
begin

text \<open>
  The wiring of the daemon (\<open>app/app.go\<close>): \<open>newDaemonContext\<close> checks the runner's account, resolves and installs
  the payload, opens the history and builds one pool per configured pool with its scale-set adapter, its backend
  and its slot table; \<open>run\<close> boots the pools one after another: every scale set first, then the adoption
  of what still runs.
\<close>

section \<open>Building a pool\<close>

definition fmt_d :: "int \<Rightarrow> string" where
  "fmt_d n = (if n < 0 then CHR ''-'' # digits_of (nat (- n)) else digits_of (nat n))"

datatype pool_backend = SystemdBackend backend | ProcessBackend pbackend

text \<open>\<open>backendFor\<close>; \<open>env_file\<close> is the content of the runner's environment file.\<close>

definition backend_for :: "config \<Rightarrow> string option \<Rightarrow> string \<Rightarrow> pool_backend" where
  "backend_for c env_file pool_id =
     (if cf_backend c = ''systemd'' then
        SystemdBackend (new_backend
          \<lparr>so_run_bin = [], so_ctl_bin = [], so_stop_timeout = cf_stop_timeout c, so_namespace = pool_id,
           so_cache_subdirs = cf_caches c, so_extra_families = cf_families c, so_job_home = cf_job_home c\<rparr>)
      else ProcessBackend (new_process (cf_env_file c) env_file None))"

text \<open>The options of a pool's table. The options that supply answers (start permission, gate, reservation,
  materializer, usage sampler) are fields of the environments of the table's operations.\<close>

definition table_options_for :: "config \<Rightarrow> string \<Rightarrow> table_option list" where
  "table_options_for c pool_id =
     [WithNamespace pool_id, WithAcquireGrace (cf_acquire_grace c), WithIdleGrace (cf_idle_grace c),
      WithStopTimeout (cf_stop_timeout c), WithCleanupTimeout (cf_cleanup_timeout c),
      WithStartTimeout (cf_start_timeout c), WithWorkDir (cf_work_dir c), WithStartObserver True,
      WithLimits (fmt_d (cf_cpu_quota c) @ ''%'') (cf_memory_max c), WithDiagContext True,
      WithRunUser (cf_user c) (cf_group c), WithEnvFile (cf_env_file c), WithEventHook True,
      WithSampleInterval (cf_sample_interval c), WithCompletionHook True]"

definition build_table :: "config \<Rightarrow> string \<Rightarrow> time \<Rightarrow> string list \<Rightarrow> table" where
  "build_table c pool_id now dirs =
     new_table (pool_slots_dir c pool_id) (pool_jit_dir c pool_id) (map Some (table_options_for c pool_id)) now dirs"

definition build_pool :: "config \<Rightarrow> pool_config \<Rightarrow> time \<Rightarrow> string list \<Rightarrow> pool" where
  "build_pool c pc now dirs =
     (new_pool_runtime (cp_id pc) (cp_min pc) (cp_max pc) (build_table c (cp_id pc) now dirs))
       \<lparr>pl_desired := cp_min pc, pl_built := True\<rparr>"

section \<open>The daemon\<close>

datatype boot_error =
  BootIdentity | BootRootUser | BootUnprivileged | BootSystemd | BootResolve | BootPayload | BootHostname
| BootKey string | BootClient string | BootScaleSet string | BootActive string | BootAdopt string

text \<open>What the host and the network answer while the daemon is built.\<close>

record boot_env =
  bo_users :: user_db
  bo_systemctl :: "string option"
  bo_release :: "(nat \<times> release option) option"
  bo_hash :: "string \<Rightarrow> string"
  bo_untar :: "string \<Rightarrow> tar_entry list \<times> bool"
  bo_payload :: ensure_params
  bo_history :: "store option"
  bo_hostname :: "string option"
  bo_version :: string
  bo_read_key :: "string \<Rightarrow> string option"
  bo_client_err :: "string \<Rightarrow> bool"
  bo_env_file :: "string option"
  bo_now :: time
  bo_dirs :: "string \<Rightarrow> string list"

record host =
  ho_daemon :: daemon
  ho_adapters :: "adapter list"
  ho_backends :: "pool_backend list"
  ho_keys :: "(string \<times> string) list"
  ho_metrics :: registry
  ho_history :: "store option"
  ho_nudged :: bool

text \<open>The checks of the account the jobs run as.\<close>

definition check_identity :: "config \<Rightarrow> boot_env \<Rightarrow> boot_error option" where
  "check_identity c bo =
     (case resolve_identity (bo_users bo) (cf_user c) (cf_group c) of
        None \<Rightarrow> Some BootIdentity
      | Some idn \<Rightarrow>
          if cf_backend c = ''systemd'' then
            (if id_uid idn = 0 then Some BootRootUser
             else if ub_euid (bo_users bo) \<noteq> 0 then Some BootUnprivileged
             else if check_support (bo_systemctl bo) then Some BootSystemd
             else None)
          else None)"

text \<open>The runner version and checksum: configured, or those of the latest release.\<close>

definition runner_release :: "config \<Rightarrow> boot_env \<Rightarrow> (string \<times> string) option" where
  "runner_release c bo =
     (if cf_version c = [] then resolve_latest (en_unverified (bo_payload bo)) (bo_release bo)
      else Some (cf_version c, cf_sha256 c))"

text \<open>The loop over the configured pools.\<close>

fun build_pools :: "config \<Rightarrow> boot_env \<Rightarrow> string \<Rightarrow> pool_config list \<Rightarrow> host \<Rightarrow> boot_error + host" where
  "build_pools c bo hostname [] h = Inr h"
| "build_pools c bo hostname (pc # pcs) h =
     (case private_key (bo_read_key bo) (cp_key_path pc) (ho_keys h) of
        (None, keys) \<Rightarrow> Inl (BootKey (cp_id pc))
      | (Some key, keys) \<Rightarrow>
          if bo_client_err bo (cp_id pc) then Inl (BootClient (cp_id pc))
          else
            let ad = new_adapter (scale_set_for hostname (bo_version bo) (cf_disable_update c) key pc);
                be = backend_for c (bo_env_file bo) (cp_id pc);
                pool = build_pool c pc (bo_now bo) (bo_dirs bo (cp_id pc)) in
            build_pools c bo hostname pcs
              (h\<lparr>ho_keys := keys, ho_metrics := register_pool (cp_id pc) (ho_metrics h),
                 ho_adapters := ho_adapters h @ [ad], ho_backends := ho_backends h @ [be],
                 ho_daemon := (ho_daemon h)\<lparr>dm_pools := dm_pools (ho_daemon h) @ [pool]\<rparr>\<rparr>))"

definition new_host :: "config \<Rightarrow> store option \<Rightarrow> host" where
  "new_host c hist =
     \<lparr>ho_daemon = \<lparr>dm_pools = [], dm_cursor = 0, dm_max_runners = cf_max_runners c\<rparr>, ho_adapters = [], ho_backends = [],
      ho_keys = [], ho_metrics = set_host_max_runners (cf_max_runners c) new_registry, ho_history = hist, ho_nudged = False\<rparr>"

definition new_daemon :: "config \<Rightarrow> boot_env \<Rightarrow> manager \<Rightarrow> (boot_error + host) \<times> manager" where
  "new_daemon c bo m =
     (case check_identity c bo of
        Some err \<Rightarrow> (Inl err, m)
      | None \<Rightarrow>
          (case runner_release c bo of
             None \<Rightarrow> (Inl BootResolve, m)
           | Some (v, sha) \<Rightarrow>
               let url = (if cf_download_url c = [] then download_url v else cf_download_url c) in
               (case ensure_payload (bo_hash bo) (bo_untar bo) (bo_payload bo) v sha url m of
                  (False, m1) \<Rightarrow> (Inl BootPayload, m1)
                | (True, m1) \<Rightarrow>
                    (case bo_hostname bo of
                       None \<Rightarrow> (Inl BootHostname, m1)
                     | Some hostname \<Rightarrow>
                         (build_pools c bo hostname (cf_pools c) (new_host c (bo_history bo)), m1)))))"

section \<open>Boot\<close>

text \<open>The scale sets, in the order of the pools.\<close>

fun ensure_scale_sets :: "'u client \<Rightarrow> (adapter \<times> string) list \<Rightarrow> 'u \<Rightarrow> (string option \<times> adapter list) \<times> 'u" where
  "ensure_scale_sets uc [] u = ((None, []), u)"
| "ensure_scale_sets uc ((ad, pool_id) # ads) u =
     (case ensure_scale_set uc u ad of
        (False, u1, ad1) \<Rightarrow> ((Some pool_id, ad1 # map fst ads), u1)
      | (True, u1, ad1) \<Rightarrow>
          (case ensure_scale_sets uc ads u1 of ((err, rest), u2) \<Rightarrow> ((err, ad1 # rest), u2)))"

text \<open>Adoption, pool by pool: the active units of the pool's backend (\<open>None\<close>: the listing fails), and what \<open>Adopt\<close>
  meets.\<close>

record adopt_run =
  ar_units :: "string list option"
  ar_adopt :: adopt_env
  ar_checks :: nat

fun adopt_pools :: "(string \<Rightarrow> adopt_run) \<Rightarrow> pool list \<Rightarrow> boot_error option \<times> pool list" where
  "adopt_pools runs [] = (None, [])"
| "adopt_pools runs (p # ps) =
     (let ar = runs (pl_id p) in
      case ar_units ar of
        None \<Rightarrow> (Some (BootActive (pl_id p)), p # ps)
      | Some units \<Rightarrow>
          (case adopt (ar_adopt ar) units (ar_checks ar) (pl_table p) of
             (Some e, t) \<Rightarrow> (Some (BootAdopt (pl_id p)), p\<lparr>pl_table := t\<rparr> # ps)
           | (None, t) \<Rightarrow> (case adopt_pools runs ps of (err, rest) \<Rightarrow> (err, p\<lparr>pl_table := t\<rparr> # rest))))"

definition boot_pools :: "'u client \<Rightarrow> (string \<Rightarrow> adopt_run) \<Rightarrow> host \<Rightarrow> 'u \<Rightarrow> (boot_error option \<times> host) \<times> 'u" where
  "boot_pools uc runs h u =
     (case ensure_scale_sets uc (zip (ho_adapters h) (map pl_id (dm_pools (ho_daemon h)))) u of
        ((Some pool_id, ads), u1) \<Rightarrow> ((Some (BootScaleSet pool_id), h\<lparr>ho_adapters := ads\<rparr>), u1)
      | ((None, ads), u1) \<Rightarrow>
          (case adopt_pools runs (dm_pools (ho_daemon h)) of
             (err, ps) \<Rightarrow>
               ((err, h\<lparr>ho_adapters := ads, ho_daemon := (ho_daemon h)\<lparr>dm_pools := ps\<rparr>\<rparr>), u1)))"

end
