(* ===== verification/Daemon_Loop.thy ===== *)
theory Daemon_Loop
  imports Daemon
begin

text \<open>
  The running daemon (\<open>app/app.go\<close>: \<open>run\<close>, \<open>runPoolListener\<close>, \<open>notifyReady\<close>, \<open>syncMetrics\<close>, \<open>requestReconcile\<close>):
  its event loop as a step relation in which the listeners, the slot tables and the metrics ticker interleave with
  the scheduler in any order.
\<close>

section \<open>Requests and metrics\<close>

text \<open>\<open>requestReconcile\<close>: the channel holds one request; another one is dropped while it is there.\<close>

definition request_reconcile :: "host \<Rightarrow> host" where
  "request_reconcile h = h\<lparr>ho_nudged := True\<rparr>"

definition on_metrics :: "(registry \<Rightarrow> registry) \<Rightarrow> host \<Rightarrow> host" where
  "on_metrics f h = h\<lparr>ho_metrics := f (ho_metrics h)\<rparr>"

text \<open>The calls the pool's callbacks make on the daemon.\<close>

fun host_do :: "host_call \<Rightarrow> host \<Rightarrow> host" where
  "host_do RequestReconcile = request_reconcile"
| "host_do (IncJobsStarted p) = on_metrics (inc_jobs_started p)"
| "host_do (IncAcquireFailures p) = on_metrics (inc_acquire_failures p)"
| "host_do (IncAdmissionHolds p) = on_metrics (inc_admission_holds p)"
| "host_do (SetLastMessageID p n) = on_metrics (set_last_message_id p n)"
| "host_do (ObserveJobCPU p x) = on_metrics (observe_job_cpu p x)"
| "host_do (SetJobPeakMem p n) = on_metrics (set_job_peak_mem p n)"
| "host_do (ObserveJobWall p x) = on_metrics (observe_job_wall p x)"
| "host_do (IncJobsCompleted p res) = on_metrics (inc_jobs_completed p res)"

definition host_do_all :: "host_call list \<Rightarrow> host \<Rightarrow> host" where
  "host_do_all calls h = fold host_do calls h"

definition set_pool :: "nat \<Rightarrow> pool \<Rightarrow> host \<Rightarrow> host" where
  "set_pool k p h = h\<lparr>ho_daemon := (ho_daemon h)\<lparr>dm_pools := (dm_pools (ho_daemon h))[k := p]\<rparr>\<rparr>"

abbreviation pool_at :: "host \<Rightarrow> nat \<Rightarrow> pool" where
  "pool_at h k \<equiv> dm_pools (ho_daemon h) ! k"

text \<open>\<open>onCompletion\<close> with the history it appends to; a failed append leaves the history as it was.\<close>

definition complete_job :: "bool \<Rightarrow> time \<Rightarrow> nat \<Rightarrow> completion \<Rightarrow> host \<Rightarrow> host" where
  "complete_job append_err now k c h =
     (let (rec, calls) = on_completion (ho_history h \<noteq> None) now c (pool_at h k) in
      host_do_all calls
        (case (ho_history h, rec) of
           (Some s, Some r) \<Rightarrow> if append_err then h else h\<lparr>ho_history := Some (absorb r s)\<rparr>
         | _ \<Rightarrow> h))"

text \<open>\<open>syncMetrics\<close>.\<close>

definition all_states :: "slot_state list" where
  "all_states = [StateEmpty, StateStarting, StateIdle, StateBusy, StateStopping, StateFailed]"

definition state_count :: "slot_state \<Rightarrow> slot list \<Rightarrow> nat" where
  "state_count st ss = length (filter (\<lambda>s. s_state s = st) ss)"

definition sync_pool :: "pool \<Rightarrow> registry \<Rightarrow> registry" where
  "sync_pool p r =
     fold (\<lambda>st. set_actual (pl_id p) (state_name st) (int (state_count st (snapshot (pl_table p))))) all_states
       (set_desired_metric (pl_id p) (t_desired (pl_table p)) r)"

definition sync_metrics :: "host \<Rightarrow> host" where
  "sync_metrics h = on_metrics (fold sync_pool (dm_pools (ho_daemon h))) h"

section \<open>Listeners\<close>

text \<open>\<open>runPoolListener\<close>: the waits between the runs, the events of all runs and the number of failed ones. Each run
  comes with whether the context has ended after it, and after the wait that follows.\<close>

definition listener_backoff :: "duration list" where
  "listener_backoff = [second, 2 * second, 5 * second, 15 * second, 30 * second]"

definition listener_wait :: "nat \<Rightarrow> duration" where
  "listener_wait attempt = listener_backoff ! min attempt (length listener_backoff - 1)"

fun listener_loop ::
  "adapter \<Rightarrow> nat \<Rightarrow> (run_env \<times> bool \<times> bool) list \<Rightarrow> duration list \<times> event_call list \<times> nat" where
  "listener_loop ad attempt [] = ([], [], 0)"
| "listener_loop ad attempt ((rn, ctx_run, ctx_wait) # runs) =
     (case run_listener pool_events rn ad of (err, calls, shut) \<Rightarrow>
        if ctx_run then ([], calls, 0)
        else
          let failed = (if err = None then 0 else 1); wait = listener_wait attempt in
          if ctx_wait then ([wait], calls, failed)
          else case listener_loop ad (attempt + 1) runs of
            (waits, later, fails) \<Rightarrow> (wait # waits, calls @ later, failed + fails))"

text \<open>\<open>notifyReady\<close>: readiness is reported once every pool has had a session.\<close>

definition ready :: "host \<Rightarrow> bool" where
  "ready h \<longleftrightarrow> list_all pl_session_up (dm_pools (ho_daemon h))"

section \<open>The event loop\<close>

datatype wake = WakeRequest | WakeTick | WakeRetry

record loop =
  lp_host :: host
  lp_retry :: "duration option"
  lp_done :: bool

text \<open>\<open>resetRetry\<close>.\<close>

definition reset_retry :: "duration \<Rightarrow> duration option" where
  "reset_retry delay = (if delay \<le> 0 then None else Some delay)"

definition wake_enabled :: "wake \<Rightarrow> loop \<Rightarrow> bool" where
  "wake_enabled w l \<longleftrightarrow>
     \<not> lp_done l \<and> (case w of WakeRequest \<Rightarrow> ho_nudged (lp_host l) | WakeTick \<Rightarrow> True | WakeRetry \<Rightarrow> lp_retry l \<noteq> None)"

text \<open>One round of the loop: what the scheduler's visits meet, the calls the other goroutines make on the daemon
  meanwhile, and the times at which the retry waits are read.\<close>

record loop_round =
  ro_maintain :: "nat \<Rightarrow> visit"
  ro_grow :: "visit list"
  ro_calls :: "host_call list"
  ro_times :: "time list"

text \<open>\<open>onDesired\<close> stores a count and then asks for a round. A pause that stores a count for a pool, in the background or
  during a round, therefore comes with a request. The calls of a round are folded after it, which for the request
  channel makes no difference: only the loop takes from it, before a round.\<close>

definition pushes :: "nat \<Rightarrow> pause \<Rightarrow> bool" where
  "pushes n pz \<longleftrightarrow> list_ex (\<lambda>k. pa_desired pz k \<noteq> None) [0..<n]"

definition visit_pushes :: "nat \<Rightarrow> visit \<Rightarrow> bool" where
  "visit_pushes n v \<longleftrightarrow> pushes n (vi_before v) \<or> pushes n (vi_after v)"

definition background_work :: "pause \<Rightarrow> host \<Rightarrow> host" where
  "background_work pz h =
     (let h1 = h\<lparr>ho_daemon := pause_all pz (ho_daemon h)\<rparr>
      in if pushes (length (dm_pools (ho_daemon h))) pz then request_reconcile h1 else h1)"

definition requests_sent :: "nat \<Rightarrow> loop_round \<Rightarrow> bool" where
  "requests_sent n ro \<longleftrightarrow>
     list_ex (\<lambda>k. visit_pushes n (ro_maintain ro k)) [0..<n] \<or> list_ex (visit_pushes n) (ro_grow ro) \<longrightarrow>
     RequestReconcile \<in> set (ro_calls ro)"

definition wake_up :: "wake \<Rightarrow> loop_round \<Rightarrow> loop \<Rightarrow> loop" where
  "wake_up w ro l =
     (let h = lp_host l;
          h1 = (if w = WakeRequest then h\<lparr>ho_nudged := False\<rparr> else h);
          d = snd (reconcile_pools (ro_maintain ro) (ro_grow ro) (ho_daemon h1));
          h2 = host_do_all (ro_calls ro) (h1\<lparr>ho_daemon := d\<rparr>)
      in l\<lparr>lp_host := h2, lp_retry := reset_retry (next_retry_wait (zip (dm_pools d) (ro_times ro)))\<rparr>)"

text \<open>The end of the loop once the context has ended.\<close>

definition stop_loop_at :: "(nat \<Rightarrow> ensure_env) \<Rightarrow> loop \<Rightarrow> loop" where
  "stop_loop_at ees l =
     (let h = lp_host l in l\<lparr>lp_host := h\<lparr>ho_daemon := shutdown_slots ees (ho_daemon h)\<rparr>, lp_done := True\<rparr>)"

definition at_host :: "(host \<Rightarrow> host) \<Rightarrow> loop \<Rightarrow> loop" where
  "at_host f l = l\<lparr>lp_host := f (lp_host l)\<rparr>"

text \<open>The steps of the daemon: the other goroutines work on the slot tables; a listener delivers an event; a table
  reports an event or a completed job; a listener run fails; the metrics are synchronised; the loop wakes, or
  ends.\<close>

inductive host_step :: "loop \<Rightarrow> loop \<Rightarrow> bool" where
  background: "host_step l (at_host (background_work pz) l)"
| delivered:
    "k < length (dm_pools (ho_daemon (lp_host l))) \<Longrightarrow> deliver now c (pool_at (lp_host l) k) = (p, calls) \<Longrightarrow>
     host_step l (at_host (\<lambda>h. host_do_all calls (set_pool k p h)) l)"
| slot_event:
    "k < length (dm_pools (ho_daemon (lp_host l))) \<Longrightarrow> on_slot_event now now2 ev (pool_at (lp_host l) k) = (p, calls) \<Longrightarrow>
     host_step l (at_host (\<lambda>h. host_do_all calls (set_pool k p h)) l)"
| completed:
    "k < length (dm_pools (ho_daemon (lp_host l))) \<Longrightarrow> host_step l (at_host (complete_job append_err now k c) l)"
| listener_failed: "host_step l (at_host (on_metrics (inc_listener_errors pool_id)) l)"
| synced: "host_step l (at_host sync_metrics l)"
| woken:
    "wake_enabled w l \<Longrightarrow> requests_sent (length (dm_pools (ho_daemon (lp_host l)))) ro \<Longrightarrow> host_step l (wake_up w ro l)"
| stopped: "\<not> lp_done l \<Longrightarrow> host_step l (stop_loop_at ees l)"

inductive_cases host_stepE: "host_step l l'"

text \<open>The loop as \<open>run\<close> enters it: with one request of its own.\<close>

definition start_loop :: "host \<Rightarrow> loop" where
  "start_loop h = \<lparr>lp_host = request_reconcile h, lp_retry = None, lp_done = False\<rparr>"

section \<open>Frames\<close>

lemma host_do_frame [simp]:
  "ho_daemon (host_do call h) = ho_daemon h" "ho_adapters (host_do call h) = ho_adapters h"
  "ho_history (host_do call h) = ho_history h" "ho_nudged h \<Longrightarrow> ho_nudged (host_do call h)"
  by (cases call; simp add: request_reconcile_def on_metrics_def)+

lemma host_do_all_frame [simp]:
  "ho_daemon (host_do_all calls h) = ho_daemon h" "ho_history (host_do_all calls h) = ho_history h"
  "ho_nudged h \<Longrightarrow> ho_nudged (host_do_all calls h)"
  unfolding host_do_all_def by (induction calls arbitrary: h) simp_all

lemma complete_job_frame [simp]: "ho_daemon (complete_job append_err now k c h) = ho_daemon h"
  by (auto simp: complete_job_def split: prod.split option.split)

lemma background_work_frame [simp]: "ho_daemon (background_work pz h) = pause_all pz (ho_daemon h)"
  by (simp add: background_work_def request_reconcile_def Let_def)

lemma host_do_all_request: "RequestReconcile \<in> set calls \<Longrightarrow> ho_nudged (host_do_all calls h)"
proof (induction calls arbitrary: h)
  case (Cons c calls)
  then show ?case using host_do_all_frame(3) [of "host_do c h" calls]
    by (cases "c = RequestReconcile") (auto simp: host_do_all_def request_reconcile_def)
qed simp

lemma wake_up_daemon [simp]:
  "ho_daemon (lp_host (wake_up w ro l)) = snd (reconcile_pools (ro_maintain ro) (ro_grow ro) (ho_daemon (lp_host l)))"
  by (simp add: wake_up_def Let_def)

lemma sync_metrics_frame [simp]: "ho_daemon (sync_metrics h) = ho_daemon h"
  by (simp add: sync_metrics_def on_metrics_def)

section \<open>The ceiling of the host\<close>

text \<open>A step of the daemon keeps every table well formed and gains no live slot, or at most up to the ceiling.\<close>

definition capped :: "daemon \<Rightarrow> daemon \<Rightarrow> bool" where
  "capped d d' \<longleftrightarrow>
     daemon_inv d' \<and> int (host_live d') \<le> max (int (host_live d)) (dm_max_runners d) \<and> dm_max_runners d' = dm_max_runners d"

lemma capped_refl: "daemon_inv d \<Longrightarrow> capped d d"
  by (simp add: capped_def)

lemma capped_trans: "capped d d' \<Longrightarrow> capped d' d'' \<Longrightarrow> capped d d''"
  by (auto simp: capped_def)

lemma capped_pause: "daemon_inv d \<Longrightarrow> capped d (pause_all pz d)"
  using pause_lowers(1) [of d pz] by (simp add: capped_def daemon_inv_pause le_max_iff_disj)

lemma capped_reconcile:
  assumes "daemon_inv d"
  shows "capped d (snd (reconcile_pools ms vs d))"
  using reconcile_pools_bound [OF assms, of ms vs] by (simp add: capped_def)

lemma capped_set_pool:
  assumes "daemon_inv (ho_daemon h)" "k < length (dm_pools (ho_daemon h))" "good_step (pl_table (pool_at h k)) (pl_table p)"
  shows "capped (ho_daemon h) (ho_daemon (set_pool k p h))"
proof -
  let ?d = "ho_daemon h"
  have e: "count_live (pl_table p) \<le> count_live (table_at ?d k)" "table_inv (pl_table p)"
    using assms(3) by (simp_all add: good_step_def)
  have "daemon_inv (ho_daemon (set_pool k p h))"
    using assms(1) e(2) by (auto simp: daemon_inv_def set_pool_def dest!: set_update_subset_insert [THEN subsetD])
  moreover have "host_live (ho_daemon (set_pool k p h)) \<le> host_live ?d"
  proof -
    have "host_live (ho_daemon (set_pool k p h)) = others_live k ?d + count_live (pl_table p)"
      using host_live_set_table [OF assms(2), of "pl_table p"] assms(2)
      by (simp add: set_pool_def set_table_def host_live_def map_update)
    with host_live_split [OF assms(2)] e(1) show ?thesis by simp
  qed
  ultimately show ?thesis by (simp add: capped_def set_pool_def)
qed

lemma good_step_deliver: "table_inv (pl_table p) \<Longrightarrow> good_step (pl_table p) (pl_table (fst (deliver now c p)))"
proof -
  assume i: "table_inv (pl_table p)"
  have q: "pl_table (note_queued now refs p) = pl_table p" for refs
  proof -
    have "pl_table (foldl (\<lambda>p ref. note_ref now ref p) q refs) = pl_table q" for q
      by (induction refs arbitrary: q) (auto simp: note_ref_def)
    then show ?thesis by (simp add: note_queued_def expire_queued_def Let_def)
  qed
  have cons: "pl_table (consume_queued_ref ref q) = pl_table q" for ref q by (simp add: consume_queued_ref_def)
  show ?thesis
  proof (cases c)
    case (CallJobStart jb)
    have "good_step (pl_table p) (snd (claim cj (pl_table p)))" for cj using i by (rule good_step_claim)
    then show ?thesis using i
      by (simp add: CallJobStart on_job_start_def Let_def cons split: prod.split) (metis snd_conv)
  next
    case (CallJobEnd jb)
    with i show ?thesis by (simp add: on_job_end_def good_step_mark_result)
  qed (use i q in \<open>simp_all add: on_session_started_def on_desired_def\<close>)
qed

lemma slot_event_table: "pl_table (fst (on_slot_event now now2 ev p)) = pl_table p"
  by (simp add: on_slot_event_def record_acquire_failure_def Let_def split: event.split)

lemma capped_shutdown:
  assumes "daemon_inv d"
  shows "capped d (shutdown_slots ees d)"
proof -
  let ?d = "shutdown_slots ees d"
  have tab: "table_at ?d k = snd (shutdown (ees k) (table_at d k))" if "k < length (dm_pools d)" for k
    using that by (simp add: shutdown_slots_def nth_enumerate_eq)
  have st: "table_inv (table_at ?d k) \<and> count_live (table_at ?d k) \<le> count_live (table_at d k)"
    if "k < length (dm_pools d)" for k
    using shutdown_step [OF daemon_invD [OF assms that], of "ees k"] tab [OF that] by (simp add: good_step_def)
  have len: "length (dm_pools ?d) = length (dm_pools d)" by (simp add: shutdown_slots_def)
  have "daemon_inv ?d" using st len by (auto simp: daemon_inv_def in_set_conv_nth)
  moreover have "host_live ?d \<le> host_live d" unfolding host_live_nth len using st by (auto intro: sum_mono)
  ultimately show ?thesis by (simp add: capped_def shutdown_slots_def)
qed

lemma capped_step:
  assumes "host_step l l'" "daemon_inv (ho_daemon (lp_host l))"
  shows "capped (ho_daemon (lp_host l)) (ho_daemon (lp_host l'))"
  using assms
proof cases
  case (background pz)
  with assms(2) show ?thesis by (simp add: at_host_def capped_pause)
next
  case (delivered k now c p calls)
  then have p: "p = fst (deliver now c (pool_at (lp_host l) k))" by simp
  have "good_step (pl_table (pool_at (lp_host l) k)) (pl_table p)"
    unfolding p by (rule good_step_deliver) (rule daemon_invD [OF assms(2) delivered(2)])
  with delivered assms(2) show ?thesis by (simp add: at_host_def capped_set_pool)
next
  case (slot_event k now now2 ev p calls)
  then have p: "p = fst (on_slot_event now now2 ev (pool_at (lp_host l) k))" by simp
  have "good_step (pl_table (pool_at (lp_host l) k)) (pl_table p)"
    unfolding p slot_event_table by (rule good_step_refl) (rule daemon_invD [OF assms(2) slot_event(2)])
  with slot_event assms(2) show ?thesis by (simp add: at_host_def capped_set_pool)
next
  case (woken w ro)
  with capped_reconcile [OF assms(2)] show ?thesis by simp
next
  case (stopped ees)
  with assms(2) show ?thesis by (simp add: stop_loop_at_def Let_def capped_shutdown)
qed (use assms(2) in \<open>simp_all add: at_host_def capped_refl on_metrics_def\<close>)

lemma capped_steps:
  assumes "host_step\<^sup>*\<^sup>* l l'" "daemon_inv (ho_daemon (lp_host l))"
  shows "capped (ho_daemon (lp_host l)) (ho_daemon (lp_host l'))"
  using assms(1)
proof (induction rule: rtranclp_induct)
  case base
  show ?case using assms(2) by (rule capped_refl)
next
  case (step l1 l2)
  then have "daemon_inv (ho_daemon (lp_host l1))" by (simp add: capped_def)
  with step show ?case by (blast intro: capped_trans capped_step)
qed

section \<open>From boot on\<close>

lemma adopt_pools_inv:
  "\<forall>p \<in> set ps. table_inv (pl_table p) \<Longrightarrow> \<forall>p \<in> set (snd (adopt_pools runs ps)). table_inv (pl_table p)"
proof (induction ps)
  case (Cons p ps)
  have "table_inv (snd (adopt ae units n (pl_table p)))" for ae units n
    using Cons.prems grow_step_invD [OF grow_step_adopt] by simp
  with Cons show ?case by (auto simp: Let_def split: option.split prod.splits) (metis snd_conv)+
qed simp

lemma boot_pools_inv:
  assumes "boot_pools uc runs h u = ((err, h'), u')" "daemon_inv (ho_daemon h)"
  shows "daemon_inv (ho_daemon h') \<and> dm_max_runners (ho_daemon h') = dm_max_runners (ho_daemon h)"
  using assms adopt_pools_inv [of "dm_pools (ho_daemon h)" runs]
  by (auto simp: boot_pools_def daemon_inv_def split: prod.splits option.splits)

end
