(* ===== verification/Daemon_Properties.thy ===== *)
theory Daemon_Properties
  imports Daemon_Loop
begin

text \<open>
  What the daemon as a whole guarantees: the pools it builds from a valid configuration share no unit name and no slot
  directory; from boot on it keeps the ceiling of the host; no request to reconcile is lost; the gauges it serves
  match the slot tables.
\<close>

section \<open>Directories of the pools\<close>

lemma clean_push_rooted: "\<forall>e \<in> set st. elem_ok e \<Longrightarrow> CHR ''/'' \<notin> set c \<Longrightarrow> \<forall>e \<in> set (clean_push True st c). elem_ok e"
  by (auto simp: elem_ok_def dest: in_set_butlastD)

lemma clean_rooted_ok: "\<forall>e \<in> set (clean_components True (split_byte (CHR ''/'') s)). elem_ok e"
proof -
  have "\<forall>e \<in> set (foldl (clean_push True) st cs). elem_ok e"
    if "\<forall>e \<in> set st. elem_ok e" "\<forall>c \<in> set cs. CHR ''/'' \<notin> set c" for st cs
    using that
  proof (induction cs arbitrary: st)
    case (Cons c cs)
    then show ?case using clean_push_rooted [of st c] by simp
  qed simp
  from this [of "[]" "split_byte (CHR ''/'') s"] show ?thesis
    by (auto simp: clean_components_def dest: split_byte_no_sep)
qed

definition elems_of :: "string \<Rightarrow> string list" where
  "elems_of s = clean_components True (split_byte (CHR ''/'') s)"

lemma join_path_abs:
  assumes "is_abs s" "es \<noteq> []" "\<forall>e \<in> set es. elem_ok e"
  shows "join_path (s # es) = abs_path (elems_of s @ es)"
proof -
  have "s \<noteq> []" using assms(1) by (auto simp: is_abs_def has_prefix_def)
  moreover have "\<forall>e \<in> set es. e \<noteq> []" using assms(3) by (auto simp: elem_ok_def)
  ultimately have ne: "filter (\<lambda>p. p \<noteq> []) (s # es) = s # es" by (intro filter_True) simp
  have j: "join (s # es) ''/'' = s @ ''/'' @ join es ''/''" using assms(2) by (cases es) simp_all
  have sp: "split_byte (CHR ''/'') (join es ''/'') = es"
    using assms by (intro split_byte_join) (auto simp: elem_ok_def)
  have "clean_components True (split_byte (CHR ''/'') (s @ ''/'' @ join es ''/'')) = elems_of s @ es"
    using split_byte_append_sep [of "CHR ''/''" s "join es ''/''"] clean_components_ok [OF assms(3), of True]
    by (simp add: sp clean_components_def elems_of_def)
  moreover have "is_abs (s @ ''/'' @ join es ''/'')" using assms(1) by (auto simp: is_abs_def has_prefix_iff)
  ultimately show ?thesis using ne j by (simp add: join_path_def clean_path_def abs_path_def)
qed

lemma elems_of_abs: "\<forall>e \<in> set es. elem_ok e \<Longrightarrow> elems_of (abs_path es) = es"
  using split_abs_path [of es True] by (simp add: elems_of_def clean_components_def)

lemma is_abs_abs_path: "is_abs (abs_path es)"
  by (simp add: abs_path_def is_abs_def has_prefix_def)

lemma elem_ok_valid_id: "valid_id i \<Longrightarrow> elem_ok i"
  using valid_id_chars [of i] by (auto simp: elem_ok_def)

lemma elem_ok_pool_id: "pool_id_ok s \<Longrightarrow> elem_ok s"
proof -
  assume ok: "pool_id_ok s"
  have h: "hd s \<noteq> CHR ''.''" using ok by (auto simp: pool_id_ok_def is_lower_def is_digit_def less_eq_char_def)
  have "CHR ''/'' \<notin> set s"
    using ok by (cases s) (auto simp: pool_id_ok_def is_lower_def is_digit_def less_eq_char_def list_all_iff)
  with h ok show ?thesis by (auto simp: elem_ok_def pool_id_ok_def)
qed

lemma slots_dir_elems:
  assumes "is_abs (cf_state_dir c)" "pool_id_ok i"
  shows "pool_slots_dir c i = abs_path (elems_of (cf_state_dir c) @ [''pools'', i, ''slots''])"
proof -
  have ok: "\<forall>e \<in> set (elems_of (cf_state_dir c) @ [''pools'', i]). elem_ok e"
    using clean_rooted_ok elem_ok_pool_id [OF assms(2)] by (auto simp: elems_of_def elem_ok_def)
  have "pool_state_dir c i = abs_path (elems_of (cf_state_dir c) @ [''pools'', i])"
    unfolding pool_state_dir_def using assms elem_ok_pool_id [OF assms(2)]
    by (intro join_path_abs) (auto simp: elem_ok_def)
  then show ?thesis unfolding pool_slots_dir_def
    using join_path_abs [OF is_abs_abs_path, of "[''slots'']" "elems_of (cf_state_dir c) @ [''pools'', i]"] elems_of_abs [OF ok]
    by (simp add: elem_ok_def)
qed

lemma build_table_sel [simp]:
  "t_root (build_table c i now dirs) = pool_slots_dir c i"
  "o_namespace (t_opts (build_table c i now dirs)) = i"
  by (simp_all add: build_table_def new_table_def apply_options_def table_options_for_def Let_def)

lemma slot_dir_elems:
  assumes "is_abs (cf_state_dir c)" "pool_id_ok i" "valid_id j"
  shows "slot_dir (build_table c i now dirs) j = abs_path (elems_of (cf_state_dir c) @ [''pools'', i, ''slots'', j])"
proof -
  have ok: "\<forall>e \<in> set (elems_of (cf_state_dir c) @ [''pools'', i, ''slots'']). elem_ok e"
    using clean_rooted_ok elem_ok_pool_id [OF assms(2)] by (auto simp: elems_of_def elem_ok_def)
  show ?thesis
    using join_path_abs [OF is_abs_abs_path, of "[j]" "elems_of (cf_state_dir c) @ [''pools'', i, ''slots'']"]
      elem_ok_valid_id [OF assms(3)] elems_of_abs [OF ok]
    by (simp add: slot_dir_def slots_dir_elems [OF assms(1,2)])
qed

section \<open>The pools that are built\<close>

lemma build_pools_shape:
  "build_pools c bo hostname pcs h = Inr h' \<Longrightarrow>
   dm_pools (ho_daemon h') = dm_pools (ho_daemon h) @ map (\<lambda>pc. build_pool c pc (bo_now bo) (bo_dirs bo (cp_id pc))) pcs \<and>
   dm_max_runners (ho_daemon h') = dm_max_runners (ho_daemon h) \<and>
   ho_backends h' = ho_backends h @ map (\<lambda>pc. backend_for c (bo_env_file bo) (cp_id pc)) pcs \<and>
   length (ho_adapters h') = length (ho_adapters h) + length pcs"
  by (induction pcs arbitrary: h) (auto simp: Let_def split: prod.splits option.splits if_splits)

lemma new_daemon_shape:
  assumes "new_daemon c bo m = (Inr h, m')"
  shows "dm_pools (ho_daemon h) = map (\<lambda>pc. build_pool c pc (bo_now bo) (bo_dirs bo (cp_id pc))) (cf_pools c) \<and>
    dm_max_runners (ho_daemon h) = cf_max_runners c \<and>
    ho_backends h = map (\<lambda>pc. backend_for c (bo_env_file bo) (cp_id pc)) (cf_pools c)"
proof -
  from assms obtain hostname where "build_pools c bo hostname (cf_pools c) (new_host c (bo_history bo)) = Inr h"
    by (auto simp: new_daemon_def Let_def split: option.splits prod.splits bool.splits)
  from build_pools_shape [OF this] show ?thesis by (simp add: new_host_def)
qed

lemma valid_pool_ids:
  assumes "validate cw c = []"
  shows "distinct (map cp_id (cf_pools c))" "\<forall>pc \<in> set (cf_pools c). pool_id_ok (cp_id pc)"
proof -
  have "validate_capacity cw c = []" using assms by (simp add: validate_def Let_def split: prod.splits)
  then have "validate_pools cw (cf_max_runners c) 0 (cf_pools c) [] [] = []" by (simp add: validate_capacity_def)
  from validate_pools_Nil [OF this]
  show "distinct (map cp_id (cf_pools c))" "\<forall>pc \<in> set (cf_pools c). pool_id_ok (cp_id pc)"
    by (auto simp: validate_pool_def)
qed

text \<open>C28: The pools of a daemon are isolated: when a daemon starts from a valid configuration with an absolute state
  directory, any two of its pools have different IDs; the unit of a slot of the one is never the unit of a slot of
  the other, nor recognised by the other's backend; and their slots have different directories.\<close>

theorem daemon_pools_isolated:
  assumes "validate cw c = []" "new_daemon c bo m = (Inr h, m')" "is_abs (cf_state_dir c)"
    and "k < length (dm_pools (ho_daemon h))" "l < length (dm_pools (ho_daemon h))" "k \<noteq> l"
    and "valid_id i" "valid_id j"
  shows "let t = table_at (ho_daemon h) k; u = table_at (ho_daemon h) l; ns = o_namespace (t_opts t); ms = o_namespace (t_opts u)
    in ns \<noteq> ms \<and> unit_name ns i \<noteq> unit_name ms j \<and> \<not> valid_unit ms (unit_name ns i) \<and> slot_dir t i \<noteq> slot_dir u j"
proof -
  let ?pcs = "cf_pools c"
  note shape = new_daemon_shape [OF assms(2)]
  have len: "k < length ?pcs" "l < length ?pcs" using assms(4,5) shape by simp_all
  let ?a = "cp_id (?pcs ! k)" and ?b = "cp_id (?pcs ! l)"
  have tab: "table_at (ho_daemon h) n = build_table c (cp_id (?pcs ! n)) (bo_now bo) (bo_dirs bo (cp_id (?pcs ! n)))"
    if "n < length ?pcs" for n
    using that shape by (simp add: build_pool_def new_pool_runtime_def)
  have ok: "pool_id_ok ?a" "pool_id_ok ?b" using valid_pool_ids(2) [OF assms(1)] len by simp_all
  have ne: "?a \<noteq> ?b" using valid_pool_ids(1) [OF assms(1)] len assms(6) by (simp add: distinct_conv_nth)
  have "namespace_from_unit (unit_name ?a i) = Some ?a" "namespace_from_unit (unit_name ?b j) = Some ?b"
    using ok assms(7,8) by (simp_all add: namespace_of_unit_name pool_id_namespace)
  then have units: "unit_name ?a i \<noteq> unit_name ?b j" "\<not> valid_unit ?b (unit_name ?a i)"
    using ne by (auto simp: valid_unit_def)
  have el: "elem_ok ?a" "elem_ok ?b" "elem_ok i" "elem_ok j"
    using ok assms(7,8) by (simp_all add: elem_ok_pool_id elem_ok_valid_id)
  have "slot_dir (table_at (ho_daemon h) k) i = abs_path (elems_of (cf_state_dir c) @ [''pools'', ?a, ''slots'', i])"
    "slot_dir (table_at (ho_daemon h) l) j = abs_path (elems_of (cf_state_dir c) @ [''pools'', ?b, ''slots'', j])"
    using len assms(3,7,8) ok by (simp_all only: tab slot_dir_elems)
  moreover have "abs_path (elems_of (cf_state_dir c) @ [''pools'', ?a, ''slots'', i]) \<noteq>
      abs_path (elems_of (cf_state_dir c) @ [''pools'', ?b, ''slots'', j])"
    using ne el clean_rooted_ok [of "cf_state_dir c"]
    by (subst abs_path_inj) (auto simp: elems_of_def elem_ok_def [of "''pools''"] elem_ok_def [of "''slots''"])
  ultimately show ?thesis using len ne units by (simp add: tab Let_def)
qed

text \<open>A configuration of two pools, and a host on which the daemon starts.\<close>

definition two_pools :: config where
  "two_pools = demo_config\<lparr>cf_pools := [demo_config_pool, demo_config_pool\<lparr>cp_id := ''org-b'', cp_owner := ''b''\<rparr>]\<rparr>"

definition demo_boot :: boot_env where
  "demo_boot = \<lparr>bo_users = demo_users\<lparr>ub_by_name := \<lambda>_. Some \<lparr>au_uid = ''1000'', au_gid = ''1000'', au_home = ''/h''\<rparr>\<rparr>,
     bo_systemctl = None,
     bo_release = Some (200, Some \<lparr>rl_tag = ''v'' @ ''2.0.0'', rl_assets = [(cache_file ''2.0.0'', ''sha256:'' @ demo_sha)]\<rparr>),
     bo_hash = demo_hash, bo_untar = (\<lambda>_. ([], True)), bo_payload = demo_params, bo_history = Some empty_store,
     bo_hostname = Some ''host'', bo_version = ''1'', bo_read_key = (\<lambda>_. Some ''key''), bo_client_err = (\<lambda>_. False),
     bo_env_file = None, bo_now = 1, bo_dirs = (\<lambda>_. [])\<rparr>"

lemma two_pools_valid: "validate demo_world two_pools = []"
proof -
  have "validate_runner demo_world two_pools = validate_runner demo_world demo_config"
    "validate_runtime demo_world two_pools = validate_runtime demo_world demo_config"
    "validate_scaling two_pools = validate_scaling demo_config"
    "validate_job_home demo_world two_pools x = validate_job_home demo_world demo_config x"
    "cf_caches two_pools = cf_caches demo_config" "cf_families two_pools = cf_families demo_config" for x
    by (simp_all add: two_pools_def validate_runner_def validate_runtime_def validate_scaling_def validate_job_home_def
        demo_config_def apply_defaults_def)
  moreover have "validate_capacity demo_world two_pools = []"
    by (simp add: validate_capacity_def demo_world_def two_pools_def demo_config_def apply_defaults_def demo_config_pool_def
        hard_cap_max_runners_def max_cpu_quota_percent_def fail_if_def validate_pool_def pool_target_def or_int_def or_str_def
        pool_id_namespace valid_namespace_def label_ok_def is_alnum_def is_lower_def is_digit_def less_eq_char_def)
  ultimately show ?thesis using demo_config_valid by (simp add: validate_def Let_def split: prod.splits)
qed

lemma demo_release: "runner_release two_pools demo_boot = Some (''2.0.0'', demo_sha)"
proof -
  have v: "version_shape ''2.0.0''" by (simp add: version_shape_def is_digit_def less_eq_char_def)
  have "check_sha256 [] demo_sha"
    by (simp add: check_sha256_def demo_sha_def list_all_iff hex_any_def hex_char_def less_eq_char_def)
  moreover have "has_prefix (''sha256:'' @ demo_sha) ''sha256:''" "trim_prefix (''sha256:'' @ demo_sha) ''sha256:'' = demo_sha"
    "trim_prefix (''v'' @ ''2.0.0'') ''v'' = ''2.0.0''"
    using has_prefix_append trim_prefix_append by blast+
  ultimately have "resolve_latest [] (bo_release demo_boot) = Some (''2.0.0'', demo_sha)"
    using v by (simp add: demo_boot_def resolve_latest_def Let_def del: append_Cons append_Nil)
  then show ?thesis
    by (simp add: runner_release_def two_pools_def demo_config_def apply_defaults_def demo_boot_def demo_params_def)
qed

lemma demo_started: "\<exists>h m'. new_daemon two_pools demo_boot demo_manager = (Inr h, m') \<and> length (dm_pools (ho_daemon h)) = 2"
proof -
  have "check_identity two_pools demo_boot = None"
    by (simp add: check_identity_def demo_boot_def two_pools_def demo_config_def apply_defaults_def demo_users_def or_str_def
        resolve_identity_def lookup_account_def lookup_gid_def parse_int64_def parse_uint64_def parse_uint32_def
        has_prefix_def is_digit_def less_eq_char_def decimal_value_def digit_val_def Let_def)
  moreover obtain m' where "ensure_payload demo_hash (\<lambda>_. ([], True)) demo_params ''2.0.0'' demo_sha (download_url ''2.0.0'') demo_manager = (True, m')"
    using demo_ensure [of "download_url ''2.0.0''"] by (metis prod.collapse)
  ultimately show ?thesis
    using demo_release
    by (simp add: new_daemon_def demo_boot_def two_pools_def demo_config_def apply_defaults_def private_key_def new_host_def)
qed

theorem daemon_pools_isolated_witness:
  "\<exists>h m'. new_daemon two_pools demo_boot demo_manager = (Inr h, m') \<and>
    slot_dir (table_at (ho_daemon h) 0) ''0001'' \<noteq> slot_dir (table_at (ho_daemon h) 1) ''0001''"
proof -
  obtain h m' where h: "new_daemon two_pools demo_boot demo_manager = (Inr h, m')" "length (dm_pools (ho_daemon h)) = 2"
    using demo_started by blast
  have "is_abs (cf_state_dir two_pools)"
    by (simp add: two_pools_def demo_config_def apply_defaults_def or_str_def is_abs_def has_prefix_def)
  from daemon_pools_isolated [OF two_pools_valid h(1) this, of 0 1 "''0001''" "''0001''"] h show ?thesis
    by (auto simp: Let_def)
qed

section \<open>The whole run\<close>

lemma new_daemon_inv: "new_daemon c bo m = (Inr h, m') \<Longrightarrow> daemon_inv (ho_daemon h)"
  using new_daemon_shape by (auto simp: daemon_inv_def build_pool_def new_pool_runtime_def build_table_def)

text \<open>The ceiling of the host holds for the life of the daemon: from boot on, however listener events, exits,
  failures, metrics ticks, retries and rounds of the scheduler interleave, up to and past the shutdown, every slot
  table is well formed and the host has at most as many live slots as it adopted at boot or as the configured
  maximum, whichever is more.\<close>

lemma daemon_run_ceiling:
  assumes "new_daemon c bo m = (Inr h, m')" "boot_pools uc runs h u = ((None, h1), u')" "host_step\<^sup>*\<^sup>* (start_loop h1) l"
  shows "daemon_inv (ho_daemon (lp_host l)) \<and>
    int (length (all_active (ho_daemon (lp_host l)))) \<le> max (int (length (all_active (ho_daemon h1)))) (cf_max_runners c)"
proof -
  have "daemon_inv (ho_daemon h1) \<and> dm_max_runners (ho_daemon h1) = cf_max_runners c"
    using boot_pools_inv [OF assms(2) new_daemon_inv [OF assms(1)]] new_daemon_shape [OF assms(1)] by simp
  with capped_steps [OF assms(3)] show ?thesis
    by (simp add: capped_def start_loop_def request_reconcile_def length_all_active)
qed

definition boot_client :: "unit client" where
  "boot_client = \<lparr>uc_group = (\<lambda>u g. Some 1), uc_get = (\<lambda>u g n. Some (Some 7)), uc_create = (\<lambda>u s. (None, u)),
     uc_jit = (\<lambda>u n w i. None)\<rparr>"

definition demo_adoption :: adopt_run where
  "demo_adoption = \<lparr>ar_units = Some [],
     ar_adopt = \<lparr>ae_entries = Some [], ae_runner_name = (\<lambda>_. []), ae_lstat = (\<lambda>_. LstatErr), ae_stop_err = (\<lambda>_. False),
       ae_during = (\<lambda>_. [])\<rparr>, ar_checks = 5\<rparr>"

definition demo_round :: loop_round where
  "demo_round = \<lparr>ro_maintain = (\<lambda>_. demo_visit), ro_grow = [demo_visit, demo_visit], ro_calls = [], ro_times = [1, 1]\<rparr>"

lemma demo_scale_sets: "\<exists>ads'. ensure_scale_sets boot_client ads u = ((None, ads'), u)"
  by (induction ads) (auto simp: ensure_scale_set_def resolve_group_def boot_client_def Let_def split: prod.split)

lemma demo_adopted_pools: "\<forall>p \<in> set ps. \<not> t_closed (pl_table p) \<Longrightarrow> adopt_pools (\<lambda>_. demo_adoption) ps = (None, ps)"
  by (induction ps) (simp_all add: demo_adoption_def adopt_def)

lemma demo_booted:
  "\<exists>h m' h1. new_daemon two_pools demo_boot demo_manager = (Inr h, m') \<and>
    boot_pools boot_client (\<lambda>_. demo_adoption) h () = ((None, h1), ()) \<and> ho_daemon h1 = ho_daemon h"
proof -
  obtain h m' where h: "new_daemon two_pools demo_boot demo_manager = (Inr h, m')" using demo_started by blast
  obtain ads where a: "ensure_scale_sets boot_client (zip (ho_adapters h) (map pl_id (dm_pools (ho_daemon h)))) () = ((None, ads), ())"
    using demo_scale_sets by blast
  have "\<forall>p \<in> set (dm_pools (ho_daemon h)). \<not> t_closed (pl_table p)"
    using new_daemon_shape [OF h] by (auto simp: build_pool_def new_pool_runtime_def build_table_def new_table_def)
  then have "boot_pools boot_client (\<lambda>_. demo_adoption) h () = ((None, h\<lparr>ho_adapters := ads\<rparr>), ())"
    using a by (simp add: boot_pools_def demo_adopted_pools)
  with h show ?thesis by (intro exI [of _ h] exI [of _ m'] exI [of _ "h\<lparr>ho_adapters := ads\<rparr>"]) simp
qed

lemma demo_woken: "host_step\<^sup>*\<^sup>* (start_loop h) (wake_up WakeRequest demo_round (start_loop h))"
  by (rule r_into_rtranclp, rule host_step.woken)
    (simp_all add: wake_enabled_def start_loop_def request_reconcile_def requests_sent_def visit_pushes_def pushes_def
      demo_round_def demo_visit_def no_pause_def list_ex_iff)


section \<open>Requests\<close>

text \<open>The desired counts the listeners pushed last.\<close>

definition pushed :: "daemon \<Rightarrow> int list" where
  "pushed d = map pl_desired (dm_pools d)"

lemma pushed_pause: "\<not> pushes (length (dm_pools d)) pz \<Longrightarrow> pushed (pause_all pz d) = pushed d"
proof -
  assume p: "\<not> pushes (length (dm_pools d)) pz"
  have f: "pl_desired (foldl (\<lambda>p (now, now2). record_acquire_failure now now2 p) q fs) = pl_desired q" for q fs
    by (induction fs arbitrary: q) (auto simp: record_acquire_failure_def Let_def)
  have "pl_desired (pause_pool pz k q) = pl_desired q" if "k < length (dm_pools d)" for k q
    using p that by (auto simp: pause_pool_def f pushes_def list_ex_iff Let_def)
  then show ?thesis
    by (auto simp: pushed_def pause_all_nth intro!: nth_equalityI)
qed

lemma map_update_same: "f y = f (xs ! k) \<Longrightarrow> map f (xs[k := y]) = map f xs"
  by (metis list_update_id map_update)

lemma pushed_set_table [simp]: "pushed (set_table k t d) = pushed d"
  by (simp add: pushed_def set_table_def map_update_same)

lemma pushed_cursor [simp]: "pushed (d\<lparr>dm_cursor := c\<rparr>) = pushed d"
  by (simp add: pushed_def)

lemma pushed_length: "pushed d = pushed d' \<Longrightarrow> length (dm_pools d) = length (dm_pools d')"
  unfolding pushed_def by (metis length_map)

lemma pushed_maintain_one:
  assumes "\<not> visit_pushes (length (dm_pools d)) v"
  shows "pushed (snd (maintain_one v k d)) = pushed d"
  using assms by (simp add: maintain_one_def Let_def visit_pushes_def pushed_pause split: prod.split)

lemma pushed_maintain:
  "\<forall>k \<in> set ks. \<not> visit_pushes (length (dm_pools d)) (vs k) \<Longrightarrow> pushed (snd (maintain vs ks d)) = pushed d"
proof (induction ks arbitrary: d)
  case (Cons k ks)
  obtain err d1 where m: "maintain_one (vs k) k d = (err, d1)" by fastforce
  then have e: "pushed d1 = pushed d" using pushed_maintain_one [of d "vs k" k] Cons.prems by simp
  with Cons.IH [of d1] Cons.prems have "pushed (snd (maintain vs ks d1)) = pushed d1"
    by (simp add: pushed_length [OF e])
  with m e show ?case by (cases err) simp_all
qed simp

lemma pushed_grow_one:
  assumes "\<not> visit_pushes (length (dm_pools d)) v" "grow_one v d = (err, gain, d')"
  shows "pushed d' = pushed d"
proof -
  have b: "pushed (pause_all (vi_before v) (d\<lparr>dm_cursor := c\<rparr>)) = pushed d" for c
    using assms(1) by (simp add: visit_pushes_def pushed_pause)
  have a: "pushed (pause_all (vi_after v) (set_table k t (pause_all (vi_before v) (d\<lparr>dm_cursor := c\<rparr>)))) = pushed d" for k t c
    using assms(1) b by (simp add: visit_pushes_def pushed_pause)
  from assms(2) show ?thesis by (elim grow_one_cases) (use a b in simp_all)
qed

lemma pushed_grow:
  "\<forall>v \<in> set vs. \<not> visit_pushes (length (dm_pools d)) v \<Longrightarrow> pushed (snd (grow vs host_total wp d)) = pushed d"
proof (induction vs arbitrary: host_total wp d)
  case Nil
  then show ?case by (simp add: grow.simps [of "[]"])
next
  case (Cons v vs)
  obtain err gain d1 where g: "grow_one v d = (err, gain, d1)" by (metis prod_cases3)
  have e: "pushed d1 = pushed d" using pushed_grow_one [OF _ g] Cons.prems by simp
  have "pushed (snd (grow vs n w d1)) = pushed d" for n w
    using Cons.IH [of d1 n w] Cons.prems e by (simp add: pushed_length [OF e])
  with e g show ?case by (cases err; cases gain) (simp_all add: grow.simps [of "v # vs"])
qed

lemma pushed_round:
  assumes "\<forall>k < length (dm_pools d). \<not> visit_pushes (length (dm_pools d)) (ms k)"
    and "\<forall>v \<in> set vs. \<not> visit_pushes (length (dm_pools d)) v"
  shows "pushed (snd (reconcile_pools ms vs d)) = pushed d"
proof -
  obtain err d1 where m: "maintain ms [0..<length (dm_pools d)] d = (err, d1)" by fastforce
  then have e: "pushed d1 = pushed d"
    using pushed_maintain [of "[0..<length (dm_pools d)]" d ms] assms(1) by simp
  have "pushed (snd (grow vs n 0 d1)) = pushed d" for n
    using pushed_grow [of vs d1 n 0] assms(2) e by (simp add: pushed_length [OF e])
  with m e show ?thesis by (cases err) (simp_all add: reconcile_pools_def Let_def)
qed

text \<open>A step that changes a desired count leaves a request, also when the count arrives during a round.\<close>

lemma pushed_wake:
  assumes "requests_sent (length (dm_pools (ho_daemon (lp_host l)))) ro"
    and "pushed (ho_daemon (lp_host (wake_up w ro l))) \<noteq> pushed (ho_daemon (lp_host l))"
  shows "ho_nudged (lp_host (wake_up w ro l))"
proof -
  have "RequestReconcile \<in> set (ro_calls ro)"
    using assms pushed_round [of "ho_daemon (lp_host l)" "ro_maintain ro" "ro_grow ro"]
    by (auto simp: requests_sent_def list_ex_iff)
  then show ?thesis by (simp add: wake_up_def Let_def host_do_all_request)
qed

lemma pushed_set_pool:
  "pl_desired p = pl_desired (pool_at h k) \<Longrightarrow> pushed (ho_daemon (set_pool k p h)) = pushed (ho_daemon h)"
  by (simp add: pushed_def set_pool_def map_update_same)

lemma deliver_pushes:
  "deliver now c p = (p', calls) \<Longrightarrow> pl_desired p' = pl_desired p \<or> RequestReconcile \<in> set calls"
proof -
  assume d: "deliver now c p = (p', calls)"
  show ?thesis
  proof (cases c)
    case (CallJobStart jb)
    have "pl_desired (fst (on_job_start jb p)) = pl_desired p"
      by (simp add: on_job_start_def consume_queued_ref_def Let_def split: prod.split)
    with d CallJobStart show ?thesis by simp
  qed (use d note_queued_frame in \<open>auto simp: on_session_started_def on_desired_def on_job_end_def\<close>)
qed

lemma pushed_step:
  assumes "host_step l l'" "pushed (ho_daemon (lp_host l')) \<noteq> pushed (ho_daemon (lp_host l))"
  shows "ho_nudged (lp_host l')"
  using assms
proof cases
  case (background pz)
  with assms(2) show ?thesis using pushed_pause [of "ho_daemon (lp_host l)" pz]
    by (auto simp: at_host_def background_work_def request_reconcile_def Let_def)
next
  case (delivered k now c p calls)
  with assms(2) have "RequestReconcile \<in> set calls"
    using deliver_pushes [OF delivered(3)] pushed_set_pool [of p "lp_host l" k] by (auto simp: at_host_def)
  with delivered show ?thesis by (simp add: at_host_def host_do_all_request)
next
  case (slot_event k now now2 ev p calls)
  then have "pl_desired p = pl_desired (pool_at (lp_host l) k)"
    by (auto simp: on_slot_event_def record_acquire_failure_def Let_def split: event.splits)
  with slot_event assms(2) show ?thesis using pushed_set_pool by (simp add: at_host_def)
next
  case (woken w ro)
  with assms(2) show ?thesis using pushed_wake by blast
next
  case (stopped ees)
  have "pushed (shutdown_slots ees d) = pushed d" for d
    by (auto simp: pushed_def shutdown_slots_def nth_enumerate_eq intro!: nth_equalityI)
  with stopped assms(2) show ?thesis by (simp add: stop_loop_at_def Let_def)
qed (use assms(2) in \<open>simp_all add: at_host_def on_metrics_def\<close>)

text \<open>A pending request stays until the loop wakes for it.\<close>

lemma request_stays:
  assumes "host_step l l'" "ho_nudged (lp_host l)"
  shows "ho_nudged (lp_host l') \<or> (\<exists>ro. l' = wake_up WakeRequest ro l)"
  using assms(1)
proof cases
  case (completed k append_err now c)
  then show ?thesis using assms(2)
    by (auto simp: at_host_def complete_job_def split: prod.split option.split)
next
  case (woken w ro)
  then show ?thesis using assms(2) by (cases "w = WakeRequest") (auto simp: wake_up_def Let_def)
qed (use assms(2) in \<open>simp_all add: at_host_def background_work_def request_reconcile_def set_pool_def on_metrics_def
  sync_metrics_def stop_loop_at_def Let_def\<close>)

definition served_since :: "loop \<Rightarrow> loop \<Rightarrow> bool" where
  "served_since l l' \<longleftrightarrow>
     (\<exists>l1 ro. host_step\<^sup>*\<^sup>* l l1 \<and> ho_nudged (lp_host l1) \<and> host_step l1 (wake_up WakeRequest ro l1) \<and>
        ho_daemon (lp_host (wake_up WakeRequest ro l1)) =
          snd (reconcile_pools (ro_maintain ro) (ro_grow ro) (ho_daemon (lp_host l1))) \<and>
        host_step\<^sup>*\<^sup>* (wake_up WakeRequest ro l1) l')"

lemma request_pending_or_served:
  assumes "host_step\<^sup>*\<^sup>* l l'" "ho_nudged (lp_host l)"
  shows "ho_nudged (lp_host l') \<or> served_since l l'"
  using assms(1)
proof (induction rule: rtranclp_induct)
  case base
  show ?case using assms(2) by simp
next
  case (step l1 l2)
  show ?case
  proof (cases "served_since l l1")
    case True
    with step.hyps(2) show ?thesis by (auto simp: served_since_def intro: rtranclp.rtrancl_into_rtrancl)
  next
    case False
    with step.IH have n: "ho_nudged (lp_host l1)" by simp
    from request_stays [OF step.hyps(2) n] show ?thesis
    proof
      assume "\<exists>ro. l2 = wake_up WakeRequest ro l1"
      then obtain ro where ro: "l2 = wake_up WakeRequest ro l1" ..
      have "served_since l l2" unfolding served_since_def
        by (rule exI [of _ l1], rule exI [of _ ro]) (use step.hyps n ro in simp)
      then show ?thesis ..
    qed simp
  qed
qed

text \<open>C29: No request to reconcile is lost. A step of the daemon that changes the desired count of a pool leaves a
  request, be the step a delivery, other work or a round during which the count arrives; so does the report of an exit
  or a stop. A request made while a round runs, for whatever reason, is there after the round. In every later state a
  request is still pending, or else the loop has woken for it and begun a round of the scheduler on the counts as they
  were then, after the request. As long as the daemon is not shutting down, a pending request enables the wake.\<close>

theorem request_not_lost:
  assumes "host_step l0 l" "host_step\<^sup>*\<^sup>* l l'"
  shows "(pushed (ho_daemon (lp_host l)) \<noteq> pushed (ho_daemon (lp_host l0)) \<longrightarrow> ho_nudged (lp_host l)) \<and>
    (ho_nudged (lp_host l) \<longrightarrow>
       ho_nudged (lp_host l') \<or>
       (\<exists>l1 ro. host_step\<^sup>*\<^sup>* l l1 \<and> ho_nudged (lp_host l1) \<and> host_step l1 (wake_up WakeRequest ro l1) \<and>
          ho_daemon (lp_host (wake_up WakeRequest ro l1)) =
            snd (reconcile_pools (ro_maintain ro) (ro_grow ro) (ho_daemon (lp_host l1))) \<and>
          host_step\<^sup>*\<^sup>* (wake_up WakeRequest ro l1) l')) \<and>
    (ho_nudged (lp_host l) \<longrightarrow> lp_done l \<or> wake_enabled WakeRequest l) \<and>
    (\<forall>w ro. RequestReconcile \<in> set (ro_calls ro) \<longrightarrow> ho_nudged (lp_host (wake_up w ro l))) \<and>
    (\<forall>now now2 ev p h. ev \<in> {EventExited, EventStopped} \<longrightarrow>
       ho_nudged (host_do_all (snd (on_slot_event now now2 ev p)) h))"
proof -
  have "ho_nudged (lp_host (wake_up w ro l))" if "RequestReconcile \<in> set (ro_calls ro)" for w ro
    using host_do_all_request [OF that] by (simp add: wake_up_def Let_def)
  moreover have "ho_nudged (host_do_all (snd (on_slot_event now now2 ev p)) h)"
    if "ev \<in> {EventExited, EventStopped}" for now now2 ev p h
    using that by (intro host_do_all_request) (auto simp: on_slot_event_def)
  moreover have "ho_nudged (lp_host l) \<longrightarrow> lp_done l \<or> wake_enabled WakeRequest l" by (simp add: wake_enabled_def)
  ultimately show ?thesis
    using pushed_step [OF assms(1)] request_pending_or_served [OF assms(2)] unfolding served_since_def by blast
qed

theorem request_not_lost_witness:
  "ho_nudged (lp_host (at_host sync_metrics (start_loop (new_host two_pools None)))) \<and>
   wake_enabled WakeRequest (at_host sync_metrics (start_loop (new_host two_pools None)))"
proof -
  define l0 where "l0 = start_loop (new_host two_pools None)"
  have n: "ho_nudged (lp_host (at_host sync_metrics l0))" "\<not> lp_done (at_host sync_metrics l0)"
    by (simp_all add: l0_def at_host_def start_loop_def request_reconcile_def sync_metrics_def on_metrics_def)
  from request_not_lost [OF host_step.synced rtranclp.rtrancl_refl, of l0] n show ?thesis unfolding l0_def by blast
qed

section \<open>Gauges\<close>

lemma pool_locked_set_actual [simp]:
  "pool_locked q (set_actual p st n r) =
     (if q = p then (pool_locked p r)\<lparr>mt_actual := put_key st n (mt_actual (pool_locked p r))\<rparr> else pool_locked q r)"
  by (simp add: set_actual_def)

lemma pool_locked_set_desired [simp]:
  "pool_locked q (set_desired_metric p n r) =
     (if q = p then (pool_locked p r)\<lparr>mt_desired := n\<rparr> else pool_locked q r)"
  by (simp add: set_desired_metric_def)

lemma sync_pool_own:
  "mt_desired (pool_locked (pl_id p) (sync_pool p r)) = t_desired (pl_table p)"
  "map_of (mt_actual (pool_locked (pl_id p) (sync_pool p r))) (state_name st) = Some (int (state_count st (snapshot (pl_table p))))"
  by (simp add: sync_pool_def all_states_def) (cases st; simp add: sync_pool_def all_states_def)

lemma sync_pool_other: "q \<noteq> pl_id p \<Longrightarrow> pool_locked q (sync_pool p r) = pool_locked q r"
  by (simp add: sync_pool_def all_states_def)

lemma sync_pools_other: "q \<notin> pl_id ` set ps \<Longrightarrow> pool_locked q (fold sync_pool ps r) = pool_locked q r"
  by (induction ps arbitrary: r) (auto simp: sync_pool_other)

lemma state_counts: "sum_list (map (\<lambda>st. state_count st ss) all_states) = length ss"
proof (induction ss)
  case (Cons s ss)
  then show ?case by (cases "s_state s") (simp_all add: all_states_def state_count_def)
qed (simp add: all_states_def state_count_def)

text \<open>C30: The gauges match the tables: after a synchronisation, whatever was recorded before, the desired gauge of every
  pool is its table's desired count, the gauge of each of the six states is the number of its slots in that state, and
  the six add up to its slots: every slot is counted once.\<close>

theorem gauges_match_tables:
  assumes "distinct (map pl_id (dm_pools (ho_daemon h)))" "p \<in> set (dm_pools (ho_daemon h))"
  shows "let m = pool_locked (pl_id p) (ho_metrics (sync_metrics h)); slots = snapshot (pl_table p) in
    mt_desired m = t_desired (pl_table p) \<and>
    (\<forall>st. map_of (mt_actual m) (state_name st) = Some (int (state_count st slots))) \<and>
    sum_list (map (\<lambda>st. state_count st slots) all_states) = length slots"
proof -
  from assms(2) obtain before after where ps: "dm_pools (ho_daemon h) = before @ p # after" by (meson split_list)
  with assms(1) have "pl_id p \<notin> pl_id ` set after" by auto
  then have "pool_locked (pl_id p) (ho_metrics (sync_metrics h)) = pool_locked (pl_id p) (sync_pool p (fold sync_pool before (ho_metrics h)))"
    by (simp add: sync_metrics_def on_metrics_def ps sync_pools_other)
  then show ?thesis by (simp add: Let_def sync_pool_own state_counts)
qed

theorem gauges_match_tables_witness:
  "let m = pool_locked ''a'' (ho_metrics (sync_metrics ((new_host two_pools None)\<lparr>ho_daemon := demo_daemon\<rparr>)))
   in map_of (mt_actual m) ''idle'' = Some 0"
  using gauges_match_tables [of "(new_host two_pools None)\<lparr>ho_daemon := demo_daemon\<rparr>" "demo_pool_of ''a''"]
  by (auto simp: Let_def demo_daemon_def demo_pool_of_def new_pool_runtime_def snapshot_def snapshot_locked_def
      new_table_def state_count_def dest: spec [of _ StateIdle])

section \<open>Listeners\<close>

text \<open>A listener that keeps stopping waits one, two, five, fifteen and then always thirty seconds: the waits never go
  back, since the count of attempts is not reset by a run that lasted.\<close>

lemma listener_wait_bounds: "second \<le> listener_wait n \<and> listener_wait n \<le> 30 * second"
proof -
  have "second \<le> listener_backoff ! k \<and> listener_backoff ! k \<le> 30 * second" if "k < 5" for k
  proof -
    from that have "k \<in> set [0..<5]" by simp
    then show ?thesis by (auto simp: listener_backoff_def second_def upt_conv_Cons)
  qed
  then show ?thesis by (simp add: listener_wait_def listener_backoff_def)
qed

lemma listener_wait_capped: "4 \<le> n \<Longrightarrow> listener_wait n = 30 * second"
  by (simp add: listener_wait_def listener_backoff_def min_absorb2)

lemma listener_loop_waits:
  "fst (listener_loop ad attempt runs) = map listener_wait [attempt..<attempt + length (fst (listener_loop ad attempt runs))]"
proof (induction runs arbitrary: attempt)
  case (Cons run runs)
  obtain rn c1 c2 where run: "run = (rn, c1, c2)" by (metis prod_cases3)
  show ?case using Cons.IH [of "attempt + 1"]
    by (auto simp: run upt_conv_Cons Let_def simp del: upt_Suc split: prod.splits)
qed simp

end
