(* ===== verification/Command.thy ===== *)
theory Command
  imports Daemon_Properties
begin

text \<open>
  The command and the process around the daemon: the flags and the exit code (\<open>main.go\<close>), the reported version
  (\<open>version.go\<close>), strict loading (\<open>config.Load\<close>), the stages of \<open>app.Run\<close> up to the event loop, and the
  small adapters around files and sockets: readiness datagrams, the runner name of an adopted slot, the watched
  message client, the reader that looks at its context.
\<close>

section \<open>Version and logging\<close>

text \<open>\<open>version.String\<close>: the value set at link time, and the module version of the build information.\<close>

definition version_string :: "string \<Rightarrow> string option \<Rightarrow> string" where
  "version_string link_time build_info =
     (if link_time \<noteq> ''dev'' then link_time
      else case build_info of
        None \<Rightarrow> link_time
      | Some v \<Rightarrow> if v = [] \<or> v = ''(devel)'' then link_time else v)"

datatype log_level = LevelDebug | LevelInfo | LevelWarn | LevelError

definition new_logger :: "config \<Rightarrow> log_level" where
  "new_logger c =
     (if cf_log_level c = ''debug'' then LevelDebug
      else if cf_log_level c = ''warn'' then LevelWarn
      else if cf_log_level c = ''error'' then LevelError
      else LevelInfo)"

section \<open>Loading the configuration\<close>

text \<open>What the strict decoder answers for the next document of the file.\<close>

datatype 'a document = NoDocument | BadDocument | Document 'a

datatype load_error = LoadRead | LoadEmpty | LoadDecode | LoadMany | LoadTrailing

text \<open>\<open>Load\<close>: the first document (\<open>None\<close>: the file cannot be read), what follows it, and the tree the presence
  of keys is looked up in.\<close>

definition load_config :: "config document option \<Rightarrow> unit document \<Rightarrow> yaml_node option \<Rightarrow> load_error + config" where
  "load_config first trailing root_node =
     (case first of
        None \<Rightarrow> Inl LoadRead
      | Some NoDocument \<Rightarrow> Inl LoadEmpty
      | Some BadDocument \<Rightarrow> Inl LoadDecode
      | Some (Document c) \<Rightarrow>
          (case trailing of
             Document x \<Rightarrow> Inl LoadMany
           | BadDocument \<Rightarrow> Inl LoadTrailing
           | NoDocument \<Rightarrow> Inr (load_defaults root_node c)))"

section \<open>The stages of a run\<close>

record 'u command_env =
  ce_document :: "config document option"
  ce_trailing :: "unit document"
  ce_tree :: "yaml_node option"
  ce_world :: config_world
  ce_dirs :: "string \<Rightarrow> dir_env"
  ce_boot :: boot_env
  ce_manager :: manager
  ce_listen_err :: bool
  ce_client :: "'u client"
  ce_remote :: 'u
  ce_adopt :: "string \<Rightarrow> adopt_run"

datatype stage_error =
  AtLoad load_error | AtValidate "config_error list" | AtDirs dir_error | AtBoot boot_error | AtListen | AtPools boot_error

datatype run_end = Failed stage_error | DryRunOk | Serving loop

text \<open>\<open>daemon.close\<close>, deferred by \<open>Run\<close>.\<close>

definition close_host :: "host \<Rightarrow> host" where
  "close_host h =
     h\<lparr>ho_daemon := (ho_daemon h)
         \<lparr>dm_pools := map (\<lambda>p. p\<lparr>pl_table := close_table (pl_table p)\<rparr>) (dm_pools (ho_daemon h))\<rparr>\<rparr>"

text \<open>\<open>daemon.run\<close> up to its loop: the metrics listener, then the scale sets and the adoption.\<close>

definition enter_loop :: "'u command_env \<Rightarrow> host \<Rightarrow> run_end \<times> host option" where
  "enter_loop ce h =
     (if ce_listen_err ce then (Failed AtListen, Some (close_host h))
      else case fst (boot_pools (ce_client ce) (ce_adopt ce) h (ce_remote ce)) of
        (Some e, h1) \<Rightarrow> (Failed (AtPools e), Some (close_host h1))
      | (None, h1) \<Rightarrow> (Serving (start_loop h1), None))"

text \<open>\<open>Run\<close>: how it ends or enters the loop, and the closed daemon it leaves when it fails after building one.\<close>

definition app_run :: "'u command_env \<Rightarrow> bool \<Rightarrow> run_end \<times> host option" where
  "app_run ce dry_run =
     (case load_config (ce_document ce) (ce_trailing ce) (ce_tree ce) of
        Inl e \<Rightarrow> (Failed (AtLoad e), None)
      | Inr c \<Rightarrow>
          if validate (ce_world ce) c \<noteq> [] then (Failed (AtValidate (validate (ce_world ce) c)), None)
          else if dry_run then (DryRunOk, None)
          else case ensure_dirs (ce_dirs ce) (ensure_dirs_list c) of
            Some e \<Rightarrow> (Failed (AtDirs e), None)
          | None \<Rightarrow>
              (case fst (new_daemon c (ce_boot ce) (ce_manager ce)) of
                 Inl e \<Rightarrow> (Failed (AtBoot e), None)
               | Inr h \<Rightarrow> enter_loop ce h))"

record flags =
  fl_config :: string
  fl_dry_run :: bool
  fl_version :: bool

text \<open>\<open>main\<close>: the exit code and the line on standard output. An error counts only while no signal has come.\<close>

definition main_exit :: "flags \<Rightarrow> string \<Rightarrow> 'u command_env \<Rightarrow> bool \<Rightarrow> int \<times> string option" where
  "main_exit fl v ce signalled =
     (if fl_version fl then (0, Some v)
      else case fst (app_run ce (fl_dry_run fl)) of
        Failed e \<Rightarrow> (if signalled then 0 else 1, None)
      | DryRunOk \<Rightarrow> (0, Some (''config '' @ fl_config fl @ '' valid (dry run)''))
      | Serving l \<Rightarrow> (0, None))"

section \<open>Readiness datagram\<close>

record notify_env =
  ne_socket :: string
  ne_dial_err :: bool
  ne_deadline_err :: bool
  ne_write_err :: bool

text \<open>\<open>SdNotify\<close>: whether it succeeds, and the address and the message it writes.\<close>

definition sd_notify :: "notify_env \<Rightarrow> string \<Rightarrow> bool \<times> (string \<times> string) option" where
  "sd_notify ne state =
     (if ne_socket ne = [] then (True, None)
      else if ne_dial_err ne \<or> ne_deadline_err ne then (False, None)
      else (\<not> ne_write_err ne, Some (notify_address (ne_socket ne), state @ [newline])))"

section \<open>The runner name of an adopted slot\<close>

text \<open>The agent's file in the slot: whether it opens (as no symbolic link), what its stat says, and its content.\<close>

record agent_file =
  af_regular :: bool
  af_bytes :: int
  af_links :: "nat option"
  af_content :: "string option"

definition max_agent_file :: nat where "max_agent_file = 2 ^ 20"

definition read_runner_name :: "(string \<Rightarrow> string option) \<Rightarrow> (string \<Rightarrow> agent_file option option) \<Rightarrow> string \<Rightarrow> string" where
  "read_runner_name json open_file dir =
     (case open_file (join_path [dir, ''.runner'']) of
        None \<Rightarrow> []
      | Some None \<Rightarrow> []
      | Some (Some f) \<Rightarrow>
          if \<not> af_regular f \<or> af_bytes f > int max_agent_file then []
          else if af_links f \<noteq> Some 1 then []
          else case af_content f of
            None \<Rightarrow> []
          | Some b \<Rightarrow> (case json (take max_agent_file b) of None \<Rightarrow> [] | Some name \<Rightarrow> name))"

section \<open>Watched client\<close>

text \<open>\<open>watchedClient\<close>: what \<open>GetMessage\<close> passes on, and the messages it shows to its watcher; \<open>Close\<close> of a client
  that has none succeeds.\<close>

definition watched_get :: "bool \<Rightarrow> message option \<times> bool \<Rightarrow> (message option \<times> bool) \<times> message list" where
  "watched_get watching answer =
     (case answer of (msg, err) \<Rightarrow>
        (answer, if \<not> err \<and> watching then (case msg of None \<Rightarrow> [] | Some m \<Rightarrow> [m]) else []))"

definition watched_close :: "bool option \<Rightarrow> bool" where
  "watched_close closer = (case closer of None \<Rightarrow> False | Some err \<Rightarrow> err)"

section \<open>Reading under a context\<close>

datatype read_error = NoError | EndOfFile | ReadFailed | ReadCancelled

text \<open>\<open>contextReader.Read\<close> into a buffer of a given length; the reader below answers for the length it is given.\<close>

definition context_read :: "bool \<Rightarrow> bool \<Rightarrow> (nat \<Rightarrow> string \<times> read_error) \<Rightarrow> nat \<Rightarrow> string \<times> read_error" where
  "context_read cancelled_before cancelled_after rd n =
     (if cancelled_before then ([], ReadCancelled)
      else let (b, err) = rd (if n > 32 * 1024 then 32 * 1024 else n)
           in if cancelled_after then (b, ReadCancelled) else (b, err))"

section \<open>The unverified payload\<close>

text \<open>What validation makes of the value of the variable that permits an unverified payload.\<close>

definition setting_allows_unverified :: "string \<Rightarrow> bool" where
  "setting_allows_unverified v \<longleftrightarrow> v = ''1''"

lemma hex_any_is_hex: "hex_any c = is_hex c"
  by (auto simp: hex_any_def is_hex_def hex_char_def is_digit_def)

lemma validated_sha:
  assumes "validate cw c = []" "cf_version c \<noteq> []"
  shows "cw_allow_unverified cw \<or> sha256_ok (cf_sha256 c)"
proof -
  have "fst (validate_runner cw c) = []" using assms(1) by (simp add: validate_def Let_def split: prod.splits)
  then show ?thesis using assms(2) by (auto simp: validate_runner_def Let_def split: prod.splits)
qed

text \<open>For a pinned version, the checksum of a validated configuration passes the payload's own check, unless
  verification is waived and the checksum is neither empty nor well formed: then the configuration is valid and the
  daemon refuses to start. The two components also read the variable differently: the payload honours values that
  validation does not.\<close>

lemma validated_checksum_accepted:
  assumes "validate cw c = []" "cf_version c \<noteq> []" "cw_allow_unverified cw = setting_allows_unverified v"
  shows "check_sha256 v (cf_sha256 c) \<longleftrightarrow> cf_sha256 c = [] \<or> sha256_ok (cf_sha256 c)"
  using validated_sha [OF assms(1,2)] assms(3)
  by (auto simp: check_sha256_def sha256_ok_def setting_allows_unverified_def allow_unverified_def to_lower_def is_upper_def
      less_eq_char_def hex_any_is_hex [abs_def])

lemma unverified_setting_divergence:
  "setting_allows_unverified v \<Longrightarrow> allow_unverified v"
  "allow_unverified ''true'' \<and> \<not> setting_allows_unverified ''true''"
  by (auto simp: setting_allows_unverified_def allow_unverified_def to_lower_def is_upper_def less_eq_char_def)

section \<open>What the command guarantees\<close>

lemma boot_pools_ids:
  "boot_pools uc runs h u = ((None, h1), u') \<Longrightarrow>
   map pl_id (dm_pools (ho_daemon h1)) = map pl_id (dm_pools (ho_daemon h))"
proof -
  have "adopt_pools runs ps = (err, qs) \<Longrightarrow> map pl_id qs = map pl_id ps" for ps err qs
    by (induction ps arbitrary: err qs) (auto simp: Let_def split: option.splits prod.splits)
  then show "boot_pools uc runs h u = ((None, h1), u') \<Longrightarrow> ?thesis"
    by (auto simp: boot_pools_def split: option.splits prod.splits)
qed

text \<open>The stages behind a loop that was entered.\<close>

lemma app_run_served:
  assumes "app_run ce dry_run = (Serving l0, left)"
  obtains c h m' h1 u' where "\<not> dry_run" "left = None"
    "load_config (ce_document ce) (ce_trailing ce) (ce_tree ce) = Inr c" "validate (ce_world ce) c = []"
    "ensure_dirs (ce_dirs ce) (ensure_dirs_list c) = None"
    "new_daemon c (ce_boot ce) (ce_manager ce) = (Inr h, m')"
    "boot_pools (ce_client ce) (ce_adopt ce) h (ce_remote ce) = ((None, h1), u')" "l0 = start_loop h1"
proof -
  from assms obtain c h where c: "\<not> dry_run" "load_config (ce_document ce) (ce_trailing ce) (ce_tree ce) = Inr c"
    "validate (ce_world ce) c = []" "ensure_dirs (ce_dirs ce) (ensure_dirs_list c) = None"
    "fst (new_daemon c (ce_boot ce) (ce_manager ce)) = Inr h" "enter_loop ce h = (Serving l0, left)"
    by (auto simp: app_run_def split: sum.splits if_splits option.splits)
  from c(6) obtain h1 where "fst (boot_pools (ce_client ce) (ce_adopt ce) h (ce_remote ce)) = (None, h1)"
    "l0 = start_loop h1" "left = None"
    by (auto simp: enter_loop_def split: if_splits prod.splits option.splits)
  with c that show thesis by (metis prod.collapse)
qed

text \<open>A dry run prepares nothing and starts nothing, and its exit code is that of the configuration.\<close>

lemma dry_run_exact:
  "snd (app_run ce True) = None \<and>
   (fst (main_exit (fl\<lparr>fl_dry_run := True, fl_version := False\<rparr>) v ce False) = 0 \<longleftrightarrow>
      (\<exists>c. load_config (ce_document ce) (ce_trailing ce) (ce_tree ce) = Inr c \<and> validate (ce_world ce) c = []))"
  by (auto simp: main_exit_def app_run_def split: sum.split)

text \<open>Whatever fails after the daemon was built leaves every slot table closed.\<close>

lemma failed_run_closes:
  "app_run ce dry_run = (r, Some h) \<Longrightarrow> p \<in> set (dm_pools (ho_daemon h)) \<Longrightarrow> t_closed (pl_table p)"
  by (auto simp: app_run_def enter_loop_def close_host_def close_table_def split: sum.splits if_splits option.splits prod.splits)

text \<open>C1: Whatever the command comes to serve is a sound daemon: its configuration came from a file with exactly one
  decoded document and passed validation, its directories are usable, its pools are the configured ones under
  distinct IDs, the ceiling is between 1 and 32 runners, and in every later state of the daemon all slot tables are
  well formed and the live slots stay within the ceiling, or within what the boot adopted.\<close>

theorem command_serves_sound_daemon:
  assumes "app_run ce dry_run = (Serving l0, left)" "host_step\<^sup>*\<^sup>* l0 l"
  shows "\<exists>c. load_config (ce_document ce) (ce_trailing ce) (ce_tree ce) = Inr c \<and> validate (ce_world ce) c = [] \<and>
    ensure_dirs (ce_dirs ce) (ensure_dirs_list c) = None \<and>
    map pl_id (dm_pools (ho_daemon (lp_host l0))) = map cp_id (cf_pools c) \<and> distinct (map cp_id (cf_pools c)) \<and>
    1 \<le> cf_max_runners c \<and> cf_max_runners c \<le> 32 \<and> daemon_inv (ho_daemon (lp_host l)) \<and>
    int (length (all_active (ho_daemon (lp_host l)))) \<le>
      max (int (length (all_active (ho_daemon (lp_host l0))))) (cf_max_runners c)"
proof -
  from assms(1) obtain c h m' h1 u' where
    c: "load_config (ce_document ce) (ce_trailing ce) (ce_tree ce) = Inr c" "validate (ce_world ce) c = []"
      "ensure_dirs (ce_dirs ce) (ensure_dirs_list c) = None"
    and d: "new_daemon c (ce_boot ce) (ce_manager ce) = (Inr h, m')"
    and b: "boot_pools (ce_client ce) (ce_adopt ce) h (ce_remote ce) = ((None, h1), u')"
    and l0: "l0 = start_loop h1"
    by (rule app_run_served)
  have "map pl_id (dm_pools (ho_daemon h)) = map cp_id (cf_pools c)"
    using new_daemon_shape [OF d] by (simp add: build_pool_def new_pool_runtime_def)
  then have "map pl_id (dm_pools (ho_daemon (lp_host l0))) = map cp_id (cf_pools c)"
    using boot_pools_ids [OF b] by (simp add: l0 start_loop_def request_reconcile_def)
  moreover have "daemon_inv (ho_daemon (lp_host l)) \<and>
      int (length (all_active (ho_daemon (lp_host l)))) \<le>
        max (int (length (all_active (ho_daemon (lp_host l0))))) (cf_max_runners c)"
    using daemon_run_ceiling [OF d b assms(2) [unfolded l0]] by (simp add: l0 start_loop_def request_reconcile_def)
  ultimately show ?thesis using c valid_config_capacity [OF c(2)] by blast
qed

text \<open>A host on which the command serves two pools.\<close>

definition demo_command :: "unit command_env" where
  "demo_command = \<lparr>ce_document = Some (Document two_pools), ce_trailing = NoDocument, ce_tree = None, ce_world = demo_world,
     ce_dirs = (\<lambda>_. \<lparr>de_mkdir_err = False, de_lstat = Some True, de_chmod_err = False, de_probe_err = False\<rparr>),
     ce_boot = demo_boot, ce_manager = demo_manager, ce_listen_err = False, ce_client = boot_client, ce_remote = (),
     ce_adopt = (\<lambda>_. demo_adoption)\<rparr>"

lemma apply_defaults_again:
  "map default_pool ps = ps \<Longrightarrow>
   apply_defaults False False False False ((apply_defaults False False False False c)\<lparr>cf_pools := ps\<rparr>) =
     (apply_defaults False False False False c)\<lparr>cf_pools := ps\<rparr>"
  by (simp add: apply_defaults_def)

lemma demo_loaded: "load_defaults None two_pools = two_pools"
  unfolding load_defaults_def option.case two_pools_def demo_config_def
  by (rule apply_defaults_again) (simp add: demo_config_pool_def default_pool_def or_str_def)

lemma clean_path_nonempty: "clean_path s \<noteq> []"
  by (auto simp: clean_path_def Let_def)

lemma join_path_nonempty: "x \<noteq> [] \<Longrightarrow> join_path (x # xs) \<noteq> []"
  by (simp add: join_path_def clean_path_nonempty)

lemma demo_dirs: "\<forall>(path, private) \<in> set ds. path \<noteq> [] \<Longrightarrow> ensure_dirs (ce_dirs demo_command) ds = None"
  by (induction ds) (auto simp: demo_command_def)

lemma demo_paths:
  "cf_state_dir two_pools \<noteq> []" "cf_cache_dir two_pools \<noteq> []" "cf_log_dir two_pools \<noteq> []" "cf_jit_dir two_pools \<noteq> []"
  by (simp_all add: two_pools_def demo_config_def apply_defaults_def or_str_def)

lemma demo_serves:
  "\<exists>h1. app_run demo_command False = (Serving (start_loop h1), None) \<and> length (dm_pools (ho_daemon h1)) = 2"
proof -
  obtain h m' h1 where b: "new_daemon two_pools demo_boot demo_manager = (Inr h, m')"
    "boot_pools boot_client (\<lambda>_. demo_adoption) h () = ((None, h1), ())" "ho_daemon h1 = ho_daemon h" using demo_booted by blast
  have "length (dm_pools (ho_daemon h1)) = 2"
    using new_daemon_shape [OF b(1)] b(3) by (simp add: two_pools_def)
  moreover have "ensure_dirs (ce_dirs demo_command) (ensure_dirs_list two_pools) = None"
    by (rule demo_dirs) (auto simp: ensure_dirs_list_def pool_slots_dir_def pool_jit_dir_def pool_log_dir_def
        pool_state_dir_def join_path_nonempty demo_paths)
  moreover have "load_config (ce_document demo_command) (ce_trailing demo_command) (ce_tree demo_command) = Inr two_pools"
    by (simp add: demo_command_def load_config_def demo_loaded)
  moreover have "enter_loop demo_command h = (Serving (start_loop h1), None)"
    using b(2) by (simp add: demo_command_def enter_loop_def)
  moreover have "fst (new_daemon two_pools (ce_boot demo_command) (ce_manager demo_command)) = Inr h"
    using b(1) by (simp add: demo_command_def)
  moreover have "validate (ce_world demo_command) two_pools = []"
    using two_pools_valid by (simp add: demo_command_def)
  ultimately have "app_run demo_command False = (Serving (start_loop h1), None)" "length (dm_pools (ho_daemon h1)) = 2"
    by (simp_all add: app_run_def)
  then show ?thesis by blast
qed

theorem command_serves_sound_daemon_witness:
  "\<exists>l0. app_run demo_command False = (Serving l0, None) \<and>
    daemon_inv (ho_daemon (lp_host (wake_up WakeRequest demo_round l0))) \<and>
    distinct (map pl_id (dm_pools (ho_daemon (lp_host l0))))"
proof -
  obtain h1 where l: "app_run demo_command False = (Serving (start_loop h1), None)" using demo_serves by blast
  from command_serves_sound_daemon [OF l demo_woken]
  have "daemon_inv (ho_daemon (lp_host (wake_up WakeRequest demo_round (start_loop h1))))"
    "distinct (map pl_id (dm_pools (ho_daemon (lp_host (start_loop h1)))))"
    by (elim exE conjE, simp only:)+
  with l show ?thesis by (intro exI conjI)
qed

end
