(* ===== verification/Slot_Lifecycle.thy ===== *)
theory Slot_Lifecycle
  imports Slot_Properties
begin

text \<open>
  The contract of the slot table for one slot: an automaton on the phases of its life, written
  without records, maps, workers or environments, and the refinement lemma that the table
  implements it. An asynchronous step of the table makes at most one step of the automaton, and a
  whole run of handlers a path of it.
\<close>

section \<open>The specification\<close>

datatype phase = Unborn | Provisioning | Ready | Working | Draining | Exited | Freed

inductive phase_step :: "phase \<Rightarrow> phase \<Rightarrow> bool" where
  ph_reserve: "phase_step Unborn Provisioning"
| ph_adopt_running: "phase_step Unborn Working"
| ph_adopt_orphan: "phase_step Unborn Exited"
| ph_launched: "phase_step Provisioning Ready"
| ph_assigned: "q = Provisioning \<or> q = Ready \<Longrightarrow> phase_step q Working"
| ph_drain: "q = Provisioning \<or> q = Ready \<Longrightarrow> phase_step q Draining"
| ph_stop_failed: "q = Provisioning \<or> q = Ready \<Longrightarrow> phase_step Draining q"
| ph_exit: "q \<notin> {Unborn, Exited, Freed} \<Longrightarrow> phase_step q Exited"
| ph_aborted: "phase_step Provisioning Freed"
| ph_wiped: "phase_step Exited Freed"

inductive_cases phase_stepE: "phase_step q q'"

inductive_simps phase_step_simps [simp]:
  "phase_step Unborn q" "phase_step Provisioning q" "phase_step Ready q" "phase_step Working q"
  "phase_step Draining q" "phase_step Exited q" "phase_step Freed q"

text \<open>Where a phase lies: before the slot exists, waiting for a job, on a job, being wiped, gone.
  Only the waiting phases can be revisited.\<close>

fun stage :: "phase \<Rightarrow> nat" where
  "stage Unborn = 0"
| "stage Provisioning = 1"
| "stage Ready = 1"
| "stage Draining = 1"
| "stage Working = 2"
| "stage Exited = 3"
| "stage Freed = 4"

text \<open>The reachability order: a preorder, since the waiting phases are equivalent.\<close>

instantiation phase :: preorder
begin

definition less_eq_phase :: "phase \<Rightarrow> phase \<Rightarrow> bool" where
  "q \<le> q' \<longleftrightarrow> q = q' \<or> stage q < stage q' \<or> stage q = 1 \<and> stage q' = 1"

definition less_phase :: "phase \<Rightarrow> phase \<Rightarrow> bool" where
  "less_phase q q' \<longleftrightarrow> q \<le> q' \<and> \<not> q' \<le> q"

instance
  by standard (auto simp: less_eq_phase_def less_phase_def)

end

lemma phase_step_le: "phase_step q q' \<Longrightarrow> q \<le> q'"
  by (cases q; cases q') (auto simp: less_eq_phase_def)

lemmas phase_path = r_into_rtranclp [of phase_step] converse_rtranclp_into_rtranclp [of phase_step]

lemma phase_path_Exited: "phase_step\<^sup>*\<^sup>* Exited Freed"
  by (rule phase_path(1)) simp

lemma phase_path_Working: "stage q' > 2 \<Longrightarrow> phase_step\<^sup>*\<^sup>* Working q'"
  by (cases q') (auto intro: phase_path phase_path_Exited)

lemma phase_path_Provisioning: "stage q' > 0 \<Longrightarrow> phase_step\<^sup>*\<^sup>* Provisioning q'"
  by (cases q') (auto intro: phase_path)

lemma phase_path_waiting: "stage q = 1 \<Longrightarrow> phase_step\<^sup>*\<^sup>* q Provisioning"
  by (cases q) (simp_all add: phase_path(2) [of Ready Draining] phase_path(1) [of Draining])

theorem phase_reach: "phase_step\<^sup>*\<^sup>* q q' \<longleftrightarrow> q \<le> q'"
proof
  assume "phase_step\<^sup>*\<^sup>* q q'"
  then show "q \<le> q'"
    by induction (auto intro: order_trans phase_step_le)
next
  assume m: "q \<le> q'"
  show "phase_step\<^sup>*\<^sup>* q q'"
  proof (cases "stage q = 1")
    case True
    with m phase_path_waiting phase_path_Provisioning show ?thesis
      by (metis (no_types) less_eq_phase_def rtranclp_trans rtranclp.rtrancl_refl zero_less_one less_trans)
  next
    case False
    with m show ?thesis
      by (cases q; cases q') (simp_all add: less_eq_phase_def phase_path_Working phase_path_Exited
          phase_path_Provisioning phase_path(2) [OF ph_reserve])
  qed
qed

section \<open>The table implements it\<close>

text \<open>The phase of the slot a record describes. A record the table no longer lists is freed.\<close>

definition phase_of :: "table \<Rightarrow> ptr \<Rightarrow> phase" where
  "phase_of t p =
     (if t_next t \<le> p then Unborn
      else if p \<notin> listed t then Freed
      else if r_cleanup_pending (t_heap t p) then Exited
      else case s_state (t_heap t p) of
        StateStarting \<Rightarrow> Provisioning
      | StateIdle \<Rightarrow> Ready
      | StateBusy \<Rightarrow> Working
      | _ \<Rightarrow> Draining)"

definition phases_move :: "table \<Rightarrow> table \<Rightarrow> bool" where
  "phases_move t t' \<longleftrightarrow> (\<forall>p. phase_step\<^sup>=\<^sup>= (phase_of t p) (phase_of t' p))"

lemma phases_move_refl [simp]: "phases_move t t"
  by (simp add: phases_move_def)

lemma phase_of_frame [simp]:
  "phase_of (perform es t) p = phase_of t p" "phase_of (emit ev s t) p = phase_of t p"
  "phase_of (t\<lparr>t_desired := d\<rparr>) p = phase_of t p" "phase_of (t\<lparr>t_closed := b\<rparr>) p = phase_of t p"
  "phase_of (t\<lparr>t_now := m\<rparr>) p = phase_of t p" "phase_of (t\<lparr>t_watch := ws\<rparr>) p = phase_of t p"
  "phase_of (t\<lparr>t_workers := wk\<rparr>) p = phase_of t p" "phase_of (t\<lparr>t_dirs := ds\<rparr>) p = phase_of t p"
  by (simp_all add: phase_of_def)

text \<open>A change of one record.\<close>

lemma phases_move_upd_rec:
  "phase_step\<^sup>=\<^sup>= (phase_of t p) (phase_of (upd_rec p f t) p) \<Longrightarrow> phases_move t (upd_rec p f t)"
  by (auto simp: phases_move_def phase_of_def)

lemma slots_ok_listed: "slots_ok t \<Longrightarrow> (i, p) \<in> set (t_slots t) \<Longrightarrow> p \<in> listed t \<and> p < t_next t"
  by (force simp: slots_ok_def listed_def)

lemma phases_move_job:
  assumes "slots_ok t" "(i, p) \<in> set (t_slots t)"
    and "s_state (t_heap t p) = StateStarting \<or> s_state (t_heap t p) = StateIdle \<or>
      s_state (t_heap t p) = StateBusy"
    and "s_state (f (t_heap t p)) = StateBusy"
    and "r_cleanup_pending (f (t_heap t p)) = r_cleanup_pending (t_heap t p)"
  shows "phases_move t (upd_rec p f t)"
  using slots_ok_listed [OF assms(1,2)] assms(3-5)
  by (intro phases_move_upd_rec) (auto simp: phase_of_def ph_assigned)

lemma phases_move_observe_exit:
  assumes "table_inv t"
  shows "phases_move t (snd (observe_exit i e t))"
proof -
  have "phases_move t (upd_rec p (\<lambda>_. r') t)" if "exit_step t p r' es" for p r' es
  proof -
    have "p < t_next t" "p \<in> listed t" using that by (force simp: exit_step_def listed_def)+
    then show ?thesis using that
      by (intro phases_move_upd_rec) (auto simp: phase_of_def exit_step_def split: slot_state.split)
  qed
  with observe_exit_shape [OF assms, of i e] show ?thesis
    by (fastforce simp: phases_move_def)
qed

lemma listed_del_key:
  assumes "slots_ok t" "(i, p) \<in> set (t_slots t)"
  shows "listed (t\<lparr>t_slots := del_key i (t_slots t)\<rparr>) = listed t - {p}"
proof -
  have "j = i \<longleftrightarrow> q = p" if "(j, q) \<in> set (t_slots t)" for j q
  proof
    assume "j = i"
    with assms that show "q = p" by (metis option.inject slots_ok_lookup)
  next
    assume "q = p"
    moreover have "s_id (t_heap t p) = i" "s_id (t_heap t q) = j"
      using assms that by (auto simp: slots_ok_def)
    ultimately show "j = i" by simp
  qed
  then show ?thesis by (force simp: listed_def set_del_key)
qed

lemma phases_move_clean_end:
  assumes inv: "table_inv t"
  shows "phases_move t (clean_end p we t)"
proof (cases "map_of (t_workers t) p")
  case None
  then show ?thesis by (simp add: clean_end_def phases_move_def)
next
  case (Some snap)
  obtain es ok where w: "wipe we t snap = (es, ok)" by fastforce
  have pw: "(p, snap) \<in> set (t_workers t)" using Some by (rule map_of_SomeD)
  then have p: "p < t_next t" "r_cleaning (t_heap t p)" "(s_id (t_heap t p), p) \<in> set (t_slots t)"
    using inv by (auto simp: table_inv_def workers_ok_def)
  then have pend: "r_cleanup_pending (t_heap t p)"
    using table_inv_recD [OF inv, of p] by (simp add: rec_ok_def)
  have s: "slots_ok t" using inv by (rule table_inv_slotsD)
  then have gone: "listed (t\<lparr>t_slots := del_key (s_id (t_heap t p)) (t_slots t)\<rparr>) = listed t - {p}"
    using p(3) by (rule listed_del_key)
  have m: "map_of (t_slots t) (s_id (t_heap t p)) = Some p"
    using s p by (simp add: slots_ok_lookup)
  have "t_heap (clean_end p we t) = (t_heap t)(p := (t_heap t p)\<lparr>r_cleaning := False, r_clean_done := ClosedChan\<rparr>)"
    "listed (clean_end p we t) = (if ok then listed t - {p} else listed t)"
    "t_next (clean_end p we t) = t_next t"
    using gone m by (simp_all add: clean_end_def Some w Let_def listed_def split: option.split)
  then show ?thesis using p pend slots_ok_listed [OF s p(3)]
    by (auto simp: phases_move_def phase_of_def)
qed

lemma phases_move_act:
  assumes inv: "table_inv t"
  shows "phases_move t (act a t)"
proof -
  have s: "slots_ok t" using inv by (rule table_inv_slotsD)
  show ?thesis
  proof (cases a)
    case (AMarkBusy i)
    then show ?thesis 
      by (auto simp: mark_busy_def state_of_def split: option.split
          intro: phases_move_job [OF s map_of_SomeD])
  next
    case (AClaim job)
    then show ?thesis 
      by (auto simp: claim_def state_of_def claim_rec_def dest!: find_SomeD split: option.split
          intro!: phases_move_job [OF s])
  next
    case (AMarkResult runner result)
    then show ?thesis by (auto simp: mark_result_def phases_move_def phase_of_def split: option.split)
  next
    case (ASample p u)
    then show ?thesis by (auto simp: store_sample_def phases_move_def phase_of_def)
  next
    case (AExit p)
    then show ?thesis
      using phases_move_observe_exit [OF table_inv_watch [OF inv, of p], of _ "Some p"]
      by (auto simp: watch_exit_def phases_move_def)
  next
    case (AObserveExit i)
    then show ?thesis using phases_move_observe_exit [OF inv, of i None]
      by (auto simp: observe_launched_def phases_move_def split: option.split)
  next
    case (ACleanBegin p)
    then show ?thesis by (auto simp: clean_begin_def phases_move_def phase_of_def Let_def)
  next
    case (ACleanEnd p we)
    then show ?thesis using phases_move_clean_end [OF inv] by simp
  next
    case (AReorder xs)
    then show ?thesis by (auto simp: phases_move_def phase_of_def listed_def)
  qed (auto simp: phases_move_def set_desired_def close_table_def)
qed

text \<open>A whole handler: from the invariant and the evolution of the table alone.\<close>

lemma evolves_phase_le:
  assumes "table_inv t" "table_inv t'" "evolves t t'"
  shows "phase_of t p \<le> phase_of t' p"
proof (cases "p < t_next t")
  case False
  then show ?thesis by (auto simp: phase_of_def less_eq_phase_def split: slot_state.split)
next
  case True
  then have p': "p < t_next t'" using assms(3) by (simp add: evolves_def)
  note ok = table_inv_recD [OF assms(1) True] table_inv_recD [OF assms(2) p']
  have "rec_evolves (t_heap t p) (t_heap t' p)" "p \<in> listed t' \<Longrightarrow> p \<in> listed t"
    using assms(3) True by (simp_all add: evolves_def)
  then show ?thesis using True p' ok
    by (cases "s_state (t_heap t p)"; cases "s_state (t_heap t' p)")
      (auto simp: phase_of_def less_eq_phase_def rec_evolves_def rec_ok_def)
qed

text \<open>C5: The slot table refines the slot automaton: from every table that keeps the invariant
  (every reachable one does) an asynchronous step (a job message, a confirmed exit, the start or
  the end of a cleanup, closing, the clock) moves each slot along at most one edge of the automaton,
  and any run of handlers and steps moves it along a path. So a slot on a job leaves it only to be
  wiped, its ID is freed only after that, and a freed record never comes back.\<close>

theorem lifecycle_refined:
  assumes inv: "table_inv t"
  shows "(\<forall>a p. phase_step\<^sup>=\<^sup>= (phase_of t p) (phase_of (act a t) p)) \<and>
    (\<forall>t' p. reachable t t' \<longrightarrow> phase_step\<^sup>*\<^sup>* (phase_of t p) (phase_of t' p))"
proof (intro conjI allI impI)
  show "phase_step\<^sup>=\<^sup>= (phase_of t p) (phase_of (act a t) p)" for a p
    using phases_move_act [OF inv] by (simp only: phases_move_def)
  show "phase_step\<^sup>*\<^sup>* (phase_of t p) (phase_of t' p)" if "reachable t t'" for t' p
    using reachable_grow [OF that inv] inv evolves_phase_le
    by (simp only: phase_reach grow_step_def)
qed

lemma busy_idle_listed: "listed busy_idle = {0, 1}"
  by (auto simp: listed_def)

theorem lifecycle_refined_witness:
  "map (phase_of busy_idle) [0, 1, 2] = [Working, Ready, Unborn] \<and>
   phase_of (act (AMarkBusy ''0002'') busy_idle) 1 = Working \<and>
   phase_step\<^sup>=\<^sup>= (phase_of busy_idle 1) (phase_of (act (AMarkBusy ''0002'') busy_idle) 1)"
  using lifecycle_refined [of busy_idle]
  by (intro conjI) (simp_all add: phase_of_def busy_idle_listed mark_busy_def state_of_def)

end
