(* ===== verification/Daemon_Tables.thy ===== *)
theory Daemon_Tables
  imports Command Slot_Lifecycle
begin

text \<open>
  What the daemon does to a slot table is a run of the table's own steps: whatever the scheduler, the listeners, the
  boot and the shutdown do, every table stays reachable from the new table its pool was built with. So all that holds
  of reachable tables holds of the tables of the daemon for its whole life.
\<close>

section \<open>Runs of one table\<close>

lemma reach_one: "table_step t t' \<Longrightarrow> reachable t t'"
  by (rule reach_step [OF reach_refl])

lemma reach_trans: "reachable t' t'' \<Longrightarrow> reachable t t' \<Longrightarrow> reachable t t''"
  by (induction rule: reachable.induct) (auto intro: reach_step)

lemma reach_act: "reachable t (act a t)"
  by (rule reach_one) (rule step_async)

lemma reach_run: "reachable t (run as t)"
  by (induction as arbitrary: t) (auto intro: reach_refl reach_trans reach_act)

lemma reach_set_desired: "reachable t (set_desired n t)"
  using reach_act [of t "ASetDesired n"] by simp

lemma reach_close: "reachable t (close_table t)"
  using reach_act [of t AClose] by simp

lemma reach_ensure_by: "ensure n ee t = (err, t') \<Longrightarrow> reachable t t'"
  using reach_one [OF step_ensure [of t n ee]] by simp

section \<open>Runs of all tables\<close>

definition tables_run :: "daemon \<Rightarrow> daemon \<Rightarrow> bool" where
  "tables_run d d' \<longleftrightarrow>
     length (dm_pools d') = length (dm_pools d) \<and>
     (\<forall>k < length (dm_pools d). reachable (table_at d k) (table_at d' k))"

lemma tables_run_refl [simp]: "tables_run d d"
  by (simp add: tables_run_def reach_refl)

lemma tables_run_trans: "tables_run d d' \<Longrightarrow> tables_run d' d'' \<Longrightarrow> tables_run d d''"
  unfolding tables_run_def by (metis reach_trans)

lemma tables_run_cursor [simp]: "tables_run d (d'\<lparr>dm_cursor := c\<rparr>) = tables_run d d'"
  by (simp add: tables_run_def)

lemma tables_run_pause: "tables_run d (pause_all pz d)"
  by (simp add: tables_run_def pause_all_nth reach_run)

lemma tables_run_update:
  assumes "reachable (table_at d k) (pl_table p)"
  shows "tables_run d (d\<lparr>dm_pools := (dm_pools d)[k := p]\<rparr>)"
proof -
  have "reachable (table_at d j) (pl_table ((dm_pools d)[k := p] ! j))" if "j < length (dm_pools d)" for j
    using that assms by (cases "j = k") (simp_all add: reach_refl)
  then show ?thesis by (simp add: tables_run_def)
qed

lemma tables_run_set_table:
  "reachable (table_at d k) t \<Longrightarrow> tables_run d (set_table k t d)"
  unfolding set_table_def by (rule tables_run_update) simp

lemma tables_run_visit:
  assumes "ensure n ee (table_at (pause_all pz d) k) = (err, t)"
  shows "tables_run d (pause_all pz' (set_table k t (pause_all pz d)))"
  using tables_run_set_table [OF reach_ensure_by [OF assms]] tables_run_pause
  by (blast intro: tables_run_trans)

lemma tables_run_maintain_one: "tables_run d (snd (maintain_one v k d))"
proof -
  define d1 where "d1 = set_table k (set_desired (pl_desired (dm_pools d ! k)) (table_at d k)) d"
  obtain err t where e: "ensure (min (int (length (active (table_at d1 k)))) (pl_desired (dm_pools d ! k))) (vi_ensure v)
      (table_at (pause_all (vi_before v) d1) k) = (err, t)" by fastforce
  have "snd (maintain_one v k d) = pause_all (vi_after v) (set_table k t (pause_all (vi_before v) d1))"
    using e by (simp add: maintain_one_def Let_def d1_def)
  moreover have "tables_run d d1" unfolding d1_def by (intro tables_run_set_table reach_set_desired)
  ultimately show ?thesis using tables_run_visit [OF e] by (metis tables_run_trans)
qed

lemma tables_run_maintain: "tables_run d (snd (maintain vs ks d))"
proof (induction ks arbitrary: d)
  case (Cons k ks)
  obtain err d1 where m: "maintain_one (vs k) k d = (err, d1)" by fastforce
  then have "tables_run d d1" using tables_run_maintain_one [of d "vs k" k] by simp
  with m Cons.IH [of d1] show ?case by (cases err) (auto intro: tables_run_trans)
qed simp

lemma tables_run_grow_one: "grow_one v d = (err, gain, d') \<Longrightarrow> tables_run d d'"
proof (erule grow_one_cases)
  show "tables_run d d'" if "d' = pause_all (vi_before v) (d\<lparr>dm_cursor := c\<rparr>)" for c
    unfolding that by (rule tables_run_trans [OF _ tables_run_pause]) simp
  show "tables_run d d'"
    if "ensure n (vi_ensure v) (table_at (pause_all (vi_before v) (d\<lparr>dm_cursor := c\<rparr>)) k) = (e, t)"
      "d' = pause_all (vi_after v) (set_table k t (pause_all (vi_before v) (d\<lparr>dm_cursor := c\<rparr>)))" for n c k e t
    unfolding that(2) by (rule tables_run_trans [OF _ tables_run_visit [OF that(1)]]) simp
qed

lemma tables_run_grow: "tables_run d (snd (grow vs host_total wp d))"
proof (induction vs arbitrary: host_total wp d)
  case Nil
  then show ?case by (simp add: grow.simps [of "[]"])
next
  case (Cons v vs)
  obtain err gain d1 where g: "grow_one v d = (err, gain, d1)" by (metis prod_cases3)
  note r = tables_run_grow_one [OF g]
  show ?case using r tables_run_trans [OF r Cons.IH] g
    by (cases err; cases gain) (auto simp: grow.simps [of "v # vs"])
qed

lemma tables_run_reconcile: "tables_run d (snd (reconcile_pools ms vs d))"
proof -
  obtain err d1 where m: "maintain ms [0..<length (dm_pools d)] d = (err, d1)" by fastforce
  then have r: "tables_run d d1" using tables_run_maintain [of d ms "[0..<length (dm_pools d)]"] by simp
  with m tables_run_trans [OF r tables_run_grow] show ?thesis
    by (cases err) (auto simp: reconcile_pools_def Let_def)
qed

lemma tables_run_shutdown: "tables_run d (shutdown_slots ees d)"
  by (simp add: tables_run_def shutdown_slots_def nth_enumerate_eq reach_one [OF step_shutdown])

section \<open>Steps of the daemon\<close>

lemma reach_deliver: "reachable (pl_table p) (pl_table (fst (deliver now c p)))"
proof (cases c)
  case (CallJobStart jb)
  have "reachable (pl_table p) t" if "claim cj (pl_table p) = (found, t)" for cj found t
    using reach_act [of "pl_table p" "AClaim cj"] that by simp
  then show ?thesis
    by (auto simp: CallJobStart on_job_start_def Let_def consume_queued_ref_def reach_refl split: prod.split)
next
  case (CallJobEnd jb)
  then show ?thesis using reach_act [of "pl_table p" "AMarkResult (jb_runner_name jb) (jb_result jb)"]
    by (simp add: on_job_end_def reach_refl)
next
  case (CallQueued refs)
  have "pl_table (foldl (\<lambda>p ref. note_ref now ref p) q refs) = pl_table q" for q
    by (induction refs arbitrary: q) (auto simp: note_ref_def)
  then show ?thesis by (simp add: CallQueued note_queued_def expire_queued_def Let_def reach_refl)
qed (simp_all add: on_session_started_def on_desired_def reach_refl)

lemma tables_run_set_pool:
  "reachable (pl_table (pool_at h k)) (pl_table p) \<Longrightarrow> tables_run (ho_daemon h) (ho_daemon (set_pool k p h))"
  by (simp add: set_pool_def tables_run_update)

lemma tables_run_step:
  assumes "host_step l l'"
  shows "tables_run (ho_daemon (lp_host l)) (ho_daemon (lp_host l'))"
  using assms
proof cases
  case (background pz)
  then show ?thesis by (simp add: at_host_def tables_run_pause)
next
  case (delivered k now c p calls)
  then have "p = fst (deliver now c (pool_at (lp_host l) k))" by simp
  with delivered(1) show ?thesis using reach_deliver by (simp add: at_host_def tables_run_set_pool)
next
  case (slot_event k now now2 ev p calls)
  then have p: "p = fst (on_slot_event now now2 ev (pool_at (lp_host l) k))" by simp
  with slot_event(1) show ?thesis by (simp add: at_host_def tables_run_set_pool slot_event_table reach_refl)
next
  case (woken w ro)
  then show ?thesis by (simp add: tables_run_reconcile)
next
  case (stopped ees)
  then show ?thesis by (simp add: stop_loop_at_def Let_def tables_run_shutdown)
qed (simp_all add: at_host_def on_metrics_def)

lemma tables_run_steps:
  "host_step\<^sup>*\<^sup>* l l' \<Longrightarrow> tables_run (ho_daemon (lp_host l)) (ho_daemon (lp_host l'))"
  by (induction rule: rtranclp_induct) (auto intro: tables_run_trans tables_run_step)

section \<open>From the new tables on\<close>

lemma reach_adopt_pools:
  "adopt_pools runs ps = (err, qs) \<Longrightarrow>
   length qs = length ps \<and> (\<forall>k < length ps. reachable (pl_table (ps ! k)) (pl_table (qs ! k)))"
proof (induction ps arbitrary: err qs)
  case (Cons p ps)
  have adopted: "reachable (pl_table p) t" if "adopt ae units n (pl_table p) = (e, t)" for ae units n e t
    using reach_one [OF step_adopt [of "pl_table p" ae units n]] that by simp
  show ?case
  proof (cases "ar_units (runs (pl_id p))")
    case None
    with Cons.prems show ?thesis by (auto simp: reach_refl)
  next
    case (Some units)
    obtain e t where a: "adopt (ar_adopt (runs (pl_id p))) units (ar_checks (runs (pl_id p))) (pl_table p) = (e, t)" by fastforce
    obtain err' rest where r: "adopt_pools runs ps = (err', rest)" by fastforce
    note ih = Cons.IH [OF r]
    have "qs = p\<lparr>pl_table := t\<rparr> # ps \<or> qs = p\<lparr>pl_table := t\<rparr> # rest"
      using Cons.prems Some a r by (auto simp: Let_def split: option.splits)
    then show ?thesis using ih adopted [OF a] by (auto simp: nth_Cons reach_refl split: nat.split)
  qed
qed simp

lemma tables_run_boot:
  "boot_pools uc runs h u = ((None, h1), u') \<Longrightarrow> tables_run (ho_daemon h) (ho_daemon h1)"
  using reach_adopt_pools by (auto simp: boot_pools_def tables_run_def split: option.splits prod.splits)

lemma daemon_tables_reachable:
  assumes "new_daemon c bo m = (Inr h, m')" "boot_pools uc runs h u = ((None, h1), u')"
    and "host_step\<^sup>*\<^sup>* (start_loop h1) l" "k < length (dm_pools (ho_daemon (lp_host l)))"
  shows "\<exists>r j opts now ds. reachable (new_table r j opts now ds) (table_at (ho_daemon (lp_host l)) k)"
proof -
  have "tables_run (ho_daemon h) (ho_daemon (lp_host l))"
    using tables_run_boot [OF assms(2)] tables_run_steps [OF assms(3)]
    by (auto simp: start_loop_def request_reconcile_def intro: tables_run_trans)
  then have "reachable (table_at (ho_daemon h) k) (table_at (ho_daemon (lp_host l)) k)" "k < length (dm_pools (ho_daemon h))"
    using assms(4) by (simp_all add: tables_run_def)
  moreover from this(2) have "table_at (ho_daemon h) k =
      build_table c (cp_id (cf_pools c ! k)) (bo_now bo) (bo_dirs bo (cp_id (cf_pools c ! k)))"
    using new_daemon_shape [OF assms(1)] by (simp add: build_pool_def new_pool_runtime_def)
  ultimately show ?thesis unfolding build_table_def by metis
qed

text \<open>C6: The tables of a served daemon keep the contract of the slot table for the daemon's whole life: from the moment
  the command serves, whatever the listeners, the scheduler, the exits, the ticks and the shutdown do, every table is
  reachable by its own steps from a new table, reports the completion of a slot at most once, and moves every slot
  along a path of the slot automaton.\<close>

theorem served_tables_refine_lifecycle:
  assumes "app_run ce dry_run = (Serving l0, left)" "host_step\<^sup>*\<^sup>* l0 l" "host_step\<^sup>*\<^sup>* l l'"
    and "k < length (dm_pools (ho_daemon (lp_host l)))"
  shows "(\<exists>r j opts now ds. reachable (new_table r j opts now ds) (table_at (ho_daemon (lp_host l)) k)) \<and>
    completions_for p (t_out (table_at (ho_daemon (lp_host l)) k)) \<le> 1 \<and>
    phase_step\<^sup>*\<^sup>* (phase_of (table_at (ho_daemon (lp_host l)) k) p) (phase_of (table_at (ho_daemon (lp_host l')) k) p)"
proof -
  let ?t = "table_at (ho_daemon (lp_host l)) k"
  from assms(1) obtain c h m' h1 u' where d: "new_daemon c (ce_boot ce) (ce_manager ce) = (Inr h, m')"
    and b: "boot_pools (ce_client ce) (ce_adopt ce) h (ce_remote ce) = ((None, h1), u')" and l0: "l0 = start_loop h1"
    by (rule app_run_served)
  from daemon_tables_reachable [OF d b assms(2) [unfolded l0] assms(4)] obtain r j opts now ds where
    r: "reachable (new_table r j opts now ds) ?t" by blast
  have inv: "table_inv ?t" using r by (rule reachable_new_inv)
  have "reachable ?t (table_at (ho_daemon (lp_host l')) k)"
    using tables_run_steps [OF assms(3)] assms(4) by (simp add: tables_run_def)
  then have "phase_of ?t p \<le> phase_of (table_at (ho_daemon (lp_host l')) k) p"
    using reachable_grow inv by (intro evolves_phase_le) (auto simp: grow_step_def)
  moreover have "completions_for p (t_out ?t) \<le> 1" using inv by (simp add: table_inv_def completions_ok_def)
  ultimately show ?thesis using r unfolding phase_reach by blast
qed

theorem served_tables_refine_lifecycle_witness:
  "\<exists>l0. app_run demo_command False = (Serving l0, None) \<and>
    phase_step\<^sup>*\<^sup>* (phase_of (table_at (ho_daemon (lp_host l0)) 1) 0)
      (phase_of (table_at (ho_daemon (lp_host (wake_up WakeRequest demo_round l0))) 1) 0)"
proof -
  obtain h1 where l: "app_run demo_command False = (Serving (start_loop h1), None)" "length (dm_pools (ho_daemon h1)) = 2"
    using demo_serves by blast
  then have "1 < length (dm_pools (ho_daemon (lp_host (start_loop h1))))"
    by (simp add: start_loop_def request_reconcile_def)
  from served_tables_refine_lifecycle [OF l(1) rtranclp.rtrancl_refl demo_woken this, of 0] l(1) show ?thesis by blast
qed

end
