(* ===== verification/Spec2Isabelle.thy ===== *)
theory Spec2Isabelle
  imports Slot_Cleanup_Properties Scheduler_Progress Pool_Properties History_File Config_Properties Launch
    Logship Retention Scaleset Payload Metrics_Properties Slot_Copy Daemon_Tables
begin

text \<open>
  Verification development for tentacles, a daemon that keeps ephemeral, just-in-time configured GitHub Actions
  runners alive on one host, for one or more pools that share the host's capacity.

  \<^bold>\<open>The program.\<close> \<open>cmd/tentacles/main.go\<close> calls \<open>app.Run\<close>, which loads and validates the configuration, builds the daemon
  and runs its event loop. Each pool has a listener (\<open>scaleset\<close>) that pushes desired counts and job messages, a slot
  table (\<open>slot.Table\<close>) that starts, watches, stops and wipes runners through a backend (\<open>systemd\<close> or \<open>process\<close>), and
  hints and a retry backoff (\<open>app/pool.go\<close>). The scheduler (\<open>app/scheduler.go\<close>) converges all tables under the ceiling
  of the host and asks an admission gate that predicts usage from \<open>history\<close>. Around it: the runner release (\<open>payload\<close>),
  the account and files of a job (\<open>runner\<close>, \<open>cleanup\<close>, \<open>env\<close>), the shipping of diagnostics (\<open>logship\<close>), \<open>metrics\<close>.

  \<^bold>\<open>Foundations.\<close> \<open>Prelude\<close>: machine types, collections of rules, association lists. \<open>Go_Strings\<close>, \<open>Paths\<close>: the
  standard library functions the code calls, on byte strings. \<open>Steps\<close>: code that stops at its first error, as state
  transformers with pre- and postconditions.

  \<^bold>\<open>Slot table\<close> (\<open>slot/slot.go\<close>, \<open>slot/manager.go\<close>). \<open>Slot_Types\<close> and \<open>Slot_Table\<close>: a table is a record with a heap of
  slot records, the map from IDs to them, and the pending watches, cleanup workers and calls made so far; each
  critical section of the mutex is one definition. \<open>Slot_Handlers\<close>: the operations that release the mutex; at each
  such point their environment lists what the other goroutines do (\<open>async\<close>, \<open>act\<close>, \<open>run\<close>) and says how the outside
  call ends, so a lemma over all environments covers every interleaving. \<open>Slot_Invariant\<close>, \<open>Slot_Steps\<close>, \<open>Slot_Start\<close>,
  \<open>Slot_Convergence\<close>, \<open>Slot_Stop\<close>, \<open>Slot_Adopt\<close>: the invariant \<open>table_inv\<close> and the relation \<open>evolves\<close> through every
  step and handler. \<open>Slot_Release\<close>: what becomes of one record under any interference, up to the release of its ID.
  The exported \<open>ObserveExit\<close> takes no semaphore and may fall into any handler, for slots whose launch has ended; called
  for a slot whose launch is in flight, which nothing in the repository does, it can break the invariant
  (\<open>observe_exit_before_uncertain_start\<close>). \<open>Adopt\<close> runs before the loop starts and never beside \<open>Ensure\<close>. \<open>Slot_Progress\<close>: whole handlers, reachable tables, and progress when the outside succeeds.
  \<open>Slot_Properties\<close>, \<open>Slot_Exit_Properties\<close>, \<open>Slot_Cleanup_Properties\<close>: the properties. \<open>Slot_Lifecycle\<close>: an abstract
  automaton for the life of one slot, and the proof that the table refines it. \<open>Slot_Interface\<close>: the interpretation of
  the locales \<open>managed_table\<close> and \<open>shared_table\<close> of \<open>Reconcile\<close> (\<open>reconcile/reconcile.go\<close>) on the table; the
  scheduler's ceiling rests on it.

  \<^bold>\<open>Backends and hosts.\<close> \<open>Systemd\<close> with its properties, and \<open>Process\<close>: both backends over the outcomes of the commands
  they run. \<open>Launch\<close>: the contract of \<open>Backend.Start\<close> as the locale \<open>launcher\<close>, interpreted on both; the table as its client
  leaves no unwatched runner and gives up no start it cannot prove failed. \<open>Runner_Host\<close>: account, slot hand-over, JIT files, command line, credential removal.
  \<open>Env\<close>: environment files. \<open>Config\<close> with its properties: defaults, validation, directories.

  \<^bold>\<open>Pools and scheduler.\<close> \<open>Pool\<close> with its properties, \<open>Pool_Services\<close>: the pool runtime. \<open>Scheduler\<close>,
  \<open>Scheduler_Properties\<close>: \<open>reconcilePools\<close> interleaved with everything else, the gate, the retry timer.
  \<open>Scheduler_Progress\<close>: an undisturbed round gives away exactly the capacity the pools want. \<open>History\<close>, \<open>History_File\<close>:
  statistics, predictions, the file. \<open>Scaleset\<close>: the adapter and the delivery of its events.

  \<^bold>\<open>Files and metrics.\<close> \<open>Archive_Names\<close>, \<open>Logship\<close>, \<open>Retention\<close>: shipping and pruning diagnostics. \<open>Payload\<close>,
  \<open>Tar_Extract\<close>, \<open>Slot_Copy\<close>: installing the runner release and filling slots, over a file system with symbolic links.
  \<open>Metrics\<close>, \<open>Metrics_Properties\<close>: the registry and its text exposition.

  \<^bold>\<open>The whole.\<close> \<open>Daemon\<close>: construction and boot. \<open>Daemon_Loop\<close>: the running daemon as the step relation \<open>host_step\<close>.
  \<open>Daemon_Properties\<close>: isolation of the pools, requests, gauges, the ceiling for the daemon's life. \<open>Command\<close>: \<open>main\<close>,
  \<open>Load\<close>, \<open>Run\<close> and small adapters; what the command serves is a sound daemon. \<open>Daemon_Tables\<close>: all the daemon does to
  a slot table is a run of the table's own steps, so the facts on reachable tables hold for the daemon's life.

  \<^bold>\<open>What is shown.\<close> Invariants: the command and its daemon stay well formed under the ceiling; tables, units and
  directories. Refinement: slot lifecycle, metrics registry. Safety: no busy slot is stopped, no live directory removed,
  no completion reported twice, no runner orphaned, files confined to their trees, payloads verified. Liveness and
  termination: \<open>Ensure\<close> reaches its count, the scheduler conserves work and ends, no request is lost. Round trips:
  environment files, quoting, archive names, history, exposition. Exact results: candidates, adoption, gate, pruning,
  template copies.

  \<^bold>\<open>Bounds.\<close> Loops over slices and maps are structural. The scheduler's second loop takes a list of visits, one per
  turn; (ceiling) times (number of pools) visits always suffice (\<open>scheduler_terminates\<close>). The loops that poll the
  outside (\<open>sd_wait\<close>, \<open>proc_stop\<close>, the watch and listener loops) take the list of answers they get; where an answer
  is missing the result says so. Verification of a download tries twice, as the code does. Symbolic links are followed
  up to 40 times on a path, with one more unit of fuel than the path has elements. An
  \<open>int\<close> or a duration is an unbounded integer, a \<open>uint64\<close> a 64-bit word that wraps, a \<open>float64\<close> a real number, so
  rounding and NaN are outside the model; the conversions that matter are written out (\<open>u64_of_float\<close>).

  \<^bold>\<open>Not modelled.\<close> Logging and error texts; the HTTP server; flag parsing and signals; the GitHub client library and
  its listener loop (a record of functions and a list of callbacks); the YAML, JSON, gzip and tar decoders and SHA-256
  (parameters with their documented behaviour as hypotheses); the socket under \<open>SdNotify\<close>; process attributes set by
  \<open>CommandContext\<close>; white space outside ASCII; ownership and umask beyond the modes the code sets; the test hooks of
  \<open>Options\<close>. A context is a flag or a count of the checks that still succeed.
\<close>

end
